(* ===== verification/Lufa_Prelude.thy ===== *)
theory Lufa_Prelude
  imports Main "HOL-Library.Word" "HOL-Library.Monad_Syntax"
begin

text \<open>
  What every component of the development shares: the C integer types as words, the C idiom
  \<open>1 << n\<close> as \<open>bmask\<close>, byte-addressed memory, the collections of rewrite rules the component
  proofs draw on, and the generic lemmas on words, lists and modular indices.
\<close>

unbundle bit_operations_syntax

named_theorems word_nat \<open>facts that move a word computation to natural numbers\<close>

type_synonym u8 = "8 word"
type_synonym u16 = "16 word"
type_synonym u32 = "32 word"

text \<open>The macros \<open>MAX\<close> and \<open>MIN\<close> of \<^verbatim>\<open>LUFA/Common/Common.h\<close>.\<close>

definition C_MAX :: "'a::linorder \<Rightarrow> 'a \<Rightarrow> 'a" where
  "C_MAX x y = (if x > y then x else y)"

definition C_MIN :: "'a::linorder \<Rightarrow> 'a \<Rightarrow> 'a" where
  "C_MIN x y = (if x < y then x else y)"

lemma C_MAX_max [simp]: "C_MAX x y = max x y"
  by (auto simp: C_MAX_def max_def)

lemma C_MIN_min [simp]: "C_MIN x y = min x y"
  by (auto simp: C_MIN_def min_def)

section \<open>Single-bit masks\<close>

text \<open>The C expression \<open>1 << n\<close> at the width of the register or variable it is used with.\<close>

definition bmask :: "nat \<Rightarrow> 'a::len word" where
  "bmask n = push_bit n 1"

lemma bit_bmask [simp]:
  "bit (bmask n :: 'a::len word) k \<longleftrightarrow> k = n \<and> n < LENGTH('a)"
  by (auto simp: bmask_def bit_simps)

lemma and_bmask_eq_0 [simp]:
  fixes x :: "'a::len word"
  assumes "n < LENGTH('a)"
  shows "x AND bmask n = 0 \<longleftrightarrow> \<not> bit x n"
proof
  assume z: "x AND bmask n = 0"
  have "bit (x AND bmask n) n = bit x n"
    using assms by (simp add: bit_and_iff)
  with z show "\<not> bit x n" by simp
next
  assume "\<not> bit x n"
  then show "x AND bmask n = 0"
    by (auto intro!: bit_word_eqI simp: bit_and_iff)
qed

section \<open>Increment and decrement away from the wrap\<close>

lemma unat_Suc_word [word_nat]:
  fixes c d :: "'a::len word"
  assumes "unat c < unat d"
  shows "unat (c + 1) = Suc (unat c)"
proof -
  have "unat d < 2 ^ LENGTH('a)" by simp
  with assms have "Suc (unat c) < 2 ^ LENGTH('a)" by linarith
  then show ?thesis by (simp add: unat_word_ariths)
qed

lemma unat_pred_word [word_nat]:
  fixes c :: "'a::len word"
  assumes "0 < unat c"
  shows "unat (c - 1) = unat c - 1"
  using assms by (intro unat_minus_one) auto

lemma of_nat_neq_0_word:
  assumes "0 < n" "n < 2 ^ LENGTH('a::len)"
  shows "(of_nat n :: 'a word) \<noteq> 0"
proof
  assume "(of_nat n :: 'a word) = 0"
  then have "unat (of_nat n :: 'a word) = 0" by simp
  with assms show False by (simp add: unat_of_nat)
qed

section \<open>Indices of a circular array\<close>

lemma ring_index_inj:
  fixes n i j k :: nat
  assumes "i < n" "j < n" "(k + i) mod n = (k + j) mod n"
  shows "i = j"
proof -
  have "n dvd nat \<bar>int (k + i) - int (k + j)\<bar>"
    using assms(3) by (simp only: mod_eq_iff_dvd_symdiff_nat)
  then have "n dvd nat \<bar>int i - int j\<bar>" by simp
  moreover have "nat \<bar>int i - int j\<bar> < n"
    using assms(1,2) by auto
  ultimately have "nat \<bar>int i - int j\<bar> = 0"
    by (metis dvd_imp_le gr0I leD)
  then show ?thesis by simp
qed

lemma mod_Suc_wrap:
  fixes a n :: nat
  assumes "a < n"
  shows "(if Suc a = n then 0 else Suc a) = Suc a mod n"
  using assms by auto

section \<open>Total correctness of computations that may fail\<close>

text \<open>
  \<open>returns P m\<close>: the computation \<open>m\<close> yields a result (it neither faults nor diverges) and the
  result satisfies \<open>P\<close>. \<open>always P m\<close>: if there is a result, it satisfies \<open>P\<close>.
\<close>

definition returns :: "('a \<Rightarrow> bool) \<Rightarrow> 'a option \<Rightarrow> bool" where
  "returns P m \<longleftrightarrow> (\<exists>x. m = Some x \<and> P x)"

definition always :: "('a \<Rightarrow> bool) \<Rightarrow> 'a option \<Rightarrow> bool" where
  "always P m \<longleftrightarrow> (\<forall>x. m = Some x \<longrightarrow> P x)"

lemma returns_simps [simp]:
  "returns P (Some x) \<longleftrightarrow> P x" "\<not> returns P None"
  "returns P (map_option f m) \<longleftrightarrow> returns (\<lambda>x. P (f x)) m"
  by (auto simp: returns_def)

lemma always_simps [simp]:
  "always P (Some x) \<longleftrightarrow> P x" "always P None"
  "always P (map_option f m) \<longleftrightarrow> always (\<lambda>x. P (f x)) m"
  by (auto simp: always_def)

lemma returns_bind: "returns Q m \<Longrightarrow> (\<And>x. Q x \<Longrightarrow> returns P (f x)) \<Longrightarrow> returns P (m \<bind> f)"
  by (auto simp: returns_def)

lemma always_bind: "always Q m \<Longrightarrow> (\<And>x. Q x \<Longrightarrow> always P (f x)) \<Longrightarrow> always P (m \<bind> f)"
  by (cases m) (auto simp: always_def)

lemma returns_mono: "returns Q m \<Longrightarrow> (\<And>x. Q x \<Longrightarrow> P x) \<Longrightarrow> returns P m"
  by (auto simp: returns_def)

lemma always_mono: "always Q m \<Longrightarrow> (\<And>x. Q x \<Longrightarrow> P x) \<Longrightarrow> always P m"
  by (auto simp: always_def)

lemma returns_always: "returns P m \<Longrightarrow> always P m"
  by (auto simp: returns_def always_def)

lemma alwaysD: "always P m \<Longrightarrow> m = Some x \<Longrightarrow> P x"
  by (simp add: always_def)

lemma unat_ucast_u8 [simp]: "unat (ucast (b :: u8) :: u16) = unat b"
proof -
  have "unat b < 2 ^ 8" using unsigned_less [of b] by simp
  then show ?thesis by (simp add: unsigned_ucast_eq take_bit_nat_eq_self)
qed

lemma bit_255_nat [simp]: "bit (255 :: nat) n \<longleftrightarrow> n < 8"
proof -
  have "(255 :: nat) = mask 8" by (simp add: mask_eq_exp_minus_1)
  then show ?thesis by (simp only: bit_mask_iff possible_bit_def) simp
qed

lemma bit_255_int [simp]: "bit (255 :: int) n \<longleftrightarrow> n < 8"
proof -
  have "(255 :: int) = mask 8" by (simp add: mask_eq_exp_minus_1)
  then show ?thesis by (simp only: bit_mask_iff possible_bit_def) simp
qed

lemma ucast_u8_u16_u8 [simp]: "(ucast (ucast (b :: u8) :: u16) :: u8) = b"
  by (rule bit_word_eqI) (auto simp: bit_simps)

section \<open>Checked arrays\<close>

text \<open>C arrays are lists of a fixed length; an access outside the array is \<^term>\<open>None\<close>.\<close>

definition arr_get :: "'a list \<Rightarrow> nat \<Rightarrow> 'a option" where
  "arr_get xs i = (if i < length xs then Some (xs ! i) else None)"

definition arr_set :: "'a list \<Rightarrow> nat \<Rightarrow> 'a \<Rightarrow> 'a list option" where
  "arr_set xs i v = (if i < length xs then Some (xs[i := v]) else None)"

lemma arr_get_Some [simp]: "arr_get xs i = Some v \<longleftrightarrow> i < length xs \<and> v = xs ! i"
  by (auto simp: arr_get_def)

lemma arr_set_Some [simp]: "arr_set xs i v = Some ys \<longleftrightarrow> i < length xs \<and> ys = xs[i := v]"
  by (auto simp: arr_set_def)

lemma arr_get_in [simp]: "i < length xs \<Longrightarrow> arr_get xs i = Some (xs ! i)"
  by simp

lemma arr_set_in [simp]: "i < length xs \<Longrightarrow> arr_set xs i v = Some (xs[i := v])"
  by simp

end
