(* ===== verification/Ring_Buffer.thy ===== *)
theory Ring_Buffer
  imports Lufa_Prelude
begin

text \<open>
  The circular byte buffer of \<^verbatim>\<open>LUFA/Drivers/Misc/RingBuffer.h\<close>. The structure keeps its four
  pointers as addresses into byte-addressed memory; an operation takes the memory and the
  structure and returns both. Inside one execution thread the saving and restoring of the global
  interrupt mask has no effect on the result; what it protects is the subject of the theory on
  concurrent use.

  The file ends with the contract a client relies on (the locale \<open>bounded_fifo\<close>) and its
  interpretation on the operations of the header.
\<close>

section \<open>The structure and its operations\<close>

type_synonym ram = "nat \<Rightarrow> u8"

record RingBuffer_t =
  rb_In :: nat
  rb_Out :: nat
  rb_Start :: nat
  rb_End :: nat
  rb_Size :: u16
  rb_Count :: u16

definition RingBuffer_InitBuffer :: "nat \<Rightarrow> u16 \<Rightarrow> RingBuffer_t" where
  "RingBuffer_InitBuffer DataPtr Sz =
     \<lparr>rb_In = DataPtr, rb_Out = DataPtr, rb_Start = DataPtr, rb_End = DataPtr + unat Sz,
      rb_Size = Sz, rb_Count = 0\<rparr>"

definition RingBuffer_GetCount :: "RingBuffer_t \<Rightarrow> u16" where
  "RingBuffer_GetCount b = rb_Count b"

definition RingBuffer_GetFreeCount :: "RingBuffer_t \<Rightarrow> u16" where
  "RingBuffer_GetFreeCount b = rb_Size b - RingBuffer_GetCount b"

definition RingBuffer_IsEmpty :: "RingBuffer_t \<Rightarrow> bool" where
  "RingBuffer_IsEmpty b \<longleftrightarrow> RingBuffer_GetCount b = 0"

definition RingBuffer_IsFull :: "RingBuffer_t \<Rightarrow> bool" where
  "RingBuffer_IsFull b \<longleftrightarrow> RingBuffer_GetCount b = rb_Size b"

definition RingBuffer_Insert :: "u8 \<Rightarrow> ram \<times> RingBuffer_t \<Rightarrow> ram \<times> RingBuffer_t" where
  "RingBuffer_Insert Data = (\<lambda>(m, b).
     let m = m(rb_In b := Data);
         b = b\<lparr>rb_In := Suc (rb_In b)\<rparr>;
         b = (if rb_In b = rb_End b then b\<lparr>rb_In := rb_Start b\<rparr> else b)
     in (m, b\<lparr>rb_Count := rb_Count b + 1\<rparr>))"

definition RingBuffer_Remove :: "ram \<times> RingBuffer_t \<Rightarrow> u8 \<times> (ram \<times> RingBuffer_t)" where
  "RingBuffer_Remove = (\<lambda>(m, b).
     let Data = m (rb_Out b);
         b = b\<lparr>rb_Out := Suc (rb_Out b)\<rparr>;
         b = (if rb_Out b = rb_End b then b\<lparr>rb_Out := rb_Start b\<rparr> else b)
     in (Data, (m, b\<lparr>rb_Count := rb_Count b - 1\<rparr>)))"

definition RingBuffer_Peek :: "ram \<times> RingBuffer_t \<Rightarrow> u8" where
  "RingBuffer_Peek = (\<lambda>(m, b). m (rb_Out b))"

lemmas rb_ops = RingBuffer_Insert_def RingBuffer_Remove_def RingBuffer_Peek_def
  RingBuffer_IsEmpty_def RingBuffer_IsFull_def RingBuffer_GetCount_def
  RingBuffer_GetFreeCount_def Let_def

section \<open>Invariant and abstraction\<close>

text \<open>
  The storage array is \<open>Start ..< End\<close>; \<open>In\<close> is \<open>Count\<close> places after \<open>Out\<close> around the ring.
  The contents are read from \<open>Out\<close> on.
\<close>

definition rb_slot :: "RingBuffer_t \<Rightarrow> nat \<Rightarrow> nat" where
  "rb_slot b i = rb_Start b + (rb_Out b - rb_Start b + i) mod unat (rb_Size b)"

definition rb_inv :: "RingBuffer_t \<Rightarrow> bool" where
  "rb_inv b \<longleftrightarrow> 0 < unat (rb_Size b) \<and> rb_End b = rb_Start b + unat (rb_Size b) \<and>
     rb_Start b \<le> rb_Out b \<and> rb_Out b < rb_End b \<and> unat (rb_Count b) \<le> unat (rb_Size b) \<and>
     rb_In b = rb_slot b (unat (rb_Count b))"

definition rb_contents :: "ram \<times> RingBuffer_t \<Rightarrow> u8 list" where
  "rb_contents = (\<lambda>(m, b). map (\<lambda>i. m (rb_slot b i)) [0..<unat (rb_Count b)])"

lemma rb_slot_range:
  assumes "rb_inv b"
  shows "rb_Start b \<le> rb_slot b i" and "rb_slot b i < rb_End b"
  using assms by (auto simp: rb_slot_def rb_inv_def)

lemma rb_slot_inj:
  assumes "rb_inv b" "i < unat (rb_Size b)" "j < unat (rb_Size b)" "rb_slot b i = rb_slot b j"
  shows "i = j"
  by (rule ring_index_inj [of i "unat (rb_Size b)" j "rb_Out b - rb_Start b"])
     (use assms in \<open>simp_all add: rb_slot_def\<close>)

lemma rb_slot_0: "rb_inv b \<Longrightarrow> rb_slot b 0 = rb_Out b"
  by (auto simp: rb_slot_def rb_inv_def)

text \<open>Stepping a pointer: one further, and back to the start at the end of the array.\<close>

lemma rb_slot_step:
  assumes "rb_inv b"
  shows "(if Suc (rb_slot b i) = rb_End b then rb_Start b else Suc (rb_slot b i)) = rb_slot b (Suc i)"
proof -
  let ?n = "unat (rb_Size b)" and ?o = "rb_Out b - rb_Start b"
  have n: "0 < ?n" and e: "rb_End b = rb_Start b + ?n"
    using assms by (auto simp: rb_inv_def)
  have "(if Suc ((?o + i) mod ?n) = ?n then 0 else Suc ((?o + i) mod ?n)) = Suc ((?o + i) mod ?n) mod ?n"
    by (rule mod_Suc_wrap) (simp add: n)
  also have "\<dots> = (?o + Suc i) mod ?n" by (simp add: mod_Suc_eq)
  finally show ?thesis
    unfolding rb_slot_def e by (simp split: if_splits)
qed

lemma rb_slot_Out_step:
  assumes "rb_inv b" "rb_Start b' = rb_Start b" "rb_Size b' = rb_Size b"
    and "rb_Out b' = rb_slot b 1"
  shows "rb_slot b' i = rb_slot b (Suc i)"
proof -
  have "rb_Out b' - rb_Start b' = (rb_Out b - rb_Start b + 1) mod unat (rb_Size b)"
    using assms(2,4) by (simp add: rb_slot_def)
  then show ?thesis
    using assms(2,3) by (simp add: rb_slot_def mod_add_left_eq)
qed

section \<open>The operations on the abstract contents\<close>

lemma rb_slot_frame [simp]:
  "rb_slot (b\<lparr>rb_In := x\<rparr>) i = rb_slot b i" "rb_slot (b\<lparr>rb_Count := c\<rparr>) i = rb_slot b i"
  by (simp_all add: rb_slot_def)

lemma rb_count_bound: "rb_inv b \<Longrightarrow> \<not> RingBuffer_IsFull b \<Longrightarrow> unat (rb_Count b) < unat (rb_Size b)"
  by (auto simp: rb_inv_def rb_ops order_le_less word_unat_eq_iff)

lemma RingBuffer_Insert_eq:
  assumes "rb_inv b"
  shows "RingBuffer_Insert d (m, b) =
    (m(rb_In b := d), b\<lparr>rb_In := rb_slot b (Suc (unat (rb_Count b))), rb_Count := rb_Count b + 1\<rparr>)"
proof -
  have "(if Suc (rb_In b) = rb_End b then rb_Start b else Suc (rb_In b)) =
      rb_slot b (Suc (unat (rb_Count b)))"
    using rb_slot_step [OF assms, of "unat (rb_Count b)"] assms by (simp only: rb_inv_def)
  then show ?thesis by (auto simp: RingBuffer_Insert_def Let_def)
qed

lemma RingBuffer_Remove_eq:
  assumes "rb_inv b"
  shows "RingBuffer_Remove (m, b) =
    (m (rb_Out b), (m, b\<lparr>rb_Out := rb_slot b 1, rb_Count := rb_Count b - 1\<rparr>))"
proof -
  have "(if Suc (rb_Out b) = rb_End b then rb_Start b else Suc (rb_Out b)) = rb_slot b 1"
    using rb_slot_step [OF assms, of 0] unfolding rb_slot_0 [OF assms] by simp
  then show ?thesis by (auto simp: RingBuffer_Remove_def Let_def)
qed

lemma rb_inv_Insert:
  assumes "rb_inv b" "\<not> RingBuffer_IsFull b"
  shows "rb_inv (snd (RingBuffer_Insert d (m, b)))"
proof -
  note lt = rb_count_bound [OF assms]
  show ?thesis
    using assms(1) lt by (simp add: RingBuffer_Insert_eq) (simp add: rb_inv_def unat_Suc_word [OF lt])
qed

lemma rb_contents_Insert:
  assumes "rb_inv b" "\<not> RingBuffer_IsFull b"
  shows "rb_contents (RingBuffer_Insert d (m, b)) = rb_contents (m, b) @ [d]"
proof -
  note lt = rb_count_bound [OF assms]
  have "m(rb_In b := d) = m(rb_slot b (unat (rb_Count b)) := d)"
    using assms(1) by (simp add: rb_inv_def)
  moreover have "rb_slot b i \<noteq> rb_slot b (unat (rb_Count b))" if "i < unat (rb_Count b)" for i
    using rb_slot_inj [OF assms(1), of i "unat (rb_Count b)"] that lt by auto
  ultimately show ?thesis
    using assms(1) by (simp add: RingBuffer_Insert_eq rb_contents_def unat_Suc_word [OF lt])
qed

lemma rb_inv_Remove:
  assumes "rb_inv b" "\<not> RingBuffer_IsEmpty b"
  shows "rb_inv (snd (snd (RingBuffer_Remove (m, b))))"
proof -
  let ?b = "b\<lparr>rb_Out := rb_slot b 1, rb_Count := rb_Count b - 1\<rparr>"
  have gt: "0 < unat (rb_Count b)"
    using assms(2) by (simp add: rb_ops unat_gt_0)
  have "rb_slot ?b (unat (rb_Count b) - 1) = rb_slot b (unat (rb_Count b))"
    using gt by (subst rb_slot_Out_step [OF assms(1)]) simp_all
  moreover have "rb_Start b \<le> rb_slot b 1" "rb_slot b 1 < rb_End b"
    using rb_slot_range [OF assms(1)] by blast+
  ultimately have "rb_inv ?b"
    using assms(1) gt by (auto simp: rb_inv_def unat_pred_word)
  then show ?thesis
    using assms(1) by (simp add: RingBuffer_Remove_eq)
qed

lemma rb_contents_Remove:
  assumes "rb_inv b" "\<not> RingBuffer_IsEmpty b"
  shows "rb_contents (m, b) = fst (RingBuffer_Remove (m, b)) # rb_contents (snd (RingBuffer_Remove (m, b)))"
proof -
  let ?b = "b\<lparr>rb_Out := rb_slot b 1, rb_Count := rb_Count b - 1\<rparr>"
  have gt: "0 < unat (rb_Count b)"
    using assms(2) by (simp add: rb_ops unat_gt_0)
  have "map (\<lambda>i. m (rb_slot ?b i)) [0..<unat (rb_Count b) - 1] =
      map (\<lambda>i. m (rb_slot b i)) [1..<unat (rb_Count b)]"
    using gt by (intro nth_equalityI) (simp_all add: rb_slot_Out_step [OF assms(1)])
  moreover have "[0..<unat (rb_Count b)] = 0 # [1..<unat (rb_Count b)]"
    using gt by (simp add: upt_conv_Cons)
  ultimately show ?thesis
    using assms(1) gt by (simp add: RingBuffer_Remove_eq rb_contents_def unat_pred_word rb_slot_0)
qed

lemma length_rb_contents [simp]: "length (rb_contents (m, b)) = unat (rb_Count b)"
  by (simp add: rb_contents_def)

lemma rb_inv_Init: "0 < unat Sz \<Longrightarrow> rb_inv (RingBuffer_InitBuffer DataPtr Sz)"
  by (simp add: rb_inv_def RingBuffer_InitBuffer_def rb_slot_def)

lemma rb_contents_Init [simp]: "rb_contents (m, RingBuffer_InitBuffer DataPtr Sz) = []"
  by (simp add: rb_contents_def RingBuffer_InitBuffer_def)

section \<open>The contract of a bounded queue\<close>

text \<open>
  A client uses the buffer as the header asks: it inserts only after \<open>IsFull\<close> was false and
  removes only after \<open>IsEmpty\<close> was false. \<open>fifo_run\<close> runs a script of such guarded operations and
  collects what was accepted and what was delivered.
\<close>

datatype 'a fifo_op = Put 'a | Get

fun fifo_run :: "('a \<Rightarrow> 's \<Rightarrow> 's) \<Rightarrow> ('s \<Rightarrow> 'a \<times> 's) \<Rightarrow> ('s \<Rightarrow> bool) \<Rightarrow> ('s \<Rightarrow> bool) \<Rightarrow>
    'a fifo_op list \<Rightarrow> 's \<Rightarrow> 'a list \<times> 'a list \<times> 's" where
  "fifo_run enq deq full isemp [] s = ([], [], s)"
| "fifo_run enq deq full isemp (Put x # ops) s =
     (if full s then fifo_run enq deq full isemp ops s
      else let (ins, outs, s') = fifo_run enq deq full isemp ops (enq x s) in (x # ins, outs, s'))"
| "fifo_run enq deq full isemp (Get # ops) s =
     (if isemp s then fifo_run enq deq full isemp ops s
      else let (y, s1) = deq s; (ins, outs, s') = fifo_run enq deq full isemp ops s1
           in (ins, y # outs, s'))"

locale bounded_fifo =
  fixes enq :: "'a \<Rightarrow> 's \<Rightarrow> 's"
    and deq :: "'s \<Rightarrow> 'a \<times> 's"
    and full :: "'s \<Rightarrow> bool"
    and isemp :: "'s \<Rightarrow> bool"
    and invar :: "'s \<Rightarrow> bool"
    and contents :: "'s \<Rightarrow> 'a list"
  assumes invar_enq: "invar s \<Longrightarrow> \<not> full s \<Longrightarrow> invar (enq x s)"
    and contents_enq: "invar s \<Longrightarrow> \<not> full s \<Longrightarrow> contents (enq x s) = contents s @ [x]"
    and invar_deq: "invar s \<Longrightarrow> \<not> isemp s \<Longrightarrow> invar (snd (deq s))"
    and contents_deq: "invar s \<Longrightarrow> \<not> isemp s \<Longrightarrow> contents s = fst (deq s) # contents (snd (deq s))"
begin

text \<open>Nothing is lost, duplicated or reordered, whatever the script.\<close>

lemma run_fifo:
  assumes "invar s" "fifo_run enq deq full isemp ops s = (ins, outs, s')"
  shows "invar s' \<and> contents s @ ins = outs @ contents s'"
  using assms
proof (induction ops arbitrary: s ins outs)
  case (Cons op ops)
  consider (skip) "fifo_run enq deq full isemp ops s = (ins, outs, s')"
    | (put) x ins' where "op = Put x" "\<not> full s" "ins = x # ins'"
        "fifo_run enq deq full isemp ops (enq x s) = (ins', outs, s')"
    | (get) outs' where "op = Get" "\<not> isemp s" "outs = fst (deq s) # outs'"
        "fifo_run enq deq full isemp ops (snd (deq s)) = (ins, outs', s')"
    using Cons.prems(2) by (cases op; cases "deq s") (auto split: if_splits prod.splits)
  then show ?case
  proof cases
    case skip
    with Cons show ?thesis by blast
  next
    case put
    then show ?thesis
      using Cons.IH [OF invar_enq] Cons.prems(1) contents_enq by fastforce
  next
    case get
    then show ?thesis
      using Cons.IH [OF invar_deq] Cons.prems(1) contents_deq [OF Cons.prems(1)] by fastforce
  qed
qed simp

end

interpretation rb: bounded_fifo RingBuffer_Insert RingBuffer_Remove
  "\<lambda>(m, b). RingBuffer_IsFull b" "\<lambda>(m, b). RingBuffer_IsEmpty b" "\<lambda>(m, b). rb_inv b" rb_contents
proof unfold_locales
  fix s :: "ram \<times> RingBuffer_t" and x
  obtain m b where s: "s = (m, b)" by (cases s)
  assume "case s of (m, b) \<Rightarrow> rb_inv b" and "\<not> (case s of (m, b) \<Rightarrow> RingBuffer_IsFull b)"
  then show "case RingBuffer_Insert x s of (m, b) \<Rightarrow> rb_inv b"
    and "rb_contents (RingBuffer_Insert x s) = rb_contents s @ [x]"
    using rb_inv_Insert rb_contents_Insert by (auto simp: s case_prod_beta)
next
  fix s :: "ram \<times> RingBuffer_t"
  obtain m b where s: "s = (m, b)" by (cases s)
  assume "case s of (m, b) \<Rightarrow> rb_inv b" and "\<not> (case s of (m, b) \<Rightarrow> RingBuffer_IsEmpty b)"
  then show "case snd (RingBuffer_Remove s) of (m, b) \<Rightarrow> rb_inv b"
    and "rb_contents s = fst (RingBuffer_Remove s) # rb_contents (snd (RingBuffer_Remove s))"
    using rb_inv_Remove rb_contents_Remove by (auto simp: s case_prod_beta)
qed

lemma rb_ops_frame:
  assumes "rb_inv b" "a < rb_Start b \<or> rb_End b \<le> a"
  shows "fst (RingBuffer_Insert d (m, b)) a = m a"
proof -
  have "rb_Start b \<le> rb_In b" "rb_In b < rb_End b"
    using rb_slot_range [OF assms(1)] assms(1) by (auto simp: rb_inv_def)
  with assms show ?thesis by (auto simp: RingBuffer_Insert_eq)
qed

section \<open>Properties\<close>

text \<open>
  C1. A buffer set up by \<open>RingBuffer_InitBuffer\<close> with room for at least one byte is a FIFO queue:
  after any script of guarded insertions and removals the bytes delivered, followed by the bytes
  still stored, are exactly the bytes accepted, in order, and the structure is again well formed.
\<close>

theorem RingBuffer_is_fifo:
  assumes "0 < unat Sz"
    and "fifo_run RingBuffer_Insert RingBuffer_Remove (\<lambda>(m, b). RingBuffer_IsFull b)
           (\<lambda>(m, b). RingBuffer_IsEmpty b) ops (m, RingBuffer_InitBuffer DataPtr Sz) = (ins, outs, (m', b'))"
  shows "ins = outs @ rb_contents (m', b') \<and> rb_inv b'"
  using rb.run_fifo [OF _ assms(2)] rb_inv_Init [OF assms(1)] by simp

theorem RingBuffer_is_fifo_witness:
  "\<exists>m' b'. fifo_run RingBuffer_Insert RingBuffer_Remove (\<lambda>(m, b). RingBuffer_IsFull b)
      (\<lambda>(m, b). RingBuffer_IsEmpty b) [Put 10, Put 20, Put 30, Get, Put 40, Get]
      (\<lambda>_. 0, RingBuffer_InitBuffer 100 2) = ([10, 20, 40], [10, 20], (m', b')) \<and>
    rb_contents (m', b') = [40] \<and> rb_inv b'"
proof -
  let ?r = "fifo_run RingBuffer_Insert RingBuffer_Remove (\<lambda>(m, b). RingBuffer_IsFull b)
      (\<lambda>(m, b). RingBuffer_IsEmpty b) [Put 10, Put 20, Put 30, Get, Put 40, Get]
      (\<lambda>_. 0, RingBuffer_InitBuffer 100 2)"
  have "\<exists>m' b'. ?r = ([10, 20, 40], [10, 20], (m', b'))"
    by (simp add: rb_ops RingBuffer_InitBuffer_def)
  then obtain m' b' where r: "?r = ([10, 20, 40], [10, 20], (m', b'))" by blast
  with RingBuffer_is_fifo [OF _ r] show ?thesis by simp
qed

end
