(* ===== verification/Ring_Buffer_Concurrent.thy ===== *)
theory Ring_Buffer_Concurrent
  imports Ring_Buffer
begin

text \<open>
  One producer and one consumer share a ring buffer, one of them being an interrupt handler
  (\<^verbatim>\<open>RingBuffer.h\<close>: "Insertion and removal may occur from different execution threads").
  \<open>RingBuffer_Insert\<close> and \<open>RingBuffer_Remove\<close> are split into the memory accesses they are made of;
  only the update of \<open>Count\<close> is atomic, because it runs with interrupts disabled. The step relation
  interleaves the accesses of the two threads arbitrarily. \<open>sent\<close> and \<open>recv\<close> are history variables:
  the bytes whose insertion or removal has completed.
\<close>

section \<open>The two threads as a step relation\<close>

datatype prod_pc = PIdle | PStore u8 | PStep u8 | PWrap u8 | PCount u8

datatype cons_pc = CIdle | CLoad | CStep u8 | CWrap u8 | CCount u8

record spsc =
  mem :: ram
  buf :: RingBuffer_t
  pp :: prod_pc
  cp :: cons_pc
  sent :: "u8 list"
  recv :: "u8 list"

inductive spsc_step :: "spsc \<Rightarrow> spsc \<Rightarrow> bool" where
  p_begin: "pp s = PIdle \<Longrightarrow> \<not> RingBuffer_IsFull (buf s) \<Longrightarrow> spsc_step s (s\<lparr>pp := PStore d\<rparr>)"
| p_store: "pp s = PStore d \<Longrightarrow>
    spsc_step s (s\<lparr>mem := (mem s)(rb_In (buf s) := d), pp := PStep d\<rparr>)"
| p_step: "pp s = PStep d \<Longrightarrow>
    spsc_step s (s\<lparr>buf := (buf s)\<lparr>rb_In := Suc (rb_In (buf s))\<rparr>, pp := PWrap d\<rparr>)"
| p_wrap: "pp s = PWrap d \<Longrightarrow>
    spsc_step s (s\<lparr>buf := (if rb_In (buf s) = rb_End (buf s)
                           then (buf s)\<lparr>rb_In := rb_Start (buf s)\<rparr> else buf s), pp := PCount d\<rparr>)"
| p_count: "pp s = PCount d \<Longrightarrow>
    spsc_step s (s\<lparr>buf := (buf s)\<lparr>rb_Count := rb_Count (buf s) + 1\<rparr>, pp := PIdle, sent := sent s @ [d]\<rparr>)"
| c_begin: "cp s = CIdle \<Longrightarrow> \<not> RingBuffer_IsEmpty (buf s) \<Longrightarrow> spsc_step s (s\<lparr>cp := CLoad\<rparr>)"
| c_load: "cp s = CLoad \<Longrightarrow> spsc_step s (s\<lparr>cp := CStep (mem s (rb_Out (buf s)))\<rparr>)"
| c_step: "cp s = CStep x \<Longrightarrow>
    spsc_step s (s\<lparr>buf := (buf s)\<lparr>rb_Out := Suc (rb_Out (buf s))\<rparr>, cp := CWrap x\<rparr>)"
| c_wrap: "cp s = CWrap x \<Longrightarrow>
    spsc_step s (s\<lparr>buf := (if rb_Out (buf s) = rb_End (buf s)
                           then (buf s)\<lparr>rb_Out := rb_Start (buf s)\<rparr> else buf s), cp := CCount x\<rparr>)"
| c_count: "cp s = CCount x \<Longrightarrow>
    spsc_step s (s\<lparr>buf := (buf s)\<lparr>rb_Count := rb_Count (buf s) - 1\<rparr>, cp := CIdle, recv := recv s @ [x]\<rparr>)"

definition spsc_init :: "ram \<Rightarrow> nat \<Rightarrow> u16 \<Rightarrow> spsc" where
  "spsc_init m DataPtr Sz = \<lparr>mem = m, buf = RingBuffer_InitBuffer DataPtr Sz, pp = PIdle, cp = CIdle,
     sent = [], recv = []\<rparr>"

inductive spsc_reachable :: "spsc \<Rightarrow> bool" where
  start: "0 < unat Sz \<Longrightarrow> spsc_reachable (spsc_init m DataPtr Sz)"
| step: "spsc_reachable s \<Longrightarrow> spsc_step s t \<Longrightarrow> spsc_reachable t"

text \<open>Undisturbed, the producer's accesses are \<open>RingBuffer_Insert\<close> and the consumer's are
  \<open>RingBuffer_Remove\<close>.\<close>

lemma spsc_insert_steps:
  assumes "pp s = PStore d"
  shows "spsc_step\<^sup>*\<^sup>* s (s\<lparr>mem := fst (RingBuffer_Insert d (mem s, buf s)),
    buf := snd (RingBuffer_Insert d (mem s, buf s)), pp := PIdle, sent := sent s @ [d]\<rparr>)"
proof -
  let ?b1 = "(buf s)\<lparr>rb_In := Suc (rb_In (buf s))\<rparr>"
  let ?b2 = "if rb_In ?b1 = rb_End ?b1 then ?b1\<lparr>rb_In := rb_Start ?b1\<rparr> else ?b1"
  let ?s1 = "s\<lparr>mem := (mem s)(rb_In (buf s) := d), pp := PStep d\<rparr>"
  let ?s2 = "?s1\<lparr>buf := ?b1, pp := PWrap d\<rparr>"
  let ?s3 = "?s2\<lparr>buf := ?b2, pp := PCount d\<rparr>"
  have "spsc_step s ?s1" using assms by (rule p_store)
  moreover have "spsc_step ?s1 ?s2" using p_step [of ?s1 d] by simp
  moreover have "spsc_step ?s2 ?s3" using p_wrap [of ?s2 d] by (simp cong: if_cong)
  moreover have "spsc_step ?s3 (?s3\<lparr>buf := ?b2\<lparr>rb_Count := rb_Count ?b2 + 1\<rparr>, pp := PIdle, sent := sent s @ [d]\<rparr>)"
    using p_count [of ?s3 d] by simp
  moreover have "?s3\<lparr>buf := ?b2\<lparr>rb_Count := rb_Count ?b2 + 1\<rparr>, pp := PIdle, sent := sent s @ [d]\<rparr> =
    s\<lparr>mem := fst (RingBuffer_Insert d (mem s, buf s)),
      buf := snd (RingBuffer_Insert d (mem s, buf s)), pp := PIdle, sent := sent s @ [d]\<rparr>"
    by (simp add: RingBuffer_Insert_def Let_def)
  ultimately show ?thesis
    by (metis (no_types, lifting) r_into_rtranclp rtranclp_trans)
qed

section \<open>The invariant\<close>

text \<open>
  The \<open>k\<close>-th byte ever inserted lives in slot \<open>k mod Size\<close>. With \<open>i\<close> completed insertions and \<open>j\<close>
  completed removals, slots \<open>j ..< i\<close> hold the queue.
\<close>

definition slot_at :: "RingBuffer_t \<Rightarrow> nat \<Rightarrow> nat" where
  "slot_at b k = rb_Start b + k mod unat (rb_Size b)"

fun prod_ok :: "ram \<Rightarrow> RingBuffer_t \<Rightarrow> nat \<Rightarrow> prod_pc \<Rightarrow> bool" where
  "prod_ok m b i PIdle = (rb_In b = slot_at b i)"
| "prod_ok m b i (PStore d) = (rb_In b = slot_at b i)"
| "prod_ok m b i (PStep d) = (rb_In b = slot_at b i \<and> m (slot_at b i) = d)"
| "prod_ok m b i (PWrap d) = (rb_In b = Suc (slot_at b i) \<and> m (slot_at b i) = d)"
| "prod_ok m b i (PCount d) = (rb_In b = slot_at b (Suc i) \<and> m (slot_at b i) = d)"

fun cons_ok :: "u8 list \<Rightarrow> RingBuffer_t \<Rightarrow> nat \<Rightarrow> cons_pc \<Rightarrow> bool" where
  "cons_ok xs b j CIdle = (rb_Out b = slot_at b j)"
| "cons_ok xs b j CLoad = (rb_Out b = slot_at b j)"
| "cons_ok xs b j (CStep x) = (rb_Out b = slot_at b j \<and> x = xs ! j)"
| "cons_ok xs b j (CWrap x) = (rb_Out b = Suc (slot_at b j) \<and> x = xs ! j)"
| "cons_ok xs b j (CCount x) = (rb_Out b = slot_at b (Suc j) \<and> x = xs ! j)"

definition spsc_inv :: "spsc \<Rightarrow> bool" where
  "spsc_inv s \<longleftrightarrow> (let b = buf s; n = unat (rb_Size b); i = length (sent s); j = length (recv s) in
     0 < n \<and> rb_End b = rb_Start b + n \<and> j \<le> i \<and> unat (rb_Count b) = i - j \<and> i - j \<le> n \<and>
     (pp s \<noteq> PIdle \<longrightarrow> i - j < n) \<and> (cp s \<noteq> CIdle \<longrightarrow> j < i) \<and>
     (\<forall>k. j \<le> k \<longrightarrow> k < i \<longrightarrow> mem s (slot_at b k) = sent s ! k) \<and>
     prod_ok (mem s) b i (pp s) \<and> cons_ok (sent s) b j (cp s) \<and> recv s = take j (sent s))"

lemma slot_at_frame [simp]:
  "slot_at (b\<lparr>rb_In := x\<rparr>) k = slot_at b k" "slot_at (b\<lparr>rb_Out := x\<rparr>) k = slot_at b k"
  "slot_at (b\<lparr>rb_Count := c\<rparr>) k = slot_at b k"
  by (simp_all add: slot_at_def)

lemma slot_at_inj:
  assumes "j \<le> k" "k < i" "i - j < unat (rb_Size b)"
  shows "slot_at b k \<noteq> slot_at b i"
proof
  assume "slot_at b k = slot_at b i"
  then have "(j + (k - j)) mod unat (rb_Size b) = (j + (i - j)) mod unat (rb_Size b)"
    using assms by (simp add: slot_at_def)
  moreover have "k - j < unat (rb_Size b)" using assms by linarith
  ultimately have "k - j = i - j"
    using ring_index_inj assms(3) by blast
  with assms(1,2) show False by linarith
qed

lemma slot_at_step:
  assumes "0 < unat (rb_Size b)" "rb_End b = rb_Start b + unat (rb_Size b)"
  shows "(if Suc (slot_at b k) = rb_End b then rb_Start b else Suc (slot_at b k)) = slot_at b (Suc k)"
proof -
  let ?n = "unat (rb_Size b)"
  have "(if Suc (k mod ?n) = ?n then 0 else Suc (k mod ?n)) = Suc (k mod ?n) mod ?n"
    by (rule mod_Suc_wrap) (simp add: assms)
  also have "\<dots> = Suc k mod ?n" by (simp add: mod_Suc_eq)
  finally show ?thesis
    unfolding slot_at_def assms(2) by (simp split: if_splits)
qed

lemma spsc_inv_init: "0 < unat Sz \<Longrightarrow> spsc_inv (spsc_init m DataPtr Sz)"
  by (simp add: spsc_inv_def spsc_init_def RingBuffer_InitBuffer_def slot_at_def)

lemma spsc_step_inv:
  assumes "spsc_step s t" "spsc_inv s"
  shows "spsc_inv t"
  using assms
proof (induction rule: spsc_step.induct)
  case (p_begin s d)
  then show ?case
    by (auto simp: spsc_inv_def Let_def rb_ops word_unat_eq_iff)
next
  case (p_store s d)
  then show ?case
    using slot_at_inj [of "length (recv s)" _ "length (sent s)" "buf s"]
    by (auto simp: spsc_inv_def Let_def)
next
  case (p_step s d)
  then show ?case by (cases "cp s") (auto simp: spsc_inv_def Let_def)
next
  case (p_wrap s d)
  then show ?case
    using slot_at_step [of "buf s" "length (sent s)"]
    by (cases "cp s") (auto simp: spsc_inv_def Let_def split: if_splits)
next
  case (p_count s d)
  then have "unat (rb_Count (buf s)) < unat (rb_Size (buf s))"
    by (auto simp: spsc_inv_def Let_def)
  then have "unat (rb_Count (buf s) + 1) = Suc (unat (rb_Count (buf s)))"
    by (rule unat_Suc_word)
  with p_count show ?case
    by (cases "cp s") (auto simp: spsc_inv_def Let_def nth_append less_Suc_eq Suc_diff_le)
next
  case (c_begin s)
  then show ?case
    by (auto simp: spsc_inv_def Let_def rb_ops word_unat_eq_iff)
next
  case (c_load s)
  then show ?case by (auto simp: spsc_inv_def Let_def)
next
  case (c_step s x)
  then show ?case by (cases "pp s") (auto simp: spsc_inv_def Let_def)
next
  case (c_wrap s x)
  then show ?case
    using slot_at_step [of "buf s" "length (recv s)"]
    by (cases "pp s") (auto simp: spsc_inv_def Let_def split: if_splits)
next
  case (c_count s x)
  then show ?case
    by (cases "pp s") (auto simp: spsc_inv_def Let_def unat_pred_word take_Suc_conv_app_nth)
qed

lemma spsc_reachable_inv: "spsc_reachable s \<Longrightarrow> spsc_inv s"
  by (induction rule: spsc_reachable.induct) (auto intro: spsc_inv_init spsc_step_inv)

lemma slot_at_range:
  "0 < unat (rb_Size b) \<Longrightarrow> rb_End b = rb_Start b + unat (rb_Size b) \<Longrightarrow>
     rb_Start b \<le> slot_at b k \<and> slot_at b k < rb_End b"
  by (simp add: slot_at_def)

text \<open>
  C2. However the accesses of one producer and one consumer interleave, what has been received is a
  prefix of what has been sent, \<open>Count\<close> is the number of bytes in between and never exceeds the
  size, a store goes through \<open>In\<close> inside the storage array, and a load reads, inside the array,
  the next byte that was sent.
\<close>

theorem spsc_interleaving_safe:
  assumes "spsc_reachable s"
  shows "recv s = take (length (recv s)) (sent s) \<and>
    unat (rb_Count (buf s)) = length (sent s) - length (recv s) \<and>
    unat (rb_Count (buf s)) \<le> unat (rb_Size (buf s)) \<and>
    (pp s = PStore d \<longrightarrow> rb_Start (buf s) \<le> rb_In (buf s) \<and> rb_In (buf s) < rb_End (buf s)) \<and>
    (cp s = CLoad \<longrightarrow> rb_Start (buf s) \<le> rb_Out (buf s) \<and> rb_Out (buf s) < rb_End (buf s) \<and>
       length (recv s) < length (sent s) \<and> mem s (rb_Out (buf s)) = sent s ! length (recv s))"
  using spsc_reachable_inv [OF assms] slot_at_range [of "buf s"]
  by (auto simp: spsc_inv_def Let_def)

lemmas spsc_extend = spsc_reachable.step [OF _ spsc_step.p_begin] spsc_reachable.step [OF _ spsc_step.p_store]
  spsc_reachable.step [OF _ spsc_step.p_step] spsc_reachable.step [OF _ spsc_step.p_wrap]
  spsc_reachable.step [OF _ spsc_step.p_count] spsc_reachable.step [OF _ spsc_step.c_begin]

theorem spsc_interleaving_safe_witness:
  "\<exists>s. spsc_reachable s \<and> sent s = [7] \<and> recv s = [] \<and> pp s = PStore 9 \<and> cp s = CLoad \<and>
     rb_Start (buf s) \<le> rb_In (buf s) \<and> mem s (rb_Out (buf s)) = 7"
proof -
  let ?s0 = "spsc_init (\<lambda>_. 0) 100 2"
  have "spsc_reachable ?s0" by (rule start) simp
  from spsc_extend(1) [OF this, of 7]
  have "spsc_reachable (?s0\<lparr>pp := PStore 7\<rparr>)"
    by (simp add: spsc_init_def RingBuffer_InitBuffer_def rb_ops)
  from spsc_extend(2) [OF this, of 7] have 1: "\<exists>s. spsc_reachable s \<and> pp s = PStep 7 \<and> cp s = CIdle \<and>
      sent s = [] \<and> recv s = [] \<and> rb_Count (buf s) = 0 \<and> rb_Size (buf s) = 2"
    by (force simp: spsc_init_def RingBuffer_InitBuffer_def)
  then obtain s where s: "spsc_reachable s" "pp s = PStep 7" "cp s = CIdle" "sent s = []" "recv s = []"
    "rb_Count (buf s) = 0" "rb_Size (buf s) = 2" by blast
  let ?s3 = "s\<lparr>buf := (buf s)\<lparr>rb_In := Suc (rb_In (buf s))\<rparr>, pp := PWrap 7\<rparr>"
  have 3: "spsc_reachable ?s3" using s(1,2) by (rule spsc_extend(3))
  then have "spsc_reachable (?s3\<lparr>buf := (if rb_In (buf ?s3) = rb_End (buf ?s3)
      then (buf ?s3)\<lparr>rb_In := rb_Start (buf ?s3)\<rparr> else buf ?s3), pp := PCount 7\<rparr>)" (is "spsc_reachable ?s4")
    by (rule spsc_extend(4)) simp
  then have "spsc_reachable (?s4\<lparr>buf := (buf ?s4)\<lparr>rb_Count := rb_Count (buf ?s4) + 1\<rparr>, pp := PIdle,
      sent := sent ?s4 @ [7]\<rparr>)" (is "spsc_reachable ?s5")
    by (rule spsc_extend(5)) simp
  then have "spsc_reachable (?s5\<lparr>pp := PStore 9\<rparr>)" (is "spsc_reachable ?s6")
    by (rule spsc_extend(1)) (simp_all add: rb_ops s)
  then have "spsc_reachable (?s6\<lparr>cp := CLoad\<rparr>)" (is "spsc_reachable ?s7")
    by (rule spsc_extend(6)) (simp_all add: rb_ops s)
  then have "spsc_reachable ?s7 \<and> sent ?s7 = [7] \<and> recv ?s7 = [] \<and> pp ?s7 = PStore 9 \<and> cp ?s7 = CLoad \<and>
     rb_Start (buf ?s7) \<le> rb_In (buf ?s7) \<and> mem ?s7 (rb_Out (buf ?s7)) = 7"
    using spsc_interleaving_safe [of ?s7 9] by (simp add: s)
  then show ?thesis by blast
qed

end
