(* ===== verification/HID_Parser.thy ===== *)
theory HID_Parser
  imports Lufa_Prelude
begin

text \<open>
  The HID report descriptor parser of \<^verbatim>\<open>LUFA/Drivers/USB/Class/Common/HIDParser.c\<close> and the data
  structures of \<^verbatim>\<open>HIDParser.h\<close>, at the default sizes of its tables.

  Pointers into the parser's arrays are indices, \<open>NULL\<close> is \<open>None\<close>. Every access to an array or to
  the report data is checked: \<open>None\<close> as the result of an operation means that the C code would
  access memory outside the object. The stack variables the code reads before it has written them
  (the \<open>Value\<close> and \<open>PreviousValue\<close> of a new report item, the usage list) are arguments. The filter
  callback belongs to the application and is an argument too.
\<close>

unbundle bit_operations_syntax

section \<open>Constants and structures\<close>

abbreviation HID_STATETABLE_STACK_DEPTH :: nat where "HID_STATETABLE_STACK_DEPTH \<equiv> 2"
abbreviation HID_USAGE_STACK_DEPTH :: nat where "HID_USAGE_STACK_DEPTH \<equiv> 8"
abbreviation HID_MAX_COLLECTIONS :: nat where "HID_MAX_COLLECTIONS \<equiv> 10"
abbreviation HID_MAX_REPORTITEMS :: nat where "HID_MAX_REPORTITEMS \<equiv> 20"
abbreviation HID_MAX_REPORT_IDS :: nat where "HID_MAX_REPORT_IDS \<equiv> 10"

datatype HID_Parse_ErrorCodes_t =
    HID_PARSE_Successful
  | HID_PARSE_HIDStackOverflow
  | HID_PARSE_HIDStackUnderflow
  | HID_PARSE_InsufficientReportItems
  | HID_PARSE_UnexpectedEndCollection
  | HID_PARSE_InsufficientCollectionPaths
  | HID_PARSE_UsageListOverflow
  | HID_PARSE_InsufficientReportIDItems
  | HID_PARSE_NoUnfilteredReportItems

datatype HID_ReportItemTypes_t = HID_REPORT_ITEM_In | HID_REPORT_ITEM_Out | HID_REPORT_ITEM_Feature

fun item_type_index :: "HID_ReportItemTypes_t \<Rightarrow> nat" where
  "item_type_index HID_REPORT_ITEM_In = 0"
| "item_type_index HID_REPORT_ITEM_Out = 1"
| "item_type_index HID_REPORT_ITEM_Feature = 2"

record HID_MinMax_t =
  Minimum :: u32
  Maximum :: u32

record HID_Unit_t =
  Unit_Type :: u32
  Exponent :: u8

record HID_Usage_t =
  Page :: u16
  Usage_ID :: u16

record HID_CollectionPath_t =
  Coll_Type :: u8
  Coll_Usage :: HID_Usage_t
  Parent :: "nat option"

record HID_ReportItem_Attributes_t =
  BitSize :: u8
  Attr_Usage :: HID_Usage_t
  Attr_Unit :: HID_Unit_t
  Logical :: HID_MinMax_t
  Physical :: HID_MinMax_t

record HID_ReportItem_t =
  BitOffset :: u16
  ItemType :: HID_ReportItemTypes_t
  ItemFlags :: u16
  Item_ReportID :: u8
  CollectionPath :: "nat option"
  Attributes :: HID_ReportItem_Attributes_t
  Value :: u32
  PreviousValue :: u32

record HID_ReportSizeInfo_t =
  Size_ReportID :: u8
  ReportSizeBits :: "u16 list"

record HID_ReportInfo_t =
  TotalReportItems :: u8
  ReportItems :: "HID_ReportItem_t list"
  CollectionPaths :: "HID_CollectionPath_t list"
  TotalDeviceReports :: u8
  ReportIDSizes :: "HID_ReportSizeInfo_t list"
  LargestReportSizeBits :: u16
  UsingReportIDs :: bool

record HID_StateTable_t =
  ST_Attributes :: HID_ReportItem_Attributes_t
  ReportCount :: u8
  ST_ReportID :: u8

text \<open>The zeroed structures \<open>memset\<close> leaves behind.\<close>

definition zero_usage :: HID_Usage_t where
  "zero_usage = \<lparr>Page = 0, Usage_ID = 0\<rparr>"

definition zero_minmax :: HID_MinMax_t where
  "zero_minmax = \<lparr>Minimum = 0, Maximum = 0\<rparr>"

definition zero_attributes :: HID_ReportItem_Attributes_t where
  "zero_attributes = \<lparr>BitSize = 0, Attr_Usage = zero_usage, Attr_Unit = \<lparr>Unit_Type = 0, Exponent = 0\<rparr>,
     Logical = zero_minmax, Physical = zero_minmax\<rparr>"

definition zero_item :: HID_ReportItem_t where
  "zero_item = \<lparr>BitOffset = 0, ItemType = HID_REPORT_ITEM_In, ItemFlags = 0, Item_ReportID = 0,
     CollectionPath = None, Attributes = zero_attributes, Value = 0, PreviousValue = 0\<rparr>"

definition zero_path :: HID_CollectionPath_t where
  "zero_path = \<lparr>Coll_Type = 0, Coll_Usage = zero_usage, Parent = None\<rparr>"

definition zero_size_info :: HID_ReportSizeInfo_t where
  "zero_size_info = \<lparr>Size_ReportID = 0, ReportSizeBits = [0, 0, 0]\<rparr>"

definition zero_state :: HID_StateTable_t where
  "zero_state = \<lparr>ST_Attributes = zero_attributes, ReportCount = 0, ST_ReportID = 0\<rparr>"

definition zero_info :: HID_ReportInfo_t where
  "zero_info = \<lparr>TotalReportItems = 0, ReportItems = replicate HID_MAX_REPORTITEMS zero_item,
     CollectionPaths = replicate HID_MAX_COLLECTIONS zero_path, TotalDeviceReports = 0,
     ReportIDSizes = replicate HID_MAX_REPORT_IDS zero_size_info, LargestReportSizeBits = 0,
     UsingReportIDs = False\<rparr>"

section \<open>The parser\<close>

text \<open>
  The local variables of \<open>USB_ProcessHIDReport\<close> together with the structure it fills. A step
  either goes on or returns an error code.
\<close>

record hid_vars =
  ParserData :: HID_ReportInfo_t
  StateTable :: "HID_StateTable_t list"
  CurrStateTable :: nat
  CurrCollectionPath :: "nat option"
  CurrReportIDInfo :: nat
  UsageList :: "u16 list"
  UsageListSize :: u8
  UsageMinMax :: HID_MinMax_t

datatype hid_out = Go hid_vars | Ret HID_Parse_ErrorCodes_t HID_ReportInfo_t

abbreviation HID_RI_DATA_SIZE_MASK :: u8 where "HID_RI_DATA_SIZE_MASK \<equiv> 0x03"
abbreviation HID_RI_TYPE_MASK :: u8 where "HID_RI_TYPE_MASK \<equiv> 0x0C"
abbreviation HID_RI_TAG_MASK :: u8 where "HID_RI_TAG_MASK \<equiv> 0xF0"
abbreviation HID_RI_TYPE_MAIN :: u8 where "HID_RI_TYPE_MAIN \<equiv> 0x00"
abbreviation HID_IOF_CONSTANT :: u32 where "HID_IOF_CONSTANT \<equiv> 1"

text \<open>The data bytes that follow an item, little endian, and the advance of \<open>ReportData\<close> and
  \<open>ReportSize\<close> over them. \<open>ReportSize\<close> wraps if the report ends inside the item.\<close>

definition hid_item_data :: "u8 list \<Rightarrow> nat \<Rightarrow> u16 \<Rightarrow> u8 \<Rightarrow> (u32 \<times> nat \<times> u16) option" where
  "hid_item_data ReportData pos ReportSize HIDReportItem =
     (if HIDReportItem AND HID_RI_DATA_SIZE_MASK = 3 then do {
        b3 \<leftarrow> arr_get ReportData (pos + 3);
        b2 \<leftarrow> arr_get ReportData (pos + 2);
        b1 \<leftarrow> arr_get ReportData (pos + 1);
        b0 \<leftarrow> arr_get ReportData pos;
        Some (push_bit 24 (ucast b3) OR push_bit 16 (ucast b2) OR push_bit 8 (ucast b1) OR ucast b0,
              pos + 4, ReportSize - 4) }
      else if HIDReportItem AND HID_RI_DATA_SIZE_MASK = 2 then do {
        b1 \<leftarrow> arr_get ReportData (pos + 1);
        b0 \<leftarrow> arr_get ReportData pos;
        Some (push_bit 8 (ucast b1) OR ucast b0, pos + 2, ReportSize - 2) }
      else if HIDReportItem AND HID_RI_DATA_SIZE_MASK = 1 then do {
        b0 \<leftarrow> arr_get ReportData pos;
        Some (ucast b0, pos + 1, ReportSize - 1) }
      else Some (0, pos, ReportSize))"

definition hid_push :: "hid_vars \<Rightarrow> hid_out option" where
  "hid_push st =
     (if CurrStateTable st = HID_STATETABLE_STACK_DEPTH - 1
      then Some (Ret HID_PARSE_HIDStackOverflow (ParserData st))
      else do {
        cur \<leftarrow> arr_get (StateTable st) (CurrStateTable st);
        tab \<leftarrow> arr_set (StateTable st) (CurrStateTable st + 1) cur;
        Some (Go (st\<lparr>StateTable := tab, CurrStateTable := CurrStateTable st + 1\<rparr>)) })"

definition hid_pop :: "hid_vars \<Rightarrow> hid_out option" where
  "hid_pop st =
     (if CurrStateTable st = 0 then Some (Ret HID_PARSE_HIDStackUnderflow (ParserData st))
      else Some (Go (st\<lparr>CurrStateTable := CurrStateTable st - 1\<rparr>)))"

text \<open>An assignment through \<open>CurrStateTable\<close>.\<close>

definition hid_set_state :: "(HID_StateTable_t \<Rightarrow> HID_StateTable_t) \<Rightarrow> hid_vars \<Rightarrow> hid_vars option" where
  "hid_set_state f st = do {
     cur \<leftarrow> arr_get (StateTable st) (CurrStateTable st);
     tab \<leftarrow> arr_set (StateTable st) (CurrStateTable st) (f cur);
     Some (st\<lparr>StateTable := tab\<rparr>) }"

definition upd_attr :: "(HID_ReportItem_Attributes_t \<Rightarrow> HID_ReportItem_Attributes_t) \<Rightarrow>
    HID_StateTable_t \<Rightarrow> HID_StateTable_t" where
  "upd_attr f t = t\<lparr>ST_Attributes := f (ST_Attributes t)\<rparr>"

definition set_page :: "u16 \<Rightarrow> HID_ReportItem_Attributes_t \<Rightarrow> HID_ReportItem_Attributes_t" where
  "set_page v a = a\<lparr>Attr_Usage := (Attr_Usage a)\<lparr>Page := v\<rparr>\<rparr>"

text \<open>The \<open>REPORT ID\<close> item: the search for a size record with this ID, and a fresh record if there
  is none.\<close>

fun hid_find_id :: "HID_ReportSizeInfo_t list \<Rightarrow> u8 \<Rightarrow> nat \<Rightarrow> nat \<Rightarrow> nat option option" where
  "hid_find_id infos rid i 0 = Some None"
| "hid_find_id infos rid i (Suc n) = do {
     info \<leftarrow> arr_get infos i;
     if Size_ReportID info = rid then Some (Some i) else hid_find_id infos rid (Suc i) n }"

definition hid_report_id :: "u32 \<Rightarrow> hid_vars \<Rightarrow> hid_out option" where
  "hid_report_id ReportItemData st = do {
     st \<leftarrow> hid_set_state (\<lambda>t. t\<lparr>ST_ReportID := ucast ReportItemData\<rparr>) st;
     cur \<leftarrow> arr_get (StateTable st) (CurrStateTable st);
     let pd = ParserData st;
     found \<leftarrow> (if UsingReportIDs pd
               then hid_find_id (ReportIDSizes pd) (ST_ReportID cur) 0 (unat (TotalDeviceReports pd))
               else Some (Some (CurrReportIDInfo st)));
     if found = None \<and> TotalDeviceReports pd = of_nat HID_MAX_REPORT_IDS
     then Some (Ret HID_PARSE_InsufficientReportIDItems pd)
     else do {
       (pd, idx) \<leftarrow> (case found of
           Some i \<Rightarrow> Some (pd, i)
         | None \<Rightarrow> do {
             let idx = unat (TotalDeviceReports pd);
             infos \<leftarrow> arr_set (ReportIDSizes pd) idx zero_size_info;
             Some (pd\<lparr>ReportIDSizes := infos, TotalDeviceReports := TotalDeviceReports pd + 1\<rparr>, idx) });
       let pd = pd\<lparr>UsingReportIDs := True\<rparr>;
       info \<leftarrow> arr_get (ReportIDSizes pd) idx;
       infos \<leftarrow> arr_set (ReportIDSizes pd) idx (info\<lparr>Size_ReportID := ST_ReportID cur\<rparr>);
       Some (Go (st\<lparr>ParserData := pd\<lparr>ReportIDSizes := infos\<rparr>, CurrReportIDInfo := idx\<rparr>)) } }"

definition hid_usage :: "u8 \<Rightarrow> u32 \<Rightarrow> hid_vars \<Rightarrow> hid_out option" where
  "hid_usage HIDReportItem ReportItemData st =
     (if unat (UsageListSize st) = HID_USAGE_STACK_DEPTH
      then Some (Ret HID_PARSE_UsageListOverflow (ParserData st))
      else do {
        st \<leftarrow> (if HIDReportItem AND HID_RI_DATA_SIZE_MASK = 3
               then hid_set_state (upd_attr (set_page (ucast (drop_bit 16 ReportItemData)))) st
               else Some st);
        ul \<leftarrow> arr_set (UsageList st) (unat (UsageListSize st)) (ucast ReportItemData);
        Some (Go (st\<lparr>UsageList := ul, UsageListSize := UsageListSize st + 1\<rparr>)) })"

text \<open>The shared idiom that takes the next usage: the head of the usage list, which is shifted down,
  or else the next value of the usage range. \<open>None\<close> in the first component: the usage is left as it is.\<close>

function hid_usage_shift :: "u16 list \<Rightarrow> nat \<Rightarrow> nat \<Rightarrow> u16 list option" where
  "hid_usage_shift ul i n =
     (if i < n then do {
        v \<leftarrow> arr_get ul i;
        ul' \<leftarrow> arr_set ul (i - 1) v;
        hid_usage_shift ul' (Suc i) n }
      else Some ul)"
  by pat_completeness auto
termination by (relation "measure (\<lambda>(ul, i, n). n - i)") auto

declare hid_usage_shift.simps [simp del]

definition hid_next_usage :: "hid_vars \<Rightarrow> (u16 option \<times> hid_vars) option" where
  "hid_next_usage st =
     (if UsageListSize st \<noteq> 0 then do {
        u \<leftarrow> arr_get (UsageList st) 0;
        ul \<leftarrow> hid_usage_shift (UsageList st) 1 (unat (UsageListSize st));
        Some (Some u, st\<lparr>UsageList := ul, UsageListSize := UsageListSize st - 1\<rparr>) }
      else if Minimum (UsageMinMax st) \<le> Maximum (UsageMinMax st)
      then Some (Some (ucast (Minimum (UsageMinMax st))),
                 st\<lparr>UsageMinMax := (UsageMinMax st)\<lparr>Minimum := Minimum (UsageMinMax st) + 1\<rparr>\<rparr>)
      else Some (None, st))"

text \<open>The \<open>COLLECTION\<close> item. The scan for a free entry starts at entry 1 and stops at the last.\<close>

function hid_find_path :: "HID_CollectionPath_t list \<Rightarrow> nat \<Rightarrow> nat option option" where
  "hid_find_path paths i = do {
     p \<leftarrow> arr_get paths i;
     if Parent p = None then Some (Some i)
     else if i = HID_MAX_COLLECTIONS - 1 then Some None
     else hid_find_path paths (Suc i) }"
  by pat_completeness auto
termination by (relation "measure (\<lambda>(paths, i). length paths - i)") auto

declare hid_find_path.simps [simp del]

definition hid_collection :: "u32 \<Rightarrow> hid_vars \<Rightarrow> hid_out option" where
  "hid_collection ReportItemData st = do {
     let pd = ParserData st;
     found \<leftarrow> (case CurrCollectionPath st of
         None \<Rightarrow> Some (Some 0)
       | Some _ \<Rightarrow> hid_find_path (CollectionPaths pd) 1);
     case found of
       None \<Rightarrow> Some (Ret HID_PARSE_InsufficientCollectionPaths pd)
     | Some i \<Rightarrow> do {
         path \<leftarrow> arr_get (CollectionPaths pd) i;
         let path = (case CurrCollectionPath st of None \<Rightarrow> path | Some par \<Rightarrow> path\<lparr>Parent := Some par\<rparr>);
         cur \<leftarrow> arr_get (StateTable st) (CurrStateTable st);
         let path = path\<lparr>Coll_Type := ucast ReportItemData,
                         Coll_Usage := (Coll_Usage path)\<lparr>Page := Page (Attr_Usage (ST_Attributes cur))\<rparr>\<rparr>;
         (u, st) \<leftarrow> hid_next_usage st;
         let path = (case u of None \<Rightarrow> path
                     | Some v \<Rightarrow> path\<lparr>Coll_Usage := (Coll_Usage path)\<lparr>Usage_ID := v\<rparr>\<rparr>);
         paths \<leftarrow> arr_set (CollectionPaths pd) i path;
         Some (Go (st\<lparr>ParserData := pd\<lparr>CollectionPaths := paths\<rparr>, CurrCollectionPath := Some i\<rparr>)) } }"

definition hid_end_collection :: "hid_vars \<Rightarrow> hid_out option" where
  "hid_end_collection st = (case CurrCollectionPath st of
       None \<Rightarrow> Some (Ret HID_PARSE_UnexpectedEndCollection (ParserData st))
     | Some i \<Rightarrow> do {
         path \<leftarrow> arr_get (CollectionPaths (ParserData st)) i;
         Some (Go (st\<lparr>CurrCollectionPath := Parent path\<rparr>)) })"

text \<open>
  One turn of the loop over \<open>REPORT COUNT\<close> for an \<open>INPUT\<close>, \<open>OUTPUT\<close> or \<open>FEATURE\<close> item. \<open>junk\<close> is what
  the stack holds in the fields of \<open>NewReportItem\<close> that are never assigned.
\<close>

definition hid_item_type :: "u8 \<Rightarrow> HID_ReportItemTypes_t" where
  "hid_item_type HIDReportItem =
     (let ItemTypeTag = HIDReportItem AND (HID_RI_TYPE_MASK OR HID_RI_TAG_MASK) in
      if ItemTypeTag = 0x80 then HID_REPORT_ITEM_In
      else if ItemTypeTag = 0x90 then HID_REPORT_ITEM_Out
      else HID_REPORT_ITEM_Feature)"

definition hid_new_item :: "u32 \<times> u32 \<Rightarrow> u8 \<Rightarrow> u32 \<Rightarrow> HID_StateTable_t \<Rightarrow> nat option \<Rightarrow> u16 option \<Rightarrow> u16 \<Rightarrow>
    HID_ReportItem_t" where
  "hid_new_item junk HIDReportItem ReportItemData cur path usage offset =
     \<lparr>BitOffset = offset, ItemType = hid_item_type HIDReportItem, ItemFlags = ucast ReportItemData,
      Item_ReportID = ST_ReportID cur, CollectionPath = path,
      Attributes = (case usage of None \<Rightarrow> ST_Attributes cur
        | Some v \<Rightarrow> (ST_Attributes cur)\<lparr>Attr_Usage := (Attr_Usage (ST_Attributes cur))\<lparr>Usage_ID := v\<rparr>\<rparr>),
      Value = fst junk, PreviousValue = snd junk\<rparr>"

definition hid_io_item :: "(HID_ReportItem_t \<Rightarrow> bool) \<Rightarrow> u32 \<times> u32 \<Rightarrow> u8 \<Rightarrow> u32 \<Rightarrow> hid_vars \<Rightarrow> hid_out option" where
  "hid_io_item filter_cb junk HIDReportItem ReportItemData st = do {
     cur \<leftarrow> arr_get (StateTable st) (CurrStateTable st);
     (u, st) \<leftarrow> hid_next_usage st;
     let pd = ParserData st;
     let t = item_type_index (hid_item_type HIDReportItem);
     info \<leftarrow> arr_get (ReportIDSizes pd) (CurrReportIDInfo st);
     offset \<leftarrow> arr_get (ReportSizeBits info) t;
     let NewReportItem = hid_new_item junk HIDReportItem ReportItemData cur (CurrCollectionPath st) u offset;
     let total = offset + ucast (BitSize (ST_Attributes cur));
     bits \<leftarrow> arr_set (ReportSizeBits info) t total;
     infos \<leftarrow> arr_set (ReportIDSizes pd) (CurrReportIDInfo st) (info\<lparr>ReportSizeBits := bits\<rparr>);
     let pd = pd\<lparr>ReportIDSizes := infos,
                 LargestReportSizeBits := C_MAX (LargestReportSizeBits pd) total\<rparr>;
     if unat (TotalReportItems pd) = HID_MAX_REPORTITEMS
     then Some (Ret HID_PARSE_InsufficientReportItems pd)
     else do {
       items \<leftarrow> arr_set (ReportItems pd) (unat (TotalReportItems pd)) NewReportItem;
       let pd = pd\<lparr>ReportItems := items\<rparr>;
       Some (Go (st\<lparr>ParserData :=
         (if ReportItemData AND HID_IOF_CONSTANT = 0 \<and> filter_cb NewReportItem
          then pd\<lparr>TotalReportItems := TotalReportItems pd + 1\<rparr> else pd)\<rparr>)) } }"

fun hid_io_loop :: "(HID_ReportItem_t \<Rightarrow> bool) \<Rightarrow> (nat \<Rightarrow> u32 \<times> u32) \<Rightarrow> u8 \<Rightarrow> u32 \<Rightarrow> nat \<Rightarrow> hid_vars \<Rightarrow>
    hid_out option" where
  "hid_io_loop filter_cb junk HIDReportItem ReportItemData 0 st = Some (Go st)"
| "hid_io_loop filter_cb junk HIDReportItem ReportItemData (Suc n) st = do {
     r \<leftarrow> hid_io_item filter_cb (junk n) HIDReportItem ReportItemData st;
     case r of Ret c pd \<Rightarrow> Some (Ret c pd)
     | Go st' \<Rightarrow> hid_io_loop filter_cb junk HIDReportItem ReportItemData n st' }"

definition hid_io :: "(HID_ReportItem_t \<Rightarrow> bool) \<Rightarrow> (nat \<Rightarrow> u32 \<times> u32) \<Rightarrow> u8 \<Rightarrow> u32 \<Rightarrow> hid_vars \<Rightarrow> hid_out option" where
  "hid_io filter_cb junk HIDReportItem ReportItemData st = do {
     cur \<leftarrow> arr_get (StateTable st) (CurrStateTable st);
     hid_io_loop filter_cb junk HIDReportItem ReportItemData (unat (ReportCount cur)) st }"

text \<open>The \<open>switch\<close> over the type and tag of an item.\<close>

definition hid_switch :: "(HID_ReportItem_t \<Rightarrow> bool) \<Rightarrow> (nat \<Rightarrow> u32 \<times> u32) \<Rightarrow> u8 \<Rightarrow> u32 \<Rightarrow> hid_vars \<Rightarrow> hid_out option" where
  "hid_switch filter_cb junk HIDReportItem ReportItemData st =
     (let tag = HIDReportItem AND (HID_RI_TYPE_MASK OR HID_RI_TAG_MASK);
          attr = (\<lambda>f. map_option Go (hid_set_state (upd_attr f) st))
      in
      if tag = 0xA4 then hid_push st
      else if tag = 0xB4 then hid_pop st
      else if tag = 0x04 then attr (set_page (ucast ReportItemData))
      else if tag = 0x14 then attr (\<lambda>a. a\<lparr>Logical := (Logical a)\<lparr>Minimum := ReportItemData\<rparr>\<rparr>)
      else if tag = 0x24 then attr (\<lambda>a. a\<lparr>Logical := (Logical a)\<lparr>Maximum := ReportItemData\<rparr>\<rparr>)
      else if tag = 0x34 then attr (\<lambda>a. a\<lparr>Physical := (Physical a)\<lparr>Minimum := ReportItemData\<rparr>\<rparr>)
      else if tag = 0x44 then attr (\<lambda>a. a\<lparr>Physical := (Physical a)\<lparr>Maximum := ReportItemData\<rparr>\<rparr>)
      else if tag = 0x54 then attr (\<lambda>a. a\<lparr>Attr_Unit := (Attr_Unit a)\<lparr>Exponent := ucast ReportItemData\<rparr>\<rparr>)
      else if tag = 0x64 then attr (\<lambda>a. a\<lparr>Attr_Unit := (Attr_Unit a)\<lparr>Unit_Type := ReportItemData\<rparr>\<rparr>)
      else if tag = 0x74 then attr (\<lambda>a. a\<lparr>BitSize := ucast ReportItemData\<rparr>)
      else if tag = 0x94 then map_option Go (hid_set_state (\<lambda>t. t\<lparr>ReportCount := ucast ReportItemData\<rparr>) st)
      else if tag = 0x84 then hid_report_id ReportItemData st
      else if tag = 0x08 then hid_usage HIDReportItem ReportItemData st
      else if tag = 0x18 then Some (Go (st\<lparr>UsageMinMax := (UsageMinMax st)\<lparr>Minimum := ReportItemData\<rparr>\<rparr>))
      else if tag = 0x28 then Some (Go (st\<lparr>UsageMinMax := (UsageMinMax st)\<lparr>Maximum := ReportItemData\<rparr>\<rparr>))
      else if tag = 0xA0 then hid_collection ReportItemData st
      else if tag = 0xC0 then hid_end_collection st
      else if tag = 0x80 \<or> tag = 0x90 \<or> tag = 0xB0 then hid_io filter_cb junk HIDReportItem ReportItemData st
      else Some (Go st))"

text \<open>Main items end the scope of the local items.\<close>

definition hid_end_item :: "u8 \<Rightarrow> hid_vars \<Rightarrow> hid_vars" where
  "hid_end_item HIDReportItem st =
     (if HIDReportItem AND HID_RI_TYPE_MASK = HID_RI_TYPE_MAIN
      then st\<lparr>UsageMinMax := \<lparr>Minimum = 0, Maximum = 0\<rparr>, UsageListSize := 0\<rparr>
      else st)"

lemma hid_item_data_pos: "hid_item_data D pos sz item = Some (dat, pos', sz') \<Longrightarrow> pos \<le> pos'"
  by (auto simp: hid_item_data_def Let_def split: if_splits bind_splits)

function hid_loop :: "(HID_ReportItem_t \<Rightarrow> bool) \<Rightarrow> (nat \<Rightarrow> nat \<Rightarrow> u32 \<times> u32) \<Rightarrow> u8 list \<Rightarrow> nat \<Rightarrow> u16 \<Rightarrow> hid_vars \<Rightarrow>
    hid_out option" where
  "hid_loop filter_cb junk ReportData pos ReportSize st =
     (if ReportSize = 0 then Some (Go st)
      else do {
        HIDReportItem \<leftarrow> arr_get ReportData pos;
        (ReportItemData, pos', ReportSize') \<leftarrow> hid_item_data ReportData (Suc pos) (ReportSize - 1) HIDReportItem;
        r \<leftarrow> hid_switch filter_cb (junk pos) HIDReportItem ReportItemData st;
        case r of Ret c pd \<Rightarrow> Some (Ret c pd)
        | Go st' \<Rightarrow> hid_loop filter_cb junk ReportData pos' ReportSize' (hid_end_item HIDReportItem st') })"
  by pat_completeness auto
termination
  by (relation "measure (\<lambda>(f, j, D, pos, sz, st). length D - pos)") (auto dest: hid_item_data_pos)

declare hid_loop.simps [simp del]

definition hid_init_vars :: "u16 list \<Rightarrow> HID_StateTable_t list \<Rightarrow> hid_vars" where
  "hid_init_vars stack_usages stack_table =
     \<lparr>ParserData = zero_info\<lparr>TotalDeviceReports := 1\<rparr>, StateTable = zero_state # stack_table,
      CurrStateTable = 0, CurrCollectionPath = None, CurrReportIDInfo = 0, UsageList = stack_usages,
      UsageListSize = 0, UsageMinMax = zero_minmax\<rparr>"

text \<open>
  The whole routine. \<open>stack_usages\<close> and \<open>stack_table\<close> are the uninitialised contents of
  \<open>UsageList\<close> and of the state table above its first entry.
\<close>

definition USB_ProcessHIDReport :: "(HID_ReportItem_t \<Rightarrow> bool) \<Rightarrow> (nat \<Rightarrow> nat \<Rightarrow> u32 \<times> u32) \<Rightarrow> u16 list \<Rightarrow>
    HID_StateTable_t list \<Rightarrow> u8 list \<Rightarrow> u16 \<Rightarrow> (HID_Parse_ErrorCodes_t \<times> HID_ReportInfo_t) option" where
  "USB_ProcessHIDReport filter_cb junk stack_usages stack_table ReportData ReportSize = do {
     r \<leftarrow> hid_loop filter_cb junk ReportData 0 ReportSize (hid_init_vars stack_usages stack_table);
     case r of Ret c pd \<Rightarrow> Some (c, pd)
     | Go st \<Rightarrow> (if TotalReportItems (ParserData st) = 0
                 then Some (HID_PARSE_NoUnfilteredReportItems, ParserData st)
                 else Some (HID_PARSE_Successful, ParserData st)) }"

end
