(* ===== verification/HID_Parser_Safety.thy ===== *)
theory HID_Parser_Safety
  imports HID_Parser
begin

text \<open>
  Memory safety of the HID report parser and the invariants of the structure it fills.
\<close>

unbundle bit_operations_syntax

section \<open>Well-formed parser state\<close>

text \<open>
  Entries of the collection table: a parent has a smaller index than its child and is itself the
  root or has a parent, and the entries in use are contiguous.
\<close>

definition paths_wf :: "HID_CollectionPath_t list \<Rightarrow> bool" where
  "paths_wf ps \<longleftrightarrow> length ps = HID_MAX_COLLECTIONS \<and>
     (\<forall>i<HID_MAX_COLLECTIONS. \<forall>p. Parent (ps ! i) = Some p \<longrightarrow> p < i \<and> (p = 0 \<or> Parent (ps ! p) \<noteq> None)) \<and>
     (\<forall>j<HID_MAX_COLLECTIONS. \<forall>i<j. 0 < i \<longrightarrow> Parent (ps ! j) \<noteq> None \<longrightarrow> Parent (ps ! i) \<noteq> None)"

text \<open>The size records: three sizes each, none larger than \<open>LargestReportSizeBits\<close>.\<close>

definition sizes_wf :: "HID_ReportSizeInfo_t list \<Rightarrow> u16 \<Rightarrow> bool" where
  "sizes_wf infos largest \<longleftrightarrow> length infos = HID_MAX_REPORT_IDS \<and>
     (\<forall>r\<in>set infos. length (ReportSizeBits r) = 3 \<and> (\<forall>b\<in>set (ReportSizeBits r). b \<le> largest))"

text \<open>The items kept: data items the application accepted, in an existing collection if any.\<close>

definition items_wf :: "(HID_ReportItem_t \<Rightarrow> bool) \<Rightarrow> HID_ReportItem_t list \<Rightarrow> u8 \<Rightarrow> bool" where
  "items_wf filter_cb items n \<longleftrightarrow> length items = HID_MAX_REPORTITEMS \<and> unat n \<le> HID_MAX_REPORTITEMS \<and>
     (\<forall>k<unat n. filter_cb (items ! k) \<and> \<not> bit (ItemFlags (items ! k)) 0 \<and>
        (\<forall>p. CollectionPath (items ! k) = Some p \<longrightarrow> p < HID_MAX_COLLECTIONS))"

definition pd_wf :: "(HID_ReportItem_t \<Rightarrow> bool) \<Rightarrow> HID_ReportInfo_t \<Rightarrow> bool" where
  "pd_wf filter_cb pd \<longleftrightarrow> items_wf filter_cb (ReportItems pd) (TotalReportItems pd) \<and>
     paths_wf (CollectionPaths pd) \<and> sizes_wf (ReportIDSizes pd) (LargestReportSizeBits pd) \<and>
     0 < unat (TotalDeviceReports pd) \<and> unat (TotalDeviceReports pd) \<le> HID_MAX_REPORT_IDS"

definition hid_wf :: "(HID_ReportItem_t \<Rightarrow> bool) \<Rightarrow> hid_vars \<Rightarrow> bool" where
  "hid_wf filter_cb st \<longleftrightarrow> pd_wf filter_cb (ParserData st) \<and>
     length (StateTable st) = HID_STATETABLE_STACK_DEPTH \<and> CurrStateTable st < HID_STATETABLE_STACK_DEPTH \<and>
     length (UsageList st) = HID_USAGE_STACK_DEPTH \<and> unat (UsageListSize st) \<le> HID_USAGE_STACK_DEPTH \<and>
     CurrReportIDInfo st < unat (TotalDeviceReports (ParserData st)) \<and>
     (\<forall>c. CurrCollectionPath st = Some c \<longrightarrow> c < HID_MAX_COLLECTIONS \<and>
        (c = 0 \<or> Parent (CollectionPaths (ParserData st) ! c) \<noteq> None))"

fun out_wf :: "(HID_ReportItem_t \<Rightarrow> bool) \<Rightarrow> hid_out \<Rightarrow> bool" where
  "out_wf filter_cb (Go st) = hid_wf filter_cb st"
| "out_wf filter_cb (Ret c pd) = (pd_wf filter_cb pd \<and> c \<noteq> HID_PARSE_Successful \<and>
     c \<noteq> HID_PARSE_NoUnfilteredReportItems)"

named_theorems hid_safe \<open>every step returns, in a well-formed state\<close>

lemma hid_push_safe [hid_safe]: "hid_wf cb st \<Longrightarrow> returns (out_wf cb) (hid_push st)"
  by (auto simp: hid_push_def hid_wf_def)

lemma hid_pop_safe [hid_safe]: "hid_wf cb st \<Longrightarrow> returns (out_wf cb) (hid_pop st)"
  by (auto simp: hid_pop_def hid_wf_def)

lemma hid_set_state_safe [hid_safe]: "hid_wf cb st \<Longrightarrow> returns (hid_wf cb) (hid_set_state f st)"
  by (auto simp: hid_set_state_def hid_wf_def)

lemma hid_attr_safe: "hid_wf cb st \<Longrightarrow> returns (\<lambda>x. out_wf cb (Go x)) (hid_set_state f st)"
  by (simp add: hid_set_state_safe)

lemma hid_end_collection_safe [hid_safe]:
  "hid_wf cb st \<Longrightarrow> returns (out_wf cb) (hid_end_collection st)"
  by (auto simp: hid_end_collection_def hid_wf_def pd_wf_def paths_wf_def split: option.splits)

lemma hid_end_item_wf: "hid_wf cb st \<Longrightarrow> hid_wf cb (hid_end_item item st)"
  by (simp add: hid_end_item_def hid_wf_def)

section \<open>Usages\<close>

lemma hid_usage_safe [hid_safe]:
  assumes "hid_wf cb st"
  shows "returns (out_wf cb) (hid_usage item dat st)"
proof (cases "unat (UsageListSize st) = 8")
  case False
  with assms have lt: "unat (UsageListSize st) < 8" by (auto simp: hid_wf_def)
  then have "unat (UsageListSize st + 1) \<le> 8"
    using unat_Suc_word [of "UsageListSize st" 8] by simp
  with assms lt show ?thesis
    by (auto simp: hid_usage_def hid_set_state_def hid_wf_def)
qed (use assms in \<open>simp add: hid_usage_def hid_wf_def\<close>)

lemma hid_usage_shift_safe:
  assumes "n \<le> length ul" "0 < i"
  shows "returns (\<lambda>ul'. length ul' = length ul) (hid_usage_shift ul i n)"
  using assms
proof (induction ul i n rule: hid_usage_shift.induct)
  case (1 ul i n)
  show ?case
  proof (cases "i < n")
    case True
    then have "returns (\<lambda>ul'. length ul' = length ul) (hid_usage_shift (ul[i - 1 := ul ! i]) (Suc i) n)"
      using "1.IH" [of "ul ! i" "ul[i - 1 := ul ! i]"] "1.prems" by simp
    with True "1.prems" show ?thesis by (simp add: hid_usage_shift.simps [of ul i n])
  next
    case False
    then show ?thesis by (simp add: hid_usage_shift.simps [of ul i n])
  qed
qed

lemma hid_next_usage_safe:
  assumes "hid_wf cb st"
  shows "returns (\<lambda>(u, st'). hid_wf cb st' \<and> ParserData st' = ParserData st \<and> StateTable st' = StateTable st \<and>
     CurrStateTable st' = CurrStateTable st \<and> CurrReportIDInfo st' = CurrReportIDInfo st \<and>
     CurrCollectionPath st' = CurrCollectionPath st) (hid_next_usage st)"
proof (cases "UsageListSize st = 0")
  case True
  with assms show ?thesis by (simp add: hid_next_usage_def hid_wf_def)
next
  case False
  have "0 < unat (UsageListSize st)" using False by (simp add: unat_gt_0)
  with assms False show ?thesis
    using hid_usage_shift_safe [of "unat (UsageListSize st)" "UsageList st" 1]
    by (auto simp: hid_next_usage_def hid_wf_def returns_def unat_pred_word)
qed

section \<open>Report IDs\<close>

lemma hid_find_id_safe:
  "i + n \<le> length infos \<Longrightarrow>
     returns (\<lambda>r. \<forall>k. r = Some k \<longrightarrow> k < i + n) (hid_find_id infos rid i n)"
  by (induction infos rid i n rule: hid_find_id.induct) auto

lemma sizes_wf_update:
  assumes "sizes_wf infos largest" "length (ReportSizeBits r) = 3" "\<forall>b\<in>set (ReportSizeBits r). b \<le> largest"
  shows "sizes_wf (infos[i := r]) largest"
  using assms by (auto simp: sizes_wf_def dest!: set_update_subset_insert [THEN subsetD])

lemma sizes_wf_nth:
  assumes "sizes_wf infos largest" "i < HID_MAX_REPORT_IDS"
  shows "length (ReportSizeBits (infos ! i)) = 3" "\<forall>b\<in>set (ReportSizeBits (infos ! i)). b \<le> largest"
  using assms nth_mem [of i infos] by (auto simp: sizes_wf_def)

lemma sizes_wf_zero: "sizes_wf infos largest \<Longrightarrow> sizes_wf (infos[i := zero_size_info]) largest"
  by (rule sizes_wf_update) (auto simp: zero_size_info_def)

text \<open>Storing the report ID into the size record in use.\<close>

lemma hid_store_id:
  assumes "hid_wf cb st" "pd_wf cb pd" "idx < unat (TotalDeviceReports pd)"
    and "CollectionPaths pd = CollectionPaths (ParserData st)"
  shows "returns (out_wf cb) (do {
       info \<leftarrow> arr_get (ReportIDSizes pd) idx;
       infos \<leftarrow> arr_set (ReportIDSizes pd) idx (info\<lparr>Size_ReportID := rid\<rparr>);
       Some (Go (st\<lparr>ParserData := pd\<lparr>UsingReportIDs := True, ReportIDSizes := infos\<rparr>, CurrReportIDInfo := idx\<rparr>)) })"
proof -
  have len: "idx < length (ReportIDSizes pd)" and idx: "idx < HID_MAX_REPORT_IDS"
    using assms(2,3) by (auto simp: pd_wf_def sizes_wf_def)
  have "sizes_wf ((ReportIDSizes pd)[idx := (ReportIDSizes pd ! idx)\<lparr>Size_ReportID := rid\<rparr>]) (LargestReportSizeBits pd)"
    using assms(2) idx sizes_wf_nth [of "ReportIDSizes pd" "LargestReportSizeBits pd" idx]
    by (intro sizes_wf_update) (auto simp: pd_wf_def)
  with assms len show ?thesis
    by (auto simp: hid_wf_def pd_wf_def)
qed

lemma hid_report_id_safe [hid_safe]:
  assumes wf: "hid_wf cb st"
  shows "returns (out_wf cb) (hid_report_id dat st)"
proof -
  let ?f = "\<lambda>t. t\<lparr>ST_ReportID := ucast dat\<rparr>"
  obtain st1 where st1: "hid_set_state ?f st = Some st1" "hid_wf cb st1"
    using hid_set_state_safe [OF wf, of ?f] by (auto simp: returns_def)
  let ?pd = "ParserData st1"
  have pd: "pd_wf cb ?pd" and cur: "CurrStateTable st1 < length (StateTable st1)"
    using st1(2) by (auto simp: hid_wf_def)
  let ?rid = "ST_ReportID (StateTable st1 ! CurrStateTable st1)"
  have "returns (\<lambda>r. \<forall>k. r = Some k \<longrightarrow> k < unat (TotalDeviceReports ?pd))
     (if UsingReportIDs ?pd
      then hid_find_id (ReportIDSizes ?pd) ?rid 0 (unat (TotalDeviceReports ?pd))
      else Some (Some (CurrReportIDInfo st1)))"
    using hid_find_id_safe [of 0 "unat (TotalDeviceReports ?pd)" "ReportIDSizes ?pd" ?rid] pd st1(2)
    by (auto simp: pd_wf_def sizes_wf_def hid_wf_def)
  then obtain found where found: "(if UsingReportIDs ?pd
        then hid_find_id (ReportIDSizes ?pd) ?rid 0 (unat (TotalDeviceReports ?pd))
        else Some (Some (CurrReportIDInfo st1))) = Some found"
      and idx: "\<forall>k. found = Some k \<longrightarrow> k < unat (TotalDeviceReports ?pd)"
    unfolding returns_def by blast
  show ?thesis
  proof (cases found)
    case (Some k)
    with hid_store_id [OF st1(2) pd, of k ?rid] idx found cur st1(1) show ?thesis
      by (simp add: hid_report_id_def Let_def)
  next
    case None
    show ?thesis
    proof (cases "TotalDeviceReports ?pd = of_nat HID_MAX_REPORT_IDS")
      case True
      with None found cur st1(1) pd show ?thesis by (simp add: hid_report_id_def Let_def)
    next
      case False
      let ?n = "unat (TotalDeviceReports ?pd)"
      have n: "?n < HID_MAX_REPORT_IDS"
        using False pd by (auto simp: pd_wf_def order_le_less word_unat_eq_iff)
      then have suc: "unat (TotalDeviceReports ?pd + 1) = Suc ?n"
        using unat_Suc_word [of "TotalDeviceReports ?pd" 10] by simp
      let ?pd' = "?pd\<lparr>ReportIDSizes := (ReportIDSizes ?pd)[?n := zero_size_info],
          TotalDeviceReports := TotalDeviceReports ?pd + 1\<rparr>"
      have pd': "pd_wf cb ?pd'"
        using pd n suc by (auto simp: pd_wf_def sizes_wf_zero)
      have len: "?n < length (ReportIDSizes ?pd)"
        using n pd by (simp add: pd_wf_def sizes_wf_def)
      show ?thesis
        using hid_store_id [OF st1(2) pd', of ?n ?rid] suc False None found cur st1(1) len
        by (simp add: hid_report_id_def Let_def)
    qed
  qed
qed

section \<open>Collections\<close>

lemma hid_find_path_safe:
  assumes "length ps = HID_MAX_COLLECTIONS" "0 < i" "i < HID_MAX_COLLECTIONS"
    and "\<forall>j<i. 0 < j \<longrightarrow> Parent (ps ! j) \<noteq> None"
  shows "returns (\<lambda>r. \<forall>k. r = Some k \<longrightarrow> 0 < k \<and> k < HID_MAX_COLLECTIONS \<and> Parent (ps ! k) = None \<and>
     (\<forall>j<k. 0 < j \<longrightarrow> Parent (ps ! j) \<noteq> None)) (hid_find_path ps i)"
  using assms
proof (induction ps i rule: hid_find_path.induct)
  case (1 ps i)
  show ?case
  proof (cases "Parent (ps ! i) = None \<or> i = HID_MAX_COLLECTIONS - 1")
    case True
    with "1.prems" show ?thesis by (subst hid_find_path.simps) auto
  next
    case False
    with "1.prems" have "returns (\<lambda>r. \<forall>k. r = Some k \<longrightarrow> 0 < k \<and> k < HID_MAX_COLLECTIONS \<and> Parent (ps ! k) = None \<and>
      (\<forall>j<k. 0 < j \<longrightarrow> Parent (ps ! j) \<noteq> None)) (hid_find_path ps (Suc i))"
      by (intro "1.IH") (auto simp: less_Suc_eq)
    with False "1.prems" show ?thesis by (subst hid_find_path.simps) auto
  qed
qed

lemma paths_wf_root:
  assumes "paths_wf ps" "Parent q = Parent (ps ! 0)"
  shows "paths_wf (ps[0 := q])"
proof -
  have "Parent (ps[0 := q] ! i) = Parent (ps ! i)" for i
    using assms by (cases "i = 0") (auto simp: paths_wf_def)
  with assms(1) show ?thesis by (simp add: paths_wf_def)
qed

lemma paths_wf_child:
  assumes wf: "paths_wf ps" and k: "0 < k" "k < HID_MAX_COLLECTIONS" "Parent (ps ! k) = None"
    and below: "\<forall>j<k. 0 < j \<longrightarrow> Parent (ps ! j) \<noteq> None"
    and c: "c < HID_MAX_COLLECTIONS" "c = 0 \<or> Parent (ps ! c) \<noteq> None" and q: "Parent q = Some c"
  shows "paths_wf (ps[k := q])"
proof -
  have len: "length ps = 10" using wf by (simp add: paths_wf_def)
  have "Parent (ps ! j) = None" if "k < j" "j < 10" for j
    using wf k(1,3) that unfolding paths_wf_def by blast
  with c k have "c < k" by (metis linorder_neqE_nat)
  moreover have nth: "Parent (ps[k := q] ! i) = (if i = k then Some c else Parent (ps ! i))" for i
    using q k len by (simp add: nth_list_update)
  ultimately show ?thesis
    using wf k below c len unfolding paths_wf_def nth by (auto split: if_splits)
qed

text \<open>Filling in entry \<open>i\<close> once its parent link has been settled.\<close>

lemma hid_fill_path:
  assumes wf: "hid_wf cb st" and i: "i < HID_MAX_COLLECTIONS"
    and upd: "\<And>q. Parent q = par \<Longrightarrow> paths_wf ((CollectionPaths (ParserData st))[i := q])"
    and par: "i = 0 \<or> par \<noteq> None" and path: "Parent path = par"
  shows "returns (out_wf cb) (do {
         cur \<leftarrow> arr_get (StateTable st) (CurrStateTable st);
         let path = path\<lparr>Coll_Type := ty, Coll_Usage := (Coll_Usage path)\<lparr>Page := Page (Attr_Usage (ST_Attributes cur))\<rparr>\<rparr>;
         (u, st') \<leftarrow> hid_next_usage st;
         let path = (case u of None \<Rightarrow> path
                     | Some v \<Rightarrow> path\<lparr>Coll_Usage := (Coll_Usage path)\<lparr>Usage_ID := v\<rparr>\<rparr>);
         paths \<leftarrow> arr_set (CollectionPaths (ParserData st)) i path;
         Some (Go (st'\<lparr>ParserData := (ParserData st)\<lparr>CollectionPaths := paths\<rparr>, CurrCollectionPath := Some i\<rparr>)) })"
proof -
  have cur: "CurrStateTable st < length (StateTable st)"
    and len: "i < length (CollectionPaths (ParserData st))"
    using wf i by (auto simp: hid_wf_def pd_wf_def paths_wf_def)
  have fin: "out_wf cb (Go (st'\<lparr>ParserData := (ParserData st)\<lparr>CollectionPaths := (CollectionPaths (ParserData st))[i := q]\<rparr>,
      CurrCollectionPath := Some i\<rparr>))"
    if "hid_wf cb st'" "ParserData st' = ParserData st" "Parent q = par" for st' q
    using that wf upd [OF that(3)] par i len by (auto simp: hid_wf_def pd_wf_def)
  obtain u st' where nx: "hid_next_usage st = Some (u, st')" "hid_wf cb st'" "ParserData st' = ParserData st"
    using hid_next_usage_safe [OF wf] by (auto simp: returns_def)
  from fin [OF nx(2,3)] cur len path show ?thesis
    by (cases u) (simp_all add: nx Let_def)
qed

lemma hid_collection_safe [hid_safe]:
  assumes wf: "hid_wf cb st"
  shows "returns (out_wf cb) (hid_collection dat st)"
proof -
  let ?ps = "CollectionPaths (ParserData st)"
  have ps: "paths_wf ?ps" "length ?ps = HID_MAX_COLLECTIONS"
    using wf by (auto simp: hid_wf_def pd_wf_def paths_wf_def)
  show ?thesis
  proof (cases "CurrCollectionPath st")
    case None
    have "\<And>q. Parent q = Parent (?ps ! 0) \<Longrightarrow> paths_wf (?ps[0 := q])"
      by (rule paths_wf_root [OF ps(1)])
    from hid_fill_path [where path = "?ps ! 0" and par = "Parent (?ps ! 0)" and ty = "ucast dat", OF wf _ this] None ps(2) show ?thesis
      by (simp add: hid_collection_def Let_def)
  next
    case (Some c)
    then have c: "c < HID_MAX_COLLECTIONS" "c = 0 \<or> Parent (?ps ! c) \<noteq> None"
      using wf by (auto simp: hid_wf_def)
    obtain found where found: "hid_find_path ?ps 1 = Some found"
      and k: "\<forall>k. found = Some k \<longrightarrow> 0 < k \<and> k < HID_MAX_COLLECTIONS \<and> Parent (?ps ! k) = None \<and>
        (\<forall>j<k. 0 < j \<longrightarrow> Parent (?ps ! j) \<noteq> None)"
      using hid_find_path_safe [OF ps(2), of 1] by (auto simp: returns_def)
    show ?thesis
    proof (cases found)
      case None
      with found Some wf show ?thesis by (simp add: hid_collection_def hid_wf_def)
    next
      fix k assume f: "found = Some k"
      have "\<And>q. Parent q = Some c \<Longrightarrow> paths_wf (?ps[k := q])"
        using paths_wf_child [OF ps(1) _ _ _ _ c] k f by blast
      from hid_fill_path [where path = "(?ps ! k)\<lparr>Parent := Some c\<rparr>" and par = "Some c" and ty = "ucast dat", OF wf _ this] k f Some found ps(2) show ?thesis
        by (simp add: hid_collection_def Let_def cong: option.case_cong)
    qed
  qed
qed

section \<open>Report items\<close>

lemma item_type_index_less [simp]: "item_type_index t < 3"
  by (cases t) auto

lemma sizes_wf_grow:
  assumes "sizes_wf infos largest" "i < HID_MAX_REPORT_IDS" "t < 3"
  shows "sizes_wf (infos[i := (infos ! i)\<lparr>ReportSizeBits := (ReportSizeBits (infos ! i))[t := sz]\<rparr>])
    (max largest sz)"
proof (rule sizes_wf_update)
  have le: "largest \<le> (max largest sz)" by auto
  show "sizes_wf infos (max largest sz)"
    using assms(1) le unfolding sizes_wf_def by (meson order_trans)
  show "length (ReportSizeBits ((infos ! i)\<lparr>ReportSizeBits := (ReportSizeBits (infos ! i))[t := sz]\<rparr>)) = 3"
    using sizes_wf_nth(1) [OF assms(1,2)] by simp
  show "\<forall>b\<in>set (ReportSizeBits ((infos ! i)\<lparr>ReportSizeBits := (ReportSizeBits (infos ! i))[t := sz]\<rparr>)).
      b \<le> (max largest sz)"
    using sizes_wf_nth(2) [OF assms(1,2)] le
    by (auto dest!: set_update_subset_insert [THEN subsetD] intro: order_trans)
qed

lemma items_wf_skip: "items_wf cb items n \<Longrightarrow> items_wf cb (items[unat n := x]) n"
  by (auto simp: items_wf_def)

lemma items_wf_keep:
  assumes "items_wf cb items n" "unat n \<noteq> HID_MAX_REPORTITEMS" "cb x" "\<not> bit (ItemFlags x) 0"
    and "\<forall>p. CollectionPath x = Some p \<longrightarrow> p < HID_MAX_COLLECTIONS"
  shows "items_wf cb (items[unat n := x]) (n + 1)"
proof -
  have lt: "unat n < HID_MAX_REPORTITEMS" using assms by (auto simp: items_wf_def)
  then have "unat (n + 1) = Suc (unat n)" using unat_Suc_word [of n 20] by simp
  with assms lt show ?thesis by (auto simp: items_wf_def less_Suc_eq nth_list_update)
qed

lemma hid_new_item_simps [simp]:
  "ItemFlags (hid_new_item junk item dat cur path u off) = ucast dat"
  "CollectionPath (hid_new_item junk item dat cur path u off) = path"
  by (simp_all add: hid_new_item_def)

lemma hid_io_item_safe:
  assumes wf: "hid_wf cb st"
  shows "returns (out_wf cb) (hid_io_item cb junk item dat st)"
proof -
  obtain u st' where nx: "hid_next_usage st = Some (u, st')" "hid_wf cb st'"
    "ParserData st' = ParserData st" "CurrReportIDInfo st' = CurrReportIDInfo st"
    "CurrCollectionPath st' = CurrCollectionPath st"
    using hid_next_usage_safe [OF wf] by (auto simp: returns_def)
  let ?pd = "ParserData st" and ?i = "CurrReportIDInfo st" and ?t = "item_type_index (hid_item_type item)"
  let ?cur = "StateTable st ! CurrStateTable st" and ?info = "ReportIDSizes (ParserData st) ! CurrReportIDInfo st"
  let ?off = "ReportSizeBits ?info ! ?t"
  let ?total = "?off + ucast (BitSize (ST_Attributes ?cur))"
  let ?new = "hid_new_item junk item dat ?cur (CurrCollectionPath st) u ?off"
  let ?pd' = "?pd\<lparr>ReportIDSizes := (ReportIDSizes ?pd)[?i := ?info\<lparr>ReportSizeBits := (ReportSizeBits ?info)[?t := ?total]\<rparr>],
    LargestReportSizeBits := max (LargestReportSizeBits ?pd) ?total\<rparr>"
  have cur: "CurrStateTable st < length (StateTable st)" and pd: "pd_wf cb ?pd" and i: "?i < HID_MAX_REPORT_IDS"
    and coll: "\<forall>p. CurrCollectionPath st = Some p \<longrightarrow> p < HID_MAX_COLLECTIONS"
    using wf by (auto simp: hid_wf_def pd_wf_def)
  have len: "?i < length (ReportIDSizes ?pd)" "?t < length (ReportSizeBits ?info)"
    using pd i sizes_wf_nth(1) [of "ReportIDSizes ?pd" "LargestReportSizeBits ?pd" ?i]
    by (auto simp: pd_wf_def sizes_wf_def)
  have pd': "pd_wf cb ?pd'"
    using pd sizes_wf_grow [OF _ i, of "ReportIDSizes ?pd" "LargestReportSizeBits ?pd" ?t ?total]
    by (simp add: pd_wf_def)
  show ?thesis
  proof (cases "unat (TotalReportItems ?pd) = HID_MAX_REPORTITEMS")
    case True
    with pd' show ?thesis
      by (simp add: hid_io_item_def nx cur len Let_def)
  next
    case False
    have tot: "unat (TotalReportItems ?pd) < length (ReportItems ?pd)"
      using pd False by (auto simp: pd_wf_def items_wf_def)
    have skip: "pd_wf cb (?pd'\<lparr>ReportItems := (ReportItems ?pd)[unat (TotalReportItems ?pd) := ?new]\<rparr>)"
      using pd' by (simp add: pd_wf_def items_wf_skip)
    have keep: "pd_wf cb (?pd'\<lparr>ReportItems := (ReportItems ?pd)[unat (TotalReportItems ?pd) := ?new],
        TotalReportItems := TotalReportItems ?pd + 1\<rparr>)" if "dat AND HID_IOF_CONSTANT = 0" "cb ?new"
    proof -
      have "\<not> bit dat 0"
        using that(1) and_bmask_eq_0 [of 0 dat] by (simp add: bmask_def)
      then show ?thesis
        using pd' False that(2) coll by (auto simp: pd_wf_def bit_simps intro!: items_wf_keep)
    qed
    from skip keep nx(2,3) show ?thesis
      by (simp add: hid_io_item_def nx cur len tot False Let_def hid_wf_def)
  qed
qed

lemma hid_io_loop_safe: "hid_wf cb st \<Longrightarrow> returns (out_wf cb) (hid_io_loop cb junk item dat n st)"
proof (induction n arbitrary: st)
  case (Suc n)
  show ?case
    unfolding hid_io_loop.simps
    by (rule returns_bind [OF hid_io_item_safe [OF Suc.prems]])
       (auto split: hid_out.splits intro: Suc.IH)
qed simp

lemma hid_io_safe [hid_safe]: "hid_wf cb st \<Longrightarrow> returns (out_wf cb) (hid_io cb junk item dat st)"
  by (auto simp: hid_io_def hid_wf_def intro!: hid_io_loop_safe)

lemma hid_switch_safe: "hid_wf cb st \<Longrightarrow> returns (out_wf cb) (hid_switch cb junk item dat st)"
  unfolding hid_switch_def Let_def
  by (auto intro!: hid_safe) (auto simp: hid_wf_def intro!: hid_attr_safe)

section \<open>Complete descriptors\<close>

text \<open>A descriptor is complete when its last item has all its data bytes.\<close>

definition data_len :: "u8 \<Rightarrow> nat" where
  "data_len item = (if item AND HID_RI_DATA_SIZE_MASK = 3 then 4 else unat (item AND HID_RI_DATA_SIZE_MASK))"

function complete_items :: "u8 list \<Rightarrow> bool" where
  "complete_items [] = True"
| "complete_items (item # rest) = (data_len item \<le> length rest \<and> complete_items (drop (data_len item) rest))"
  by pat_completeness auto
termination by (relation "measure length") auto

lemma size_mask_cases:
  fixes item :: u8
  shows "item AND 3 \<in> {0, 1, 2, 3}"
proof -
  have "unat (item AND 3) \<le> unat (3 :: u8)"
    by (rule word_and_le1 [THEN word_le_nat_alt [THEN iffD1]])
  then have "unat (item AND 3) \<in> {0, 1, 2, 3}" by auto
  then show ?thesis by (auto simp: word_unat_eq_iff)
qed

lemma hid_item_data_complete:
  assumes "pos \<le> length D" "length D < 2 ^ 16" "data_len item \<le> length D - pos"
  shows "\<exists>dat. hid_item_data D pos (of_nat (length D - pos)) item =
    Some (dat, pos + data_len item, of_nat (length D - (pos + data_len item)))"
  using size_mask_cases [of item] assms
  by (auto simp: hid_item_data_def data_len_def of_nat_diff)

lemma hid_item_data_short:
  assumes "data_len item > length D - pos" "pos \<le> length D"
  shows "hid_item_data D pos sz item = None"
  using size_mask_cases [of item] assms
  by (auto simp: hid_item_data_def data_len_def arr_get_def bind_eq_None_conv)

lemma hid_loop_safe:
  assumes "hid_wf cb st" "complete_items (drop pos D)" "pos \<le> length D" "length D < 2 ^ 16"
  shows "returns (out_wf cb) (hid_loop cb junk D pos (of_nat (length D - pos)) st)"
  using assms
proof (induction "length D - pos" arbitrary: pos st rule: less_induct)
  case less
  show ?case
  proof (cases "pos = length D")
    case True
    with less.prems show ?thesis by (simp add: hid_loop.simps)
  next
    case False
    let ?item = "D ! pos"
    have pos: "pos < length D" using False less.prems by simp
    have nz: "(of_nat (length D - pos) :: u16) \<noteq> 0"
      by (rule of_nat_neq_0_word) (use pos less.prems in auto)
    have dr: "drop pos D = ?item # drop (Suc pos) D" using pos by (simp add: Cons_nth_drop_Suc)
    with less.prems have c: "data_len ?item \<le> length D - Suc pos"
        "complete_items (drop (Suc pos + data_len ?item) D)"
      by (simp_all add: add.commute)
    have sz: "(of_nat (length D - pos) :: u16) - 1 = of_nat (length D - Suc pos)"
      using pos by (simp add: of_nat_diff)
    obtain dat where dat: "hid_item_data D (Suc pos) (of_nat (length D - Suc pos)) ?item =
        Some (dat, Suc pos + data_len ?item, of_nat (length D - (Suc pos + data_len ?item)))"
      using hid_item_data_complete [of "Suc pos" D ?item] pos less.prems c by auto
    let ?next = "\<lambda>st. hid_loop cb junk D (Suc (pos + data_len ?item)) (of_nat (length D - Suc (pos + data_len ?item))) st"
    have IH: "returns (out_wf cb) (?next st')" if "hid_wf cb st'" for st'
    proof (rule less.hyps [OF _ that])
      show "length D - Suc (pos + data_len ?item) < length D - pos" "Suc (pos + data_len ?item) \<le> length D"
        using pos c(1) by linarith+
    qed (use c(2) less.prems in auto)
    have step: "returns (out_wf cb) (case r of Ret c pd \<Rightarrow> Some (Ret c pd) | Go st' \<Rightarrow> ?next (hid_end_item ?item st'))"
      if "out_wf cb r" for r
      using that IH [OF hid_end_item_wf] by (cases r) (simp_all del: of_nat_diff)
    have "returns (out_wf cb) (hid_switch cb (junk pos) ?item dat st \<bind> (\<lambda>r. case r of
        Ret c pd \<Rightarrow> Some (Ret c pd) | Go st' \<Rightarrow> ?next (hid_end_item ?item st')))"
      by (rule returns_bind [OF hid_switch_safe [OF less.prems(1)] step])
    with nz pos show ?thesis
      by (subst hid_loop.simps) (simp add: sz dat del: of_nat_diff)
  qed
qed

text \<open>The invariants hold for whatever the parser returns, on complete descriptors or not.\<close>

lemma hid_loop_wf:
  "hid_wf cb st \<Longrightarrow> always (out_wf cb) (hid_loop cb junk D pos sz st)"
proof (induction cb junk D pos sz st rule: hid_loop.induct)
  case (1 cb junk D pos sz st)
  show ?case
  proof (cases "sz = 0")
    case True
    with "1.prems" show ?thesis by (simp add: hid_loop.simps)
  next
    case False
    show ?thesis
      unfolding always_def
    proof (intro allI impI)
      fix r
      assume "hid_loop cb junk D pos sz st = Some r"
      then obtain dat pos' sz' q where st: "arr_get D pos = Some (D ! pos)"
          "hid_item_data D (Suc pos) (sz - 1) (D ! pos) = Some (dat, pos', sz')"
          "hid_switch cb (junk pos) (D ! pos) dat st = Some q"
          "(case q of Ret c pd \<Rightarrow> Some (Ret c pd) | Go st' \<Rightarrow> hid_loop cb junk D pos' sz' (hid_end_item (D ! pos) st')) = Some r"
        using False by (subst (asm) hid_loop.simps) (auto simp: bind_eq_Some_conv)
      have q: "out_wf cb q"
        by (rule alwaysD [OF returns_always [OF hid_switch_safe [OF "1.prems"]] st(3)])
      show "out_wf cb r"
      proof (cases q)
        case (Go st')
        with q have "hid_wf cb (hid_end_item (D ! pos) st')" by (simp add: hid_end_item_wf)
        from "1.IH" [OF False st(1,2) refl refl st(3) Go this] st(4) Go show ?thesis
          by (simp add: always_def)
      qed (use st(4) q in auto)
    qed
  qed
qed

lemma hid_loop_truncated:
  assumes "hid_wf cb st" "\<not> complete_items (drop pos D)" "pos \<le> length D" "length D < 2 ^ 16"
  shows "always (\<lambda>r. \<exists>c pd. r = Ret c pd) (hid_loop cb junk D pos (of_nat (length D - pos)) st)"
  using assms
proof (induction "length D - pos" arbitrary: pos st rule: less_induct)
  case less
  have pos: "pos < length D" using less.prems by (cases "pos = length D") auto
  let ?item = "D ! pos"
  have dr: "drop pos D = ?item # drop (Suc pos) D" using pos by (simp add: Cons_nth_drop_Suc)
  have nz: "(of_nat (length D - pos) :: u16) \<noteq> 0"
    by (rule of_nat_neq_0_word) (use pos less.prems in auto)
  have sz: "(of_nat (length D - pos) :: u16) - 1 = of_nat (length D - Suc pos)"
    using pos by (simp add: of_nat_diff)
  show ?case
  proof (cases "data_len ?item \<le> length D - Suc pos")
    case False
    with pos have "hid_item_data D (Suc pos) (of_nat (length D - Suc pos)) ?item = None"
      by (intro hid_item_data_short) auto
    with pos nz show ?thesis by (subst hid_loop.simps) (simp add: sz del: of_nat_diff)
  next
    case True
    let ?next = "\<lambda>st. hid_loop cb junk D (Suc (pos + data_len ?item)) (of_nat (length D - Suc (pos + data_len ?item))) st"
    have rest: "\<not> complete_items (drop (Suc (pos + data_len ?item)) D)"
      using less.prems(2) True dr by (simp add: add.commute)
    have IH: "always (\<lambda>r. \<exists>c pd. r = Ret c pd) (?next st')" if "hid_wf cb st'" for st'
    proof (rule less.hyps [OF _ that rest])
      show "length D - Suc (pos + data_len ?item) < length D - pos" "Suc (pos + data_len ?item) \<le> length D"
        using pos True by linarith+
    qed (rule less.prems)
    obtain dat where dat: "hid_item_data D (Suc pos) (of_nat (length D - Suc pos)) ?item =
        Some (dat, Suc (pos + data_len ?item), of_nat (length D - Suc (pos + data_len ?item)))"
      using hid_item_data_complete [of "Suc pos" D ?item] pos less.prems True by auto
    have "always (\<lambda>r. \<exists>c pd. r = Ret c pd) (hid_switch cb (junk pos) ?item dat st \<bind> (\<lambda>r. case r of
        Ret c pd \<Rightarrow> Some (Ret c pd) | Go st' \<Rightarrow> ?next (hid_end_item ?item st')))"
    proof (rule always_bind [OF returns_always [OF hid_switch_safe [OF less.prems(1)]]])
      fix r assume "out_wf cb r"
      then show "always (\<lambda>r. \<exists>c pd. r = Ret c pd) (case r of
          Ret c pd \<Rightarrow> Some (Ret c pd) | Go st' \<Rightarrow> ?next (hid_end_item ?item st'))"
        using IH [OF hid_end_item_wf] by (cases r) (simp_all del: of_nat_diff)
    qed
    with nz pos show ?thesis
      by (subst hid_loop.simps) (simp add: sz dat del: of_nat_diff)
  qed
qed

lemma hid_init_wf:
  "length stack_usages = HID_USAGE_STACK_DEPTH \<Longrightarrow> length stack_table = HID_STATETABLE_STACK_DEPTH - 1 \<Longrightarrow>
     hid_wf cb (hid_init_vars stack_usages stack_table)"
  by (auto simp: hid_wf_def hid_init_vars_def pd_wf_def zero_info_def items_wf_def paths_wf_def sizes_wf_def
      zero_size_info_def zero_path_def)

section \<open>Properties\<close>

text \<open>
  C3. Memory safety and termination: on every complete report descriptor (a byte buffer whose last
  item has all of its data), whatever the stack held before, \<open>USB_ProcessHIDReport\<close> returns a result
  code without one access outside the report buffer or outside its tables.
\<close>

theorem USB_ProcessHIDReport_memory_safe:
  assumes "complete_items D" "length D < 2 ^ 16"
    and "length stack_usages = HID_USAGE_STACK_DEPTH" "length stack_table = HID_STATETABLE_STACK_DEPTH - 1"
  shows "\<exists>c pd. USB_ProcessHIDReport filter_cb junk stack_usages stack_table D (of_nat (length D)) = Some (c, pd)"
proof -
  have "returns (out_wf filter_cb) (hid_loop filter_cb junk D 0 (of_nat (length D)) (hid_init_vars stack_usages stack_table))"
    using hid_loop_safe [OF hid_init_wf [OF assms(3,4)], of 0 D] assms(1,2) by simp
  then show ?thesis
    by (auto simp: USB_ProcessHIDReport_def returns_def split: hid_out.splits)
qed

lemma USB_ProcessHIDReport_wf:
  assumes "length stack_usages = HID_USAGE_STACK_DEPTH" "length stack_table = HID_STATETABLE_STACK_DEPTH - 1"
    and "USB_ProcessHIDReport filter_cb junk stack_usages stack_table D sz = Some (c, pd)"
  shows "pd_wf filter_cb pd"
proof -
  obtain r where r: "hid_loop filter_cb junk D 0 sz (hid_init_vars stack_usages stack_table) = Some r"
      and k: "(case r of Ret c pd \<Rightarrow> Some (c, pd)
        | Go st \<Rightarrow> (if TotalReportItems (ParserData st) = 0 then Some (HID_PARSE_NoUnfilteredReportItems, ParserData st)
                    else Some (HID_PARSE_Successful, ParserData st))) = Some (c, pd)"
    using assms(3) by (auto simp: USB_ProcessHIDReport_def bind_eq_Some_conv)
  have "out_wf filter_cb r"
    by (rule alwaysD [OF hid_loop_wf [OF hid_init_wf [OF assms(1,2)]] r])
  with k show ?thesis
    by (cases r) (auto simp: hid_wf_def split: if_splits)
qed

text \<open>A short mouse report descriptor, used to instantiate the properties.\<close>

definition sample_report :: "u8 list" where
  "sample_report = [0x05, 0x01, 0x09, 0x02, 0xA1, 0x01, 0x09, 0x30, 0x75, 0x08, 0x95, 0x01, 0x81, 0x02, 0xC0]"

theorem USB_ProcessHIDReport_memory_safe_witness:
  "complete_items sample_report \<and> (\<exists>c pd. USB_ProcessHIDReport (\<lambda>_. True) (\<lambda>_ _. (0, 0)) (replicate 8 0)
     [zero_state] sample_report (of_nat (length sample_report)) = Some (c, pd))"
proof -
  have c: "complete_items sample_report"
    by (simp add: sample_report_def data_len_def)
  moreover have "length sample_report < 2 ^ 16" by (simp add: sample_report_def)
  ultimately show ?thesis
    using USB_ProcessHIDReport_memory_safe [of sample_report "replicate 8 0" "[zero_state]"] by simp
qed

lemma sample_parse:
  "map_option (\<lambda>(c, pd). (c, TotalReportItems pd, LargestReportSizeBits pd, CollectionPaths pd ! 0, ReportItems pd ! 0))
     (USB_ProcessHIDReport (\<lambda>_. True) (\<lambda>_ _. (0, 0)) (replicate 8 0)
       [zero_state] sample_report (of_nat (length sample_report))) =
   Some (HID_PARSE_Successful, 1, 8, \<lparr>Coll_Type = 1, Coll_Usage = \<lparr>Page = 1, Usage_ID = 2\<rparr>, Parent = None\<rparr>,
     zero_item\<lparr>ItemFlags := 2, CollectionPath := Some 0,
       Attributes := zero_attributes\<lparr>BitSize := 8, Attr_Usage := \<lparr>Page = 1, Usage_ID = 0x30\<rparr>\<rparr>\<rparr>)"
  by code_simp

text \<open>
  C8. Whatever \<open>USB_ProcessHIDReport\<close> returns, success or error: at most \<open>HID_MAX_REPORTITEMS\<close> items are
  kept and each of them is a data item (not padding) that the application's filter accepted.
\<close>

theorem USB_ProcessHIDReport_keeps_accepted_items:
  assumes "length stack_usages = HID_USAGE_STACK_DEPTH" "length stack_table = HID_STATETABLE_STACK_DEPTH - 1"
    and "USB_ProcessHIDReport filter_cb junk stack_usages stack_table D sz = Some (c, pd)"
  shows "unat (TotalReportItems pd) \<le> HID_MAX_REPORTITEMS \<and> length (ReportItems pd) = HID_MAX_REPORTITEMS \<and>
    (\<forall>k<unat (TotalReportItems pd). filter_cb (ReportItems pd ! k) \<and> \<not> bit (ItemFlags (ReportItems pd ! k)) 0)"
  using USB_ProcessHIDReport_wf [OF assms] by (simp add: pd_wf_def items_wf_def)

theorem USB_ProcessHIDReport_keeps_accepted_items_witness:
  "\<exists>pd. USB_ProcessHIDReport (\<lambda>_. True) (\<lambda>_ _. (0, 0)) (replicate 8 0) [zero_state] sample_report
      (of_nat (length sample_report)) = Some (HID_PARSE_Successful, pd) \<and>
     TotalReportItems pd = 1 \<and> \<not> bit (ItemFlags (ReportItems pd ! 0)) 0"
proof -
  obtain pd where pd: "USB_ProcessHIDReport (\<lambda>_. True) (\<lambda>_ _. (0, 0)) (replicate 8 0) [zero_state] sample_report
      (of_nat (length sample_report)) = Some (HID_PARSE_Successful, pd)" "TotalReportItems pd = 1"
    using sample_parse by auto
  with USB_ProcessHIDReport_keeps_accepted_items [OF _ _ pd(1)] show ?thesis by simp
qed

text \<open>
  C9. Whatever \<open>USB_ProcessHIDReport\<close> returns, \<open>LargestReportSizeBits\<close> bounds the size of every report of
  every type in every size record, so a buffer of that many bits holds any report of the device.
\<close>

theorem USB_ProcessHIDReport_largest_size:
  assumes "length stack_usages = HID_USAGE_STACK_DEPTH" "length stack_table = HID_STATETABLE_STACK_DEPTH - 1"
    and "USB_ProcessHIDReport filter_cb junk stack_usages stack_table D sz = Some (c, pd)"
    and "i < HID_MAX_REPORT_IDS"
  shows "ReportSizeBits (ReportIDSizes pd ! i) ! item_type_index t \<le> LargestReportSizeBits pd"
  using USB_ProcessHIDReport_wf [OF assms(1-3)] sizes_wf_nth [of "ReportIDSizes pd" "LargestReportSizeBits pd" i]
    assms(4) by (auto simp: pd_wf_def)

theorem USB_ProcessHIDReport_largest_size_witness:
  "\<exists>pd. USB_ProcessHIDReport (\<lambda>_. True) (\<lambda>_ _. (0, 0)) (replicate 8 0) [zero_state] sample_report
      (of_nat (length sample_report)) = Some (HID_PARSE_Successful, pd) \<and> LargestReportSizeBits pd = 8 \<and>
      ReportSizeBits (ReportIDSizes pd ! 0) ! 0 \<le> 8"
proof -
  obtain pd where pd: "USB_ProcessHIDReport (\<lambda>_. True) (\<lambda>_ _. (0, 0)) (replicate 8 0) [zero_state] sample_report
      (of_nat (length sample_report)) = Some (HID_PARSE_Successful, pd)" "LargestReportSizeBits pd = 8"
    using sample_parse by auto
  with USB_ProcessHIDReport_largest_size [OF _ _ pd(1), of 0 HID_REPORT_ITEM_In] show ?thesis by simp
qed

text \<open>
  C10. The collection table is a forest: the parent link of an entry always points to an entry with a
  smaller index, so following parent links ends.
\<close>

theorem USB_ProcessHIDReport_collections_forest:
  assumes "length stack_usages = HID_USAGE_STACK_DEPTH" "length stack_table = HID_STATETABLE_STACK_DEPTH - 1"
    and "USB_ProcessHIDReport filter_cb junk stack_usages stack_table D sz = Some (c, pd)"
    and "i < HID_MAX_COLLECTIONS" "Parent (CollectionPaths pd ! i) = Some p"
  shows "p < i"
  using USB_ProcessHIDReport_wf [OF assms(1-3)] assms(4,5) by (auto simp: pd_wf_def paths_wf_def)

text \<open>Two nested collections, to instantiate it.\<close>

definition nested_report :: "u8 list" where
  "nested_report = [0xA1, 0x01, 0xA1, 0x00, 0x75, 0x08, 0x95, 0x01, 0x81, 0x02, 0xC0, 0xC0]"

theorem USB_ProcessHIDReport_collections_forest_witness:
  "\<exists>pd. USB_ProcessHIDReport (\<lambda>_. True) (\<lambda>_ _. (0, 0)) (replicate 8 0) [zero_state] nested_report
      (of_nat (length nested_report)) = Some (HID_PARSE_Successful, pd) \<and>
     Parent (CollectionPaths pd ! 1) = Some 0 \<and> (0 :: nat) < 1"
proof -
  have "map_option (\<lambda>(c, pd). (c, Parent (CollectionPaths pd ! 1)))
      (USB_ProcessHIDReport (\<lambda>_. True) (\<lambda>_ _. (0, 0)) (replicate 8 0) [zero_state] nested_report
      (of_nat (length nested_report))) = Some (HID_PARSE_Successful, Some 0)" by code_simp
  then obtain pd where pd: "USB_ProcessHIDReport (\<lambda>_. True) (\<lambda>_ _. (0, 0)) (replicate 8 0) [zero_state] nested_report
      (of_nat (length nested_report)) = Some (HID_PARSE_Successful, pd)" "Parent (CollectionPaths pd ! 1) = Some 0"
    by auto
  with USB_ProcessHIDReport_collections_forest [OF _ _ pd(1) _ pd(2)] show ?thesis by simp
qed



end
