(* ===== verification/HID_Report_Items.thy ===== *)
theory HID_Report_Items
  imports HID_Parser_Safety
begin

text \<open>
  Reading and writing the items of an actual HID report with the parsed descriptor
  (\<^verbatim>\<open>HIDParser.c\<close>, \<open>USB_GetHIDReportItemInfo\<close>, \<open>USB_SetHIDReportItemInfo\<close> and \<open>USB_GetHIDReportSize\<close>),
  and how the parser lays the items of a report out.
\<close>

unbundle bit_operations_syntax

section \<open>The operations\<close>

fun hid_get_bits :: "u8 list \<Rightarrow> nat \<Rightarrow> u16 \<Rightarrow> u32 \<Rightarrow> u32 \<Rightarrow> u32 option" where
  "hid_get_bits ReportData 0 CurrentBit BitMask val = Some val"
| "hid_get_bits ReportData (Suc DataBitsRem) CurrentBit BitMask val = do {
     b \<leftarrow> arr_get ReportData (unat (CurrentBit div 8));
     hid_get_bits ReportData DataBitsRem (CurrentBit + 1) (push_bit 1 BitMask)
       (if b AND bmask (unat (CurrentBit mod 8)) \<noteq> 0 then val OR BitMask else val) }"

definition USB_GetHIDReportItemInfo :: "u8 list \<Rightarrow> HID_ReportItem_t option \<Rightarrow> (bool \<times> HID_ReportItem_t option) option" where
  "USB_GetHIDReportItemInfo ReportData ReportItem = (case ReportItem of
       None \<Rightarrow> Some (False, None)
     | Some item \<Rightarrow> do {
         hit \<leftarrow> (if Item_ReportID item \<noteq> 0
                then do { b \<leftarrow> arr_get ReportData 0; Some (Item_ReportID item = b) }
                else Some True);
         if \<not> hit then Some (False, Some item)
         else do {
           let Data = (if Item_ReportID item \<noteq> 0 then drop 1 ReportData else ReportData);
           v \<leftarrow> hid_get_bits Data (unat (BitSize (Attributes item))) (BitOffset item) (bmask 0) 0;
           Some (True, Some (item\<lparr>PreviousValue := Value item, Value := v\<rparr>)) } })"

fun hid_set_bits :: "u8 list \<Rightarrow> nat \<Rightarrow> u16 \<Rightarrow> u32 \<Rightarrow> u32 \<Rightarrow> u8 list option" where
  "hid_set_bits ReportData 0 CurrentBit BitMask val = Some ReportData"
| "hid_set_bits ReportData (Suc DataBitsRem) CurrentBit BitMask val = do {
     ReportData \<leftarrow> (if val AND BitMask \<noteq> 0 then do {
         b \<leftarrow> arr_get ReportData (unat (CurrentBit div 8));
         arr_set ReportData (unat (CurrentBit div 8)) (b OR bmask (unat (CurrentBit mod 8))) }
       else Some ReportData);
     hid_set_bits ReportData DataBitsRem (CurrentBit + 1) (push_bit 1 BitMask) val }"

definition USB_SetHIDReportItemInfo :: "u8 list \<Rightarrow> HID_ReportItem_t option \<Rightarrow>
    (u8 list \<times> HID_ReportItem_t option) option" where
  "USB_SetHIDReportItemInfo ReportData ReportItem = (case ReportItem of
       None \<Rightarrow> Some (ReportData, None)
     | Some item \<Rightarrow>
         (if Item_ReportID item \<noteq> 0 then do {
            ReportData \<leftarrow> arr_set ReportData 0 (Item_ReportID item);
            Data \<leftarrow> hid_set_bits (drop 1 ReportData) (unat (BitSize (Attributes item))) (BitOffset item) (bmask 0) (Value item);
            Some (take 1 ReportData @ Data, Some (item\<lparr>PreviousValue := Value item\<rparr>)) }
          else do {
            Data \<leftarrow> hid_set_bits ReportData (unat (BitSize (Attributes item))) (BitOffset item) (bmask 0) (Value item);
            Some (Data, Some (item\<lparr>PreviousValue := Value item\<rparr>)) }))"

fun hid_report_size :: "HID_ReportSizeInfo_t list \<Rightarrow> u8 \<Rightarrow> HID_ReportItemTypes_t \<Rightarrow> nat \<Rightarrow> nat \<Rightarrow> u16 option" where
  "hid_report_size infos ReportID ReportType i 0 = Some 0"
| "hid_report_size infos ReportID ReportType i (Suc n) = do {
     info \<leftarrow> arr_get infos i;
     bits \<leftarrow> arr_get (ReportSizeBits info) (item_type_index ReportType);
     if Size_ReportID info = ReportID
     then Some (bits div 8 + (if bits mod 8 \<noteq> 0 then 1 else 0))
     else hid_report_size infos ReportID ReportType (Suc i) n }"

definition USB_GetHIDReportSize :: "HID_ReportInfo_t \<Rightarrow> u8 \<Rightarrow> HID_ReportItemTypes_t \<Rightarrow> u16 option" where
  "USB_GetHIDReportSize pd ReportID ReportType =
     hid_report_size (ReportIDSizes pd) ReportID ReportType 0 HID_MAX_REPORT_IDS"

section \<open>Bits of a report\<close>

definition rbit :: "u8 list \<Rightarrow> nat \<Rightarrow> bool" where
  "rbit D k \<longleftrightarrow> bit (D ! (k div 8)) (k mod 8)"

lemma bmask_mod8 [simp]: "(b :: u8) AND bmask (k mod 8) = 0 \<longleftrightarrow> \<not> bit b (k mod 8)"
  by (rule and_bmask_eq_0) simp

lemma unat_div8 [simp]: "unat ((c :: u16) div 8) = unat c div 8" "unat ((c :: u16) mod 8) = unat c mod 8"
  by (simp_all add: unat_div_distrib unat_mod_distrib)

lemma bmask_double [simp]: "(bmask i :: u32) * 2 = bmask (Suc i)"
  by (simp add: bmask_def push_bit_eq_mult)

lemma hid_get_bits_sound:
  assumes "unat cur + n \<le> 8 * length D" "unat cur + n < 2 ^ 16"
  shows "returns (\<lambda>v. \<forall>j. bit v j \<longleftrightarrow> bit val j \<or> (i \<le> j \<and> j < i + n \<and> j < 32 \<and> rbit D (unat cur + (j - i))))
     (hid_get_bits D n cur (bmask i) val)"
  using assms
proof (induction n arbitrary: cur i val)
  case (Suc n)
  have len: "unat cur div 8 < length D" using Suc.prems by linarith
  have c: "unat (cur + 1) = Suc (unat cur)"
    using Suc.prems by (simp add: unat_word_ariths)
  let ?v = "if rbit D (unat cur) then val OR bmask i else val"
  have "returns (\<lambda>v. \<forall>j. bit v j \<longleftrightarrow> bit ?v j \<or> (Suc i \<le> j \<and> j < Suc i + n \<and> j < 32 \<and> rbit D (unat (cur + 1) + (j - Suc i))))
      (hid_get_bits D n (cur + 1) (bmask (Suc i)) ?v)"
    using Suc.prems by (intro Suc.IH) (simp_all add: c)
  moreover have "hid_get_bits D (Suc n) cur (bmask i) val = hid_get_bits D n (cur + 1) (bmask (Suc i)) ?v"
    by (simp add: len rbit_def)
  moreover have "bit ?v j \<or> (Suc i \<le> j \<and> j < Suc i + n \<and> j < 32 \<and> rbit D (unat (cur + 1) + (j - Suc i))) \<longleftrightarrow>
      bit val j \<or> (i \<le> j \<and> j < i + Suc n \<and> j < 32 \<and> rbit D (unat cur + (j - i)))" for j
  proof (cases "j = i")
    case False
    then have "Suc i \<le> j \<longleftrightarrow> i \<le> j" "i \<le> j \<Longrightarrow> Suc (unat cur) + (j - Suc i) = unat cur + (j - i)" by auto
    with False show ?thesis by (auto simp: c bit_or_iff)
  qed (auto simp: bit_or_iff)
  ultimately show ?case by (simp only:)
qed auto

lemma rbit_set:
  assumes "k div 8 < length D"
  shows "rbit (D[k div 8 := D ! (k div 8) OR bmask (k mod 8)]) j \<longleftrightarrow> rbit D j \<or> j = k"
proof (cases "j div 8 = k div 8")
  case True
  have "j = k \<longleftrightarrow> j mod 8 = k mod 8" using True by (metis div_mult_mod_eq)
  with True assms show ?thesis by (auto simp: rbit_def bit_or_iff)
qed (auto simp: rbit_def)

lemma hid_set_bits_sound:
  assumes "unat cur + n \<le> 8 * length D" "unat cur + n < 2 ^ 16" "i + n \<le> 32"
  shows "returns (\<lambda>D'. length D' = length D \<and>
       (\<forall>k. rbit D' k \<longleftrightarrow> rbit D k \<or> (unat cur \<le> k \<and> k < unat cur + n \<and> bit val (i + (k - unat cur)))))
     (hid_set_bits D n cur (bmask i) val)"
  using assms
proof (induction n arbitrary: D cur i)
  case (Suc n)
  have len: "unat cur div 8 < length D" using Suc.prems by linarith
  have c: "unat (cur + 1) = Suc (unat cur)"
    using Suc.prems by (simp add: unat_word_ariths)
  let ?D = "if bit val i then D[unat cur div 8 := D ! (unat cur div 8) OR bmask (unat cur mod 8)] else D"
  have "returns (\<lambda>D'. length D' = length ?D \<and>
       (\<forall>k. rbit D' k \<longleftrightarrow> rbit ?D k \<or> (unat (cur + 1) \<le> k \<and> k < unat (cur + 1) + n \<and> bit val (Suc i + (k - unat (cur + 1))))))
     (hid_set_bits ?D n (cur + 1) (bmask (Suc i)) val)"
    using Suc.prems by (intro Suc.IH) (simp_all add: c)
  moreover have "hid_set_bits D (Suc n) cur (bmask i) val = hid_set_bits ?D n (cur + 1) (bmask (Suc i)) val"
    using Suc.prems by (simp add: len)
  moreover have "rbit ?D k \<or> (unat (cur + 1) \<le> k \<and> k < unat (cur + 1) + n \<and> bit val (Suc i + (k - unat (cur + 1)))) \<longleftrightarrow>
      rbit D k \<or> (unat cur \<le> k \<and> k < unat cur + Suc n \<and> bit val (i + (k - unat cur)))" for k
  proof (cases "k = unat cur")
    case False
    then have "Suc (unat cur) \<le> k \<longleftrightarrow> unat cur \<le> k" "unat cur \<le> k \<Longrightarrow> Suc i + (k - Suc (unat cur)) = i + (k - unat cur)"
      by auto
    with False len show ?thesis by (auto simp: c rbit_set)
  qed (use len in \<open>auto simp: c rbit_set\<close>)
  moreover have "length ?D = length D" by simp
  ultimately show ?case by (simp only:)
qed auto

section \<open>Properties of report data\<close>

text \<open>
  C12. Round trip: writing an item of at most 32 bits into a report whose bits for that item are clear
  and reading it back yields the low \<open>BitSize\<close> bits of the value, reports success and moves the old
  value to \<open>PreviousValue\<close>. The other bits of the report are unchanged; in a report with an ID the
  first byte becomes the ID and the item lives in the bytes after it.
\<close>

theorem USB_HIDReportItem_roundtrip:
  assumes "n = unat (BitSize (Attributes item))" "n \<le> 32" "off = unat (BitOffset item)"
    and "if Item_ReportID item = 0 then P = D else D \<noteq> [] \<and> P = tl D"
    and "off + n \<le> 8 * length P" "off + n < 2 ^ 16"
    and "\<forall>k. off \<le> k \<longrightarrow> k < off + n \<longrightarrow> \<not> rbit P k"
  shows "\<exists>P' D' item'. USB_SetHIDReportItemInfo D (Some item) = Some (D', Some item') \<and>
    D' = (if Item_ReportID item = 0 then P' else Item_ReportID item # P') \<and> length D' = length D \<and>
    (\<forall>k. k < off \<or> off + n \<le> k \<longrightarrow> rbit P' k = rbit P k) \<and>
    USB_GetHIDReportItemInfo D' (Some item') =
      Some (True, Some (item'\<lparr>PreviousValue := Value item, Value := take_bit n (Value item)\<rparr>))"
proof -
  obtain P' where P': "hid_set_bits P n (BitOffset item) (bmask 0) (Value item) = Some P'" "length P' = length P"
      and set: "\<And>k. rbit P' k \<longleftrightarrow> rbit P k \<or> (off \<le> k \<and> k < off + n \<and> bit (Value item) (k - off))"
    using hid_set_bits_sound [of "BitOffset item" n P 0 "Value item"] assms(2,3,5,6) by (auto simp: returns_def)
  obtain v where v: "hid_get_bits P' n (BitOffset item) (bmask 0) 0 = Some v"
      and get: "\<And>j. bit v j \<longleftrightarrow> j < n \<and> j < 32 \<and> rbit P' (off + j)"
    using hid_get_bits_sound [of "BitOffset item" n P' 0 0] assms(3,5,6) P'(2) by (auto simp: returns_def)
  have take: "v = take_bit n (Value item)"
    by (rule bit_word_eqI) (use assms(7) in \<open>auto simp: get set bit_take_bit_iff\<close>)
  show ?thesis
  proof (cases "Item_ReportID item = 0")
    case True
    with v P' take set assms(1,4) show ?thesis
      by (auto simp: USB_SetHIDReportItemInfo_def USB_GetHIDReportItemInfo_def)
  next
    case False
    then obtain d where D: "D = d # P" using assms(4) by (cases D) auto
    from False v P' take set assms(1) show ?thesis
      unfolding D by (auto simp: USB_SetHIDReportItemInfo_def USB_GetHIDReportItemInfo_def)
  qed
qed

theorem USB_HIDReportItem_roundtrip_witness:
  "\<exists>D' item'. USB_SetHIDReportItemInfo [0, 0x01, 0x80] (Some (zero_item\<lparr>BitOffset := 4, Item_ReportID := 3,
       Attributes := zero_attributes\<lparr>BitSize := 8\<rparr>, Value := 0x1A5\<rparr>)) = Some (D', Some item') \<and>
     hd D' = 3 \<and>
     USB_GetHIDReportItemInfo D' (Some item') = Some (True, Some (item'\<lparr>PreviousValue := 0x1A5, Value := 0xA5\<rparr>))"
proof -
  let ?item = "zero_item\<lparr>BitOffset := 4, Item_ReportID := 3, Attributes := zero_attributes\<lparr>BitSize := 8\<rparr>, Value := 0x1A5\<rparr>"
  have clear: "\<forall>k. 4 \<le> k \<longrightarrow> k < 4 + 8 \<longrightarrow> \<not> rbit [0x01, 0x80] k"
  proof (intro allI impI)
    fix k :: nat assume "4 \<le> k" "k < 4 + 8"
    then have "k \<in> {4, 5, 6, 7, 8, 9, 10, 11}" by auto
    then show "\<not> rbit [0x01, 0x80] k" by (auto simp: rbit_def)
  qed
  have h: "8 = unat (BitSize (Attributes ?item))" "(8 :: nat) \<le> 32" "4 = unat (BitOffset ?item)"
    "if Item_ReportID ?item = 0 then [0x01, 0x80 :: u8] = [0, 0x01, 0x80]
     else [0, 0x01, 0x80 :: u8] \<noteq> [] \<and> [0x01, 0x80] = tl [0, 0x01, 0x80 :: u8]"
    "4 + 8 \<le> 8 * length [0x01, 0x80 :: u8]" "4 + (8 :: nat) < 2 ^ 16"
    by (simp_all add: zero_item_def)
  have v: "Value ?item = 0x1A5" "take_bit 8 (0x1A5 :: u32) = 0xA5" "Item_ReportID ?item = 3" by simp_all
  from USB_HIDReportItem_roundtrip [OF h clear] obtain P' D' item'
    where *: "USB_SetHIDReportItemInfo [0, 0x01, 0x80] (Some ?item) = Some (D', Some item')"
      "D' = (if (3 :: u8) = 0 then P' else 3 # P')"
      "USB_GetHIDReportItemInfo D' (Some item') = Some (True, Some (item'\<lparr>PreviousValue := 0x1A5, Value := 0xA5\<rparr>))"
    unfolding v by blast
  then have "hd D' = 3" by simp
  with * show ?thesis by blast
qed

text \<open>The size of a report in bytes is its size in bits, rounded up.\<close>

lemma bytes_of_bits:
  fixes b :: u16
  shows "unat (b div 8 + (if b mod 8 \<noteq> 0 then 1 else 0)) = (unat b + 7) div 8"
proof -
  have "unat b < 2 ^ 16" using unsigned_less [of b] by simp
  then have "unat (b div 8 + 1) = Suc (unat b div 8)"
    by (simp add: unat_word_ariths unat_div_distrib)
  moreover have "b mod 8 = 0 \<longleftrightarrow> unat b mod 8 = 0"
    by (simp add: word_unat_eq_iff unat_mod_distrib)
  moreover have "(n + 7) div 8 = n div 8 + (if n mod 8 = 0 then 0 else 1)" for n :: nat
    by presburger
  ultimately show ?thesis by (simp add: unat_div_distrib)
qed

lemma hid_report_size_found:
  assumes "sizes_wf infos largest" "i + n \<le> HID_MAX_REPORT_IDS" "i \<le> k" "k < i + n"
    and "Size_ReportID (infos ! k) = rid" "\<forall>j<k. Size_ReportID (infos ! j) \<noteq> rid"
  shows "returns (\<lambda>r. unat r = (unat (ReportSizeBits (infos ! k) ! item_type_index t) + 7) div 8)
    (hid_report_size infos rid t i n)"
  using assms
proof (induction infos rid t i n rule: hid_report_size.induct)
  case (2 infos rid t i n)
  have len: "i < length infos" "length (ReportSizeBits (infos ! i)) = 3"
    using "2.prems" sizes_wf_nth(1) [of infos largest i] by (auto simp: sizes_wf_def)
  show ?case
  proof (cases "i = k")
    case True
    with len "2.prems" show ?thesis by (auto simp: bytes_of_bits)
  next
    case False
    with "2.prems" have "returns (\<lambda>r. unat r = (unat (ReportSizeBits (infos ! k) ! item_type_index t) + 7) div 8)
        (hid_report_size infos rid t (Suc i) n)"
      using len by (intro "2.IH") auto
    with False len "2.prems" show ?thesis by auto
  qed
qed simp

text \<open>
  On a parsed descriptor \<open>USB_GetHIDReportSize\<close> returns, for the first size record with the given
  report ID, the number of bytes that hold its bits: the size in bits divided by eight, rounded up.
\<close>

lemma USB_GetHIDReportSize_rounds_up:
  assumes "pd_wf filter_cb pd" "k < HID_MAX_REPORT_IDS"
    and "Size_ReportID (ReportIDSizes pd ! k) = rid" "\<forall>j<k. Size_ReportID (ReportIDSizes pd ! j) \<noteq> rid"
  shows "\<exists>r. USB_GetHIDReportSize pd rid t = Some r \<and>
    unat r = (unat (ReportSizeBits (ReportIDSizes pd ! k) ! item_type_index t) + 7) div 8"
proof -
  have "sizes_wf (ReportIDSizes pd) (LargestReportSizeBits pd)" using assms(1) by (simp add: pd_wf_def)
  from hid_report_size_found [OF this, of 0 HID_MAX_REPORT_IDS k rid t] assms(2-4) show ?thesis
    by (simp add: USB_GetHIDReportSize_def returns_def)
qed

lemma USB_GetHIDReportSize_rounds_up_example:
  "\<exists>r. USB_GetHIDReportSize (zero_info\<lparr>TotalDeviceReports := 2, LargestReportSizeBits := 9,
      ReportIDSizes := [\<lparr>Size_ReportID = 1, ReportSizeBits = [8, 0, 0]\<rparr>,
        \<lparr>Size_ReportID = 2, ReportSizeBits = [9, 0, 0]\<rparr>] @ replicate 8 zero_size_info\<rparr>) 2 HID_REPORT_ITEM_In = Some r \<and>
      unat r = 2"
proof -
  let ?pd = "zero_info\<lparr>TotalDeviceReports := 2, LargestReportSizeBits := 9,
      ReportIDSizes := [\<lparr>Size_ReportID = 1, ReportSizeBits = [8, 0, 0]\<rparr>,
        \<lparr>Size_ReportID = 2, ReportSizeBits = [9, 0, 0]\<rparr>] @ replicate 8 zero_size_info\<rparr>"
  have "pd_wf (\<lambda>_. True) ?pd"
    by (auto simp: pd_wf_def zero_info_def items_wf_def paths_wf_def sizes_wf_def zero_size_info_def zero_path_def)
  from USB_GetHIDReportSize_rounds_up [OF this, of 1 2 HID_REPORT_ITEM_In] show ?thesis by auto
qed

section \<open>Layout of the fields\<close>

text \<open>The size in bits that the parser has given the report in use so far, for one direction.\<close>

definition cur_bits :: "HID_ReportItemTypes_t \<Rightarrow> hid_vars \<Rightarrow> u16" where
  "cur_bits t st = ReportSizeBits (ReportIDSizes (ParserData st) ! CurrReportIDInfo st) ! item_type_index t"

abbreviation cur_state :: "hid_vars \<Rightarrow> HID_StateTable_t" where
  "cur_state st \<equiv> StateTable st ! CurrStateTable st"

definition field_at :: "u8 \<Rightarrow> hid_vars \<Rightarrow> u16 \<Rightarrow> HID_ReportItem_t \<Rightarrow> bool" where
  "field_at item st off x \<longleftrightarrow> BitOffset x = off \<and> ItemType x = hid_item_type item \<and>
     Item_ReportID x = ST_ReportID (cur_state st) \<and> CollectionPath x = CurrCollectionPath st \<and>
     BitSize (Attributes x) = BitSize (ST_Attributes (cur_state st))"

definition same_context :: "hid_vars \<Rightarrow> hid_vars \<Rightarrow> bool" where
  "same_context st st' \<longleftrightarrow> StateTable st' = StateTable st \<and> CurrStateTable st' = CurrStateTable st \<and>
     CurrReportIDInfo st' = CurrReportIDInfo st \<and> CurrCollectionPath st' = CurrCollectionPath st"

lemma field_at_context: "same_context st st' \<Longrightarrow> field_at item st' = field_at item st"
  by (intro ext) (simp add: field_at_def same_context_def)

lemma hid_next_usage_context: "hid_next_usage st = Some (u, st') \<Longrightarrow> same_context st st' \<and> ParserData st' = ParserData st"
  by (auto simp: hid_next_usage_def same_context_def split: if_splits bind_splits)

lemma hid_io_item_field:
  assumes wf: "hid_wf cb st" and go: "hid_io_item cb junk item dat st = Some (Go st')"
    and dat: "dat AND HID_IOF_CONSTANT = 0" and cb: "\<And>x. cb x"
  shows "\<exists>x. field_at item st (cur_bits (hid_item_type item) st) x \<and> same_context st st' \<and>
    cur_bits (hid_item_type item) st' = cur_bits (hid_item_type item) st + ucast (BitSize (ST_Attributes (cur_state st))) \<and>
    unat (TotalReportItems (ParserData st)) < HID_MAX_REPORTITEMS \<and>
    TotalReportItems (ParserData st') = TotalReportItems (ParserData st) + 1 \<and>
    ReportItems (ParserData st') = (ReportItems (ParserData st))[unat (TotalReportItems (ParserData st)) := x]"
proof -
  obtain u st1 where nx: "hid_next_usage st = Some (u, st1)"
    using hid_next_usage_safe [OF wf] by (auto simp: returns_def)
  note ctx = hid_next_usage_context [OF nx]
  let ?pd = "ParserData st" and ?i = "CurrReportIDInfo st" and ?t = "item_type_index (hid_item_type item)"
  have cur: "CurrStateTable st < length (StateTable st)" and i: "?i < HID_MAX_REPORT_IDS" and pd: "pd_wf cb ?pd"
    using wf by (auto simp: hid_wf_def pd_wf_def)
  have len: "?i < length (ReportIDSizes ?pd)" "?t < length (ReportSizeBits (ReportIDSizes ?pd ! ?i))"
    using pd i sizes_wf_nth(1) [of "ReportIDSizes ?pd" "LargestReportSizeBits ?pd" ?i]
    by (auto simp: pd_wf_def sizes_wf_def)
  have tot: "unat (TotalReportItems ?pd) < HID_MAX_REPORTITEMS" and tot': "unat (TotalReportItems ?pd) < length (ReportItems ?pd)"
    using go nx ctx len pd by (auto simp: hid_io_item_def Let_def cur same_context_def pd_wf_def items_wf_def split: if_splits)
  let ?x = "hid_new_item junk item dat (cur_state st) (CurrCollectionPath st) u (cur_bits (hid_item_type item) st)"
  have "field_at item st (cur_bits (hid_item_type item) st) ?x"
    by (auto simp: field_at_def hid_new_item_def split: option.splits)
  moreover have "same_context st st' \<and>
    cur_bits (hid_item_type item) st' = cur_bits (hid_item_type item) st + ucast (BitSize (ST_Attributes (cur_state st))) \<and>
    TotalReportItems (ParserData st') = TotalReportItems (ParserData st) + 1 \<and>
    ReportItems (ParserData st') = (ReportItems (ParserData st))[unat (TotalReportItems (ParserData st)) := ?x]"
    using go nx ctx len tot tot' by (auto simp: hid_io_item_def Let_def cur same_context_def cur_bits_def dat cb)
  ultimately show ?thesis using tot by blast
qed

definition fields_from :: "u8 \<Rightarrow> hid_vars \<Rightarrow> hid_vars \<Rightarrow> nat \<Rightarrow> bool" where
  "fields_from item st st' n \<longleftrightarrow>
     (let tot = unat (TotalReportItems (ParserData st)); off = cur_bits (hid_item_type item) st;
          sz = ucast (BitSize (ST_Attributes (cur_state st)))
      in unat (TotalReportItems (ParserData st')) = tot + n \<and> tot + n \<le> HID_MAX_REPORTITEMS \<and>
         cur_bits (hid_item_type item) st' = off + of_nat n * sz \<and>
         (\<forall>k<n. field_at item st (off + of_nat k * sz) (ReportItems (ParserData st') ! (tot + k))) \<and>
         (\<forall>j<tot. ReportItems (ParserData st') ! j = ReportItems (ParserData st) ! j))"

lemma fields_from_step:
  assumes ctx: "same_context st st1" and len: "length (ReportItems (ParserData st)) = HID_MAX_REPORTITEMS"
    and x: "field_at item st (cur_bits (hid_item_type item) st) x"
    and bits: "cur_bits (hid_item_type item) st1 = cur_bits (hid_item_type item) st + ucast (BitSize (ST_Attributes (cur_state st)))"
    and tot: "unat (TotalReportItems (ParserData st)) < HID_MAX_REPORTITEMS"
      "TotalReportItems (ParserData st1) = TotalReportItems (ParserData st) + 1"
    and items: "ReportItems (ParserData st1) = (ReportItems (ParserData st))[unat (TotalReportItems (ParserData st)) := x]"
    and rest: "fields_from item st1 st' n"
  shows "fields_from item st st' (Suc n)"
proof -
  let ?tot = "unat (TotalReportItems (ParserData st))" and ?off = "cur_bits (hid_item_type item) st"
  let ?sz = "ucast (BitSize (ST_Attributes (cur_state st))) :: u16"
  have cur: "cur_state st1 = cur_state st" using ctx by (simp add: same_context_def)
  have tot1: "unat (TotalReportItems (ParserData st1)) = Suc ?tot"
    using tot by (simp add: unat_word_ariths)
  note r = rest [unfolded fields_from_def Let_def tot1 bits cur field_at_context [OF ctx] items]
  have "field_at item st (?off + of_nat k * ?sz) (ReportItems (ParserData st') ! (?tot + k))" if "k < Suc n" for k
  proof (cases k)
    case 0
    have "ReportItems (ParserData st') ! ?tot = x" using r tot(1) len by simp
    with x 0 show ?thesis by simp
  next
    case (Suc j)
    with r that have "field_at item st (?off + ?sz + of_nat j * ?sz) (ReportItems (ParserData st') ! (Suc ?tot + j))" by blast
    with Suc show ?thesis by (simp add: algebra_simps)
  qed
  moreover have "ReportItems (ParserData st') ! j = ReportItems (ParserData st) ! j" if "j < ?tot" for j
    using r that by simp
  ultimately show ?thesis
    using r by (simp add: fields_from_def Let_def algebra_simps)
qed

lemma hid_io_loop_fields:
  assumes "hid_wf cb st" "hid_io_loop cb junk item dat n st = Some (Go st')"
    and dat: "dat AND HID_IOF_CONSTANT = 0" and cb: "\<And>x. cb x"
  shows "fields_from item st st' n"
  using assms(1,2)
proof (induction n arbitrary: st)
  case 0
  then show ?case by (auto simp: fields_from_def Let_def hid_wf_def pd_wf_def items_wf_def)
next
  case (Suc n)
  from Suc.prems(2) obtain st1 where st1: "hid_io_item cb (junk n) item dat st = Some (Go st1)"
      "hid_io_loop cb junk item dat n st1 = Some (Go st')"
    by (auto split: bind_splits hid_out.splits)
  have "hid_wf cb st1"
    using hid_io_item_safe [OF Suc.prems(1), of "junk n" item dat] st1(1) by (simp add: returns_def)
  then have "fields_from item st1 st' n" using st1(2) by (rule Suc.IH)
  moreover have "length (ReportItems (ParserData st)) = HID_MAX_REPORTITEMS"
    using Suc.prems(1) by (simp add: hid_wf_def pd_wf_def items_wf_def)
  ultimately show ?case
    using hid_io_item_field [OF Suc.prems(1) st1(1) dat cb] fields_from_step by blast
qed


definition layout_sample :: hid_vars where
  "layout_sample = (hid_init_vars (replicate 8 0) [zero_state])\<lparr>StateTable :=
     [zero_state\<lparr>ReportCount := 3, ST_Attributes := zero_attributes\<lparr>BitSize := 5\<rparr>\<rparr>, zero_state]\<rparr>"


text \<open>
  A descriptor with two top-level collections one after the other is accepted, but both are stored
  in entry 0 of the collection table: the item of the first collection (a mouse, usage 2) ends up
  pointing at the second (a keyboard, usage 6).
\<close>

theorem second_root_collection_overwrites_first:
  "map_option (\<lambda>(c, pd). (c, TotalReportItems pd, CollectionPath (ReportItems pd ! 0), CollectionPath (ReportItems pd ! 1),
       Usage_ID (Coll_Usage (CollectionPaths pd ! 0))))
     (USB_ProcessHIDReport (\<lambda>_. True) (\<lambda>_ _. (0, 0)) (replicate 8 0) [zero_state]
       [0x75, 0x08, 0x95, 0x01, 0x09, 0x02, 0xA1, 0x01, 0x81, 0x02, 0xC0, 0x09, 0x06, 0xA1, 0x01, 0x81, 0x02, 0xC0] 18) =
   Some (HID_PARSE_Successful, 2, Some 0, Some 0, 6)"
  by code_simp

end
