(* ===== verification/Config_Descriptors.thy ===== *)
theory Config_Descriptors
  imports Lufa_Prelude
begin

text \<open>
  Walking a configuration descriptor (\<^verbatim>\<open>Drivers/USB/Core/ConfigDescriptors.c\<close> and \<^verbatim>\<open>.h\<close>): the step to the
  next sub-descriptor, the searches for the next descriptor of a type, of a type before or after another
  type, and the search with an application comparator. The memory is a function from 16-bit addresses,
  a position is the pair of \<open>BytesRem\<close> and \<open>CurrConfigLoc\<close>. The search loops may run forever, which is the
  value \<open>None\<close>: they do so exactly when a descriptor has size zero.
\<close>

type_synonym desc_mem = "u16 \<Rightarrow> u8"
type_synonym desc_pos = "u16 \<times> u16"

section \<open>The operations\<close>

definition DESCRIPTOR_SIZE :: "desc_mem \<Rightarrow> u16 \<Rightarrow> u8" where
  "DESCRIPTOR_SIZE mem loc = mem loc"

definition DESCRIPTOR_TYPE :: "desc_mem \<Rightarrow> u16 \<Rightarrow> u8" where
  "DESCRIPTOR_TYPE mem loc = mem (loc + 1)"

definition USB_GetNextDescriptor :: "desc_mem \<Rightarrow> desc_pos \<Rightarrow> desc_pos" where
  "USB_GetNextDescriptor mem = (\<lambda>(BytesRem, CurrConfigLoc).
     let CurrDescriptorSize = ucast (DESCRIPTOR_SIZE mem CurrConfigLoc);
         CurrDescriptorSize = (if BytesRem < CurrDescriptorSize then BytesRem else CurrDescriptorSize)
     in (BytesRem - CurrDescriptorSize, CurrConfigLoc + CurrDescriptorSize))"

partial_function (option) USB_GetNextDescriptorOfType :: "desc_mem \<Rightarrow> u8 \<Rightarrow> desc_pos \<Rightarrow> desc_pos option" where
  "USB_GetNextDescriptorOfType mem Type p =
     (if fst p = 0 then Some p
      else if DESCRIPTOR_TYPE mem (snd (USB_GetNextDescriptor mem p)) = Type
      then Some (USB_GetNextDescriptor mem p)
      else USB_GetNextDescriptorOfType mem Type (USB_GetNextDescriptor mem p))"

partial_function (option) USB_GetNextDescriptorOfTypeBefore :: "desc_mem \<Rightarrow> u8 \<Rightarrow> u8 \<Rightarrow> desc_pos \<Rightarrow> desc_pos option" where
  "USB_GetNextDescriptorOfTypeBefore mem Type BeforeType p =
     (if fst p = 0 then Some p
      else if DESCRIPTOR_TYPE mem (snd (USB_GetNextDescriptor mem p)) = Type
      then Some (USB_GetNextDescriptor mem p)
      else if DESCRIPTOR_TYPE mem (snd (USB_GetNextDescriptor mem p)) = BeforeType
      then Some (0, snd (USB_GetNextDescriptor mem p))
      else USB_GetNextDescriptorOfTypeBefore mem Type BeforeType (USB_GetNextDescriptor mem p))"

definition USB_GetNextDescriptorOfTypeAfter :: "desc_mem \<Rightarrow> u8 \<Rightarrow> u8 \<Rightarrow> desc_pos \<Rightarrow> desc_pos option" where
  "USB_GetNextDescriptorOfTypeAfter mem Type AfterType p = do {
     p \<leftarrow> USB_GetNextDescriptorOfType mem AfterType p;
     if fst p \<noteq> 0 then USB_GetNextDescriptorOfType mem Type p else Some p }"

text \<open>
  The comparator is application code: it sees the memory from the position of a descriptor on and
  returns one of the codes of \<open>DSearch_Return_ErrorCodes_t\<close>.
\<close>

datatype DSearch_Return_ErrorCodes_t =
  DESCRIPTOR_SEARCH_Found | DESCRIPTOR_SEARCH_Fail | DESCRIPTOR_SEARCH_NotFound

datatype DSearch_Comp_Return_ErrorCodes_t =
  DESCRIPTOR_SEARCH_COMP_Found | DESCRIPTOR_SEARCH_COMP_Fail | DESCRIPTOR_SEARCH_COMP_EndOfDescriptor

partial_function (option) USB_GetNextDescriptorComp :: "(u16 \<Rightarrow> DSearch_Return_ErrorCodes_t) \<Rightarrow> desc_mem \<Rightarrow> desc_pos \<Rightarrow>
    (DSearch_Comp_Return_ErrorCodes_t \<times> desc_pos) option" where
  "USB_GetNextDescriptorComp ComparatorRoutine mem p =
     (if fst p = 0 then Some (DESCRIPTOR_SEARCH_COMP_EndOfDescriptor, p)
      else if ComparatorRoutine (snd (USB_GetNextDescriptor mem p)) = DESCRIPTOR_SEARCH_Fail
      then Some (DESCRIPTOR_SEARCH_COMP_Fail, p)
      else if ComparatorRoutine (snd (USB_GetNextDescriptor mem p)) = DESCRIPTOR_SEARCH_Found
      then Some (DESCRIPTOR_SEARCH_COMP_Found, USB_GetNextDescriptor mem p)
      else USB_GetNextDescriptorComp ComparatorRoutine mem (USB_GetNextDescriptor mem p))"

section \<open>The descriptors of a configuration\<close>

text \<open>
  The specification side: the list of positions a walk visits, each with at least one byte left, and
  the position behind the last descriptor.
\<close>

lemma USB_GetNextDescriptor_rem:
  "unat (fst (USB_GetNextDescriptor mem p)) = unat (fst p) - unat (DESCRIPTOR_SIZE mem (snd p))"
proof -
  obtain r l where p: "p = (r, l)" by (cases p)
  define n :: u16 where "n = ucast (DESCRIPTOR_SIZE mem l)"
  have n: "unat n = unat (DESCRIPTOR_SIZE mem l)" by (simp add: n_def)
  have q: "USB_GetNextDescriptor mem p = (if r < n then (0, l + r) else (r - n, l + n))"
    by (simp add: p USB_GetNextDescriptor_def n_def Let_def)
  show ?thesis
  proof (cases "r < n")
    case True
    then have "unat r < unat (DESCRIPTOR_SIZE mem l)" by (simp add: word_less_nat_alt n)
    with True show ?thesis by (simp add: q) (simp add: p)
  next
    case False
    then have "unat (r - n) = unat r - unat n" by (intro unat_sub) simp
    with False show ?thesis by (simp add: q n) (simp add: p)
  qed
qed

lemma USB_GetNextDescriptor_less:
  assumes "fst p \<noteq> 0" "DESCRIPTOR_SIZE mem (snd p) \<noteq> 0"
  shows "unat (fst (USB_GetNextDescriptor mem p)) < unat (fst p)"
proof -
  have "0 < unat (fst p)" "0 < unat (DESCRIPTOR_SIZE mem (snd p))" using assms by (simp_all add: unat_gt_0)
  then show ?thesis by (simp add: USB_GetNextDescriptor_rem)
qed

lemma USB_GetNextDescriptor_end:
  "fst (USB_GetNextDescriptor mem p) + snd (USB_GetNextDescriptor mem p) = fst p + snd p"
  by (cases p) (simp add: USB_GetNextDescriptor_def Let_def)

function walk :: "desc_mem \<Rightarrow> desc_pos \<Rightarrow> (desc_pos \<times> desc_pos) list" where
  "walk mem p =
     (if fst p = 0 \<or> DESCRIPTOR_SIZE mem (snd p) = 0 then []
      else (p, USB_GetNextDescriptor mem p) # walk mem (USB_GetNextDescriptor mem p))"
  by pat_completeness auto
termination
  by (relation "measure (\<lambda>(mem, p). unat (fst p))") (simp_all add: USB_GetNextDescriptor_less)

declare walk.simps [simp del]

definition descriptors :: "desc_mem \<Rightarrow> desc_pos \<Rightarrow> desc_pos list" where
  "descriptors mem p = filter (\<lambda>q. fst q \<noteq> 0) (map snd (walk mem p))"

definition desc_end :: "desc_pos \<Rightarrow> desc_pos" where
  "desc_end p = (0, fst p + snd p)"

lemma desc_end_next [simp]: "desc_end (USB_GetNextDescriptor mem p) = desc_end p"
  by (simp add: desc_end_def USB_GetNextDescriptor_end)

text \<open>Every descriptor of the walk, the one the walk starts at included, has a size.\<close>

function well_sized :: "desc_mem \<Rightarrow> desc_pos \<Rightarrow> bool" where
  "well_sized mem p =
     (if fst p = 0 then True else if DESCRIPTOR_SIZE mem (snd p) = 0 then False
      else well_sized mem (USB_GetNextDescriptor mem p))"
  by pat_completeness auto
termination
  by (relation "measure (\<lambda>(mem, p). unat (fst p))") (simp_all add: USB_GetNextDescriptor_less)

declare well_sized.simps [simp del]

lemma walk_end [simp]: "fst p = 0 \<Longrightarrow> walk mem p = []"
  by (subst walk.simps) simp

lemma walk_step:
  "fst p \<noteq> 0 \<Longrightarrow> DESCRIPTOR_SIZE mem (snd p) \<noteq> 0 \<Longrightarrow>
   walk mem p = (p, USB_GetNextDescriptor mem p) # walk mem (USB_GetNextDescriptor mem p)"
  by (subst walk.simps) simp

lemma well_sized_end [simp]: "fst p = 0 \<Longrightarrow> well_sized mem p"
  by (subst well_sized.simps) simp

lemma well_sizedD:
  "well_sized mem p \<Longrightarrow> fst p \<noteq> 0 \<Longrightarrow> DESCRIPTOR_SIZE mem (snd p) \<noteq> 0 \<and> well_sized mem (USB_GetNextDescriptor mem p)"
  by (subst (asm) well_sized.simps) (simp split: if_splits)

lemma well_sized_induct [consumes 1, case_names finished step]:
  assumes "well_sized mem p" "\<And>p. fst p = 0 \<Longrightarrow> P p"
    and "\<And>p. fst p \<noteq> 0 \<Longrightarrow> DESCRIPTOR_SIZE mem (snd p) \<noteq> 0 \<Longrightarrow> well_sized mem (USB_GetNextDescriptor mem p) \<Longrightarrow>
       P (USB_GetNextDescriptor mem p) \<Longrightarrow> P p"
  shows "P p"
  using assms(1)
proof (induction "unat (fst p)" arbitrary: p rule: less_induct)
  case less
  show ?case
  proof (cases "fst p = 0")
    case True
    then show ?thesis by (rule assms(2))
  next
    case False
    note ws = well_sizedD [OF less.prems False]
    then have "P (USB_GetNextDescriptor mem p)"
      by (intro less.hyps USB_GetNextDescriptor_less False) simp_all
    then show ?thesis by (rule assms(3) [OF False conjunct1 [OF ws] conjunct2 [OF ws]])
  qed
qed

section \<open>Search loops\<close>

text \<open>
  What the three loops have in common: at the end they return \<open>fin\<close> of the position, otherwise they step
  to the next descriptor, and \<open>visit\<close> decides from the position before and after the step whether to return.
\<close>

locale descriptor_loop =
  fixes mem :: desc_mem and F :: "desc_pos \<Rightarrow> 'r option" and fin :: "desc_pos \<Rightarrow> 'r"
    and visit :: "desc_pos \<times> desc_pos \<Rightarrow> 'r option"
  assumes unfold: "F p = (if fst p = 0 then Some (fin p)
    else case visit (p, USB_GetNextDescriptor mem p) of Some r \<Rightarrow> Some r | None \<Rightarrow> F (USB_GetNextDescriptor mem p))"
begin

lemma F_end: "fst p = 0 \<Longrightarrow> F p = Some (fin p)"
  by (subst unfold) simp

lemma F_stop: "fst p \<noteq> 0 \<Longrightarrow> visit (p, USB_GetNextDescriptor mem p) = Some r \<Longrightarrow> F p = Some r"
  by (subst unfold) simp

lemma F_go: "fst p \<noteq> 0 \<Longrightarrow> visit (p, USB_GetNextDescriptor mem p) = None \<Longrightarrow> F p = F (USB_GetNextDescriptor mem p)"
  by (subst unfold) simp

lemma first_visit:
  assumes "well_sized mem p"
  shows "F p = Some (case List.find (\<lambda>pq. visit pq \<noteq> None) (walk mem p) of
     None \<Rightarrow> fin (desc_end p) | Some pq \<Rightarrow> the (visit pq))"
  using assms
proof (induction rule: well_sized_induct)
  case (finished p)
  then show ?case by (cases p) (simp add: F_end desc_end_def)
next
  case (step p)
  show ?case
  proof (cases "visit (p, USB_GetNextDescriptor mem p)")
    case None
    with step show ?thesis by (simp add: F_go walk_step cong: option.case_cong)
  next
    case (Some r)
    with step show ?thesis by (simp add: F_stop walk_step)
  qed
qed

end

interpretation of_type: descriptor_loop mem "USB_GetNextDescriptorOfType mem ty" "\<lambda>p. p"
  "\<lambda>(p, q). if DESCRIPTOR_TYPE mem (snd q) = ty then Some q else None" for mem ty
  by unfold_locales (rule trans [OF USB_GetNextDescriptorOfType.simps], simp)

interpretation of_type_before: descriptor_loop mem "USB_GetNextDescriptorOfTypeBefore mem ty before" "\<lambda>p. p"
  "\<lambda>(p, q). if DESCRIPTOR_TYPE mem (snd q) = ty then Some q
     else if DESCRIPTOR_TYPE mem (snd q) = before then Some (0, snd q) else None" for mem ty before
  by unfold_locales (rule trans [OF USB_GetNextDescriptorOfTypeBefore.simps], simp)

interpretation comp: descriptor_loop mem "USB_GetNextDescriptorComp cmp mem" "\<lambda>p. (DESCRIPTOR_SEARCH_COMP_EndOfDescriptor, p)"
  "\<lambda>(p, q). (case cmp (snd q) of DESCRIPTOR_SEARCH_Fail \<Rightarrow> Some (DESCRIPTOR_SEARCH_COMP_Fail, p)
      | DESCRIPTOR_SEARCH_Found \<Rightarrow> Some (DESCRIPTOR_SEARCH_COMP_Found, q) | DESCRIPTOR_SEARCH_NotFound \<Rightarrow> None)" for mem cmp
  by unfold_locales (rule trans [OF USB_GetNextDescriptorComp.simps], auto split: DSearch_Return_ErrorCodes_t.split)

section \<open>What the searches find\<close>

lemma descriptors_end [simp]: "fst p = 0 \<Longrightarrow> descriptors mem p = []"
  by (simp add: descriptors_def)

lemma descriptors_step:
  "fst p \<noteq> 0 \<Longrightarrow> DESCRIPTOR_SIZE mem (snd p) \<noteq> 0 \<Longrightarrow>
   descriptors mem p = (if fst (USB_GetNextDescriptor mem p) = 0 then []
     else USB_GetNextDescriptor mem p # descriptors mem (USB_GetNextDescriptor mem p))"
  by (simp add: descriptors_def walk_step)

lemma desc_end_here: "fst p = 0 \<Longrightarrow> desc_end p = p"
  by (cases p) (simp add: desc_end_def)

lemma next_at_end: "fst (USB_GetNextDescriptor mem p) = 0 \<Longrightarrow> USB_GetNextDescriptor mem p = desc_end p"
  by (metis desc_end_here desc_end_next)

lemma well_sized_later: "well_sized mem p \<Longrightarrow> q \<in> set (descriptors mem p) \<Longrightarrow> well_sized mem q \<and> desc_end q = desc_end p"
  by (induction rule: well_sized_induct) (auto simp: descriptors_step split: if_splits)

lemma of_type_found:
  assumes "well_sized mem p"
  shows "USB_GetNextDescriptorOfType mem ty p =
    Some (case List.find (\<lambda>q. DESCRIPTOR_TYPE mem (snd q) = ty) (descriptors mem p) of Some q \<Rightarrow> q | None \<Rightarrow> desc_end p)"
  using assms
proof (induction rule: well_sized_induct)
  case (finished p)
  then show ?case by (simp add: of_type.F_end desc_end_here)
next
  case (step p)
  show ?case
  proof (cases "DESCRIPTOR_TYPE mem (snd (USB_GetNextDescriptor mem p)) = ty")
    case True
    with step show ?thesis by (simp add: of_type.F_stop descriptors_step next_at_end)
  next
    case False
    with step show ?thesis
      by (auto simp: of_type.F_go descriptors_step cong: option.case_cong)
  qed
qed

text \<open>
  C14. \<open>USB_GetNextDescriptorOfType\<close> returns and finds the first descriptor of the given type after the
  current one; if there is none it ends at the end of the configuration with no bytes left. The bytes
  behind the configuration, which the loop also looks at, do not matter.
\<close>

theorem USB_GetNextDescriptorOfType_first:
  assumes "well_sized mem p"
  shows "USB_GetNextDescriptorOfType mem ty p =
    Some (case List.find (\<lambda>q. DESCRIPTOR_TYPE mem (snd q) = ty) (descriptors mem p) of
      Some q \<Rightarrow> q | None \<Rightarrow> (0, fst p + snd p))"
  using of_type_found [OF assms] unfolding desc_end_def .

text \<open>A configuration of three descriptors: types 2, 4 and 5.\<close>

definition sample_config :: desc_mem where
  "sample_config a = (if a < 12 then [3, 2, 9, 4, 4, 0, 0, 5, 5, 0, 0, 0] ! unat a else 0xFF)"

lemma sample_config_walk:
  "well_sized sample_config (12, 0) \<and> descriptors sample_config (12, 0) = [(9, 3), (5, 7)]"
  by code_simp

theorem USB_GetNextDescriptorOfType_first_witness:
  "USB_GetNextDescriptorOfType sample_config 5 (12, 0) = Some (5, 7) \<and>
   USB_GetNextDescriptorOfType sample_config 9 (12, 0) = Some (0, 12)"
  using USB_GetNextDescriptorOfType_first [of sample_config "(12, 0)"] sample_config_walk
  by (auto simp: DESCRIPTOR_TYPE_def sample_config_def)

text \<open>
  \<open>USB_GetNextDescriptorOfTypeBefore\<close> returns and finds the first descriptor of the given type unless
  one of the terminating type comes first; in that case, and when neither is present, no bytes are left.
\<close>

lemma USB_GetNextDescriptorOfTypeBefore_first:
  assumes "well_sized mem p"
  shows "USB_GetNextDescriptorOfTypeBefore mem ty before p =
    Some (case List.find (\<lambda>q. DESCRIPTOR_TYPE mem (snd q) \<in> {ty, before}) (descriptors mem p) of
      Some q \<Rightarrow> (if DESCRIPTOR_TYPE mem (snd q) = ty then q else (0, snd q)) | None \<Rightarrow> (0, fst p + snd p))"
  using assms unfolding desc_end_def [symmetric]
proof (induction rule: well_sized_induct)
  case (finished p)
  then show ?case by (simp add: of_type_before.F_end desc_end_here)
next
  case (step p)
  let ?q = "USB_GetNextDescriptor mem p"
  consider "DESCRIPTOR_TYPE mem (snd ?q) = ty" | "DESCRIPTOR_TYPE mem (snd ?q) \<noteq> ty" "DESCRIPTOR_TYPE mem (snd ?q) = before"
    | "DESCRIPTOR_TYPE mem (snd ?q) \<noteq> ty" "DESCRIPTOR_TYPE mem (snd ?q) \<noteq> before" by blast
  then show ?case
  proof cases
    case 1
    with step show ?thesis by (simp add: of_type_before.F_stop descriptors_step next_at_end)
  next
    case 2
    with step show ?thesis by (simp add: of_type_before.F_stop descriptors_step next_at_end desc_end_def)
  next
    case 3
    with step show ?thesis
      by (auto simp: of_type_before.F_go descriptors_step cong: option.case_cong)
  qed
qed

lemma USB_GetNextDescriptorOfTypeBefore_first_example:
  "USB_GetNextDescriptorOfTypeBefore sample_config 5 4 (12, 0) = Some (0, 3) \<and>
   USB_GetNextDescriptorOfTypeBefore sample_config 4 5 (12, 0) = Some (9, 3)"
  using USB_GetNextDescriptorOfTypeBefore_first [of sample_config "(12, 0)"] sample_config_walk
  by (auto simp: DESCRIPTOR_TYPE_def sample_config_def)

lemma descriptors_suffix:
  assumes "well_sized mem p" "dropWhile P (descriptors mem p) = q # ys"
  shows "descriptors mem q = ys"
  using assms by (induction rule: well_sized_induct) (auto simp: descriptors_step split: if_splits)

lemma find_dropWhile: "List.find P xs = (case dropWhile (\<lambda>x. \<not> P x) xs of [] \<Rightarrow> None | y # _ \<Rightarrow> Some y)"
  by (induction xs) auto

text \<open>
  \<open>USB_GetNextDescriptorOfTypeAfter\<close> returns and finds the first descriptor of the given type behind
  the first descriptor of the other type.
\<close>

lemma USB_GetNextDescriptorOfTypeAfter_first:
  assumes "well_sized mem p"
  shows "USB_GetNextDescriptorOfTypeAfter mem ty after p =
    Some (case dropWhile (\<lambda>q. DESCRIPTOR_TYPE mem (snd q) \<noteq> after) (descriptors mem p) of
       [] \<Rightarrow> (0, fst p + snd p)
     | _ # later \<Rightarrow> (case List.find (\<lambda>q. DESCRIPTOR_TYPE mem (snd q) = ty) later of
         Some q \<Rightarrow> q | None \<Rightarrow> (0, fst p + snd p)))"
proof (cases "dropWhile (\<lambda>q. DESCRIPTOR_TYPE mem (snd q) \<noteq> after) (descriptors mem p)")
  case Nil
  have f: "List.find (\<lambda>q. DESCRIPTOR_TYPE mem (snd q) = after) (descriptors mem p) = None"
    by (simp only: find_dropWhile Nil list.case)
  show ?thesis
    unfolding USB_GetNextDescriptorOfTypeAfter_def of_type_found [OF assms] f Nil by (simp add: desc_end_def)
next
  case (Cons q later)
  have f: "List.find (\<lambda>q. DESCRIPTOR_TYPE mem (snd q) = after) (descriptors mem p) = Some q"
    by (simp only: find_dropWhile Cons list.case)
  have q: "q \<in> set (descriptors mem p)" using Cons by (metis list.set_intros(1) set_dropWhileD)
  have nz: "fst q \<noteq> 0" using q by (auto simp: descriptors_def)
  have "USB_GetNextDescriptorOfType mem ty q =
      Some (case List.find (\<lambda>q. DESCRIPTOR_TYPE mem (snd q) = ty) later of Some q \<Rightarrow> q | None \<Rightarrow> desc_end p)"
    using of_type_found [of mem q ty] well_sized_later [OF assms q] descriptors_suffix [OF assms Cons]
    by (simp cong: option.case_cong)
  with nz show ?thesis
    unfolding USB_GetNextDescriptorOfTypeAfter_def of_type_found [OF assms] f Cons
    by (simp add: desc_end_def cong: option.case_cong)
qed

lemma USB_GetNextDescriptorOfTypeAfter_first_example:
  "USB_GetNextDescriptorOfTypeAfter sample_config 5 4 (12, 0) = Some (5, 7) \<and>
   USB_GetNextDescriptorOfTypeAfter sample_config 4 5 (12, 0) = Some (0, 12)"
  using USB_GetNextDescriptorOfTypeAfter_first [of sample_config "(12, 0)"] sample_config_walk
  by (auto simp: DESCRIPTOR_TYPE_def sample_config_def)

text \<open>
  C15. \<open>USB_GetNextDescriptorComp\<close> returns and gives the first verdict of the comparator other than \<open>NotFound\<close>:
  \<open>Found\<close> leaves the position at the descriptor, \<open>Fail\<close> leaves it at the descriptor before, and without a
  verdict the search ends at the end of the configuration. The comparator is also asked about the position
  behind the last descriptor.
\<close>

theorem USB_GetNextDescriptorComp_first:
  assumes "well_sized mem p"
  shows "USB_GetNextDescriptorComp cmp mem p =
    Some (case List.find (\<lambda>(prev, q). cmp (snd q) \<noteq> DESCRIPTOR_SEARCH_NotFound) (walk mem p) of
       Some (prev, q) \<Rightarrow> (if cmp (snd q) = DESCRIPTOR_SEARCH_Found then (DESCRIPTOR_SEARCH_COMP_Found, q)
                         else (DESCRIPTOR_SEARCH_COMP_Fail, prev))
     | None \<Rightarrow> (DESCRIPTOR_SEARCH_COMP_EndOfDescriptor, (0, fst p + snd p)))"
proof -
  let ?visit = "\<lambda>(p :: desc_pos, q :: desc_pos). (case cmp (snd q) of DESCRIPTOR_SEARCH_Fail \<Rightarrow> Some (DESCRIPTOR_SEARCH_COMP_Fail, p)
      | DESCRIPTOR_SEARCH_Found \<Rightarrow> Some (DESCRIPTOR_SEARCH_COMP_Found, q) | DESCRIPTOR_SEARCH_NotFound \<Rightarrow> None)"
  have asked: "(\<lambda>pq. ?visit pq \<noteq> None) = (\<lambda>(prev, q). cmp (snd q) \<noteq> DESCRIPTOR_SEARCH_NotFound)"
    by (auto simp: fun_eq_iff split: DSearch_Return_ErrorCodes_t.splits)
  have verdict: "the (?visit (prev, q)) = (if cmp (snd q) = DESCRIPTOR_SEARCH_Found then (DESCRIPTOR_SEARCH_COMP_Found, q)
      else (DESCRIPTOR_SEARCH_COMP_Fail, prev))" if "cmp (snd q) \<noteq> DESCRIPTOR_SEARCH_NotFound" for prev q
    using that by (cases "cmp (snd q)") simp_all
  note first = comp.first_visit [OF assms, of cmp, unfolded asked]
  show ?thesis
  proof (cases "List.find (\<lambda>(prev, q). cmp (snd q) \<noteq> DESCRIPTOR_SEARCH_NotFound) (walk mem p)")
    case None
    show ?thesis unfolding first None by (simp add: desc_end_def)
  next
    case (Some pq)
    then have "cmp (snd (snd pq)) \<noteq> DESCRIPTOR_SEARCH_NotFound" by (auto simp: find_Some_iff case_prod_beta)
    then show ?thesis
      unfolding first Some using verdict [of "snd pq" "fst pq"] by (cases pq) simp
  qed
qed

theorem USB_GetNextDescriptorComp_first_witness:
  "USB_GetNextDescriptorComp (\<lambda>l. if sample_config (l + 1) = 5 then DESCRIPTOR_SEARCH_Fail else DESCRIPTOR_SEARCH_NotFound)
     sample_config (12, 0) = Some (DESCRIPTOR_SEARCH_COMP_Fail, (9, 3))"
proof -
  have w: "walk sample_config (12, 0) = [((12, 0), (9, 3)), ((9, 3), (5, 7)), ((5, 7), (0, 12))]" by code_simp
  show ?thesis
    using USB_GetNextDescriptorComp_first [of sample_config "(12, 0)"] sample_config_walk
    by (simp add: w) (simp add: sample_config_def)
qed

section \<open>When the searches return\<close>

lemma next_of_zero_size: "DESCRIPTOR_SIZE mem (snd p) = 0 \<Longrightarrow> USB_GetNextDescriptor mem p = p"
  by (cases p) (simp add: USB_GetNextDescriptor_def)

definition of_type_stuck :: "desc_mem \<Rightarrow> u8 \<Rightarrow> desc_pos \<Rightarrow> bool" where
  "of_type_stuck mem ty p \<longleftrightarrow> \<not> well_sized mem p \<and> (\<forall>q\<in>set (descriptors mem p). DESCRIPTOR_TYPE mem (snd q) \<noteq> ty) \<and>
     (DESCRIPTOR_SIZE mem (snd p) = 0 \<longrightarrow> DESCRIPTOR_TYPE mem (snd p) \<noteq> ty)"

lemma of_type_stuck_next:
  assumes "of_type_stuck mem ty p"
  shows "fst p \<noteq> 0" "DESCRIPTOR_TYPE mem (snd (USB_GetNextDescriptor mem p)) \<noteq> ty"
    "of_type_stuck mem ty (USB_GetNextDescriptor mem p)"
proof -
  show nz: "fst p \<noteq> 0" using assms by (auto simp: of_type_stuck_def)
  have "DESCRIPTOR_TYPE mem (snd (USB_GetNextDescriptor mem p)) \<noteq> ty \<and> of_type_stuck mem ty (USB_GetNextDescriptor mem p)"
  proof (cases "DESCRIPTOR_SIZE mem (snd p) = 0")
    case True
    with assms show ?thesis by (simp add: next_of_zero_size of_type_stuck_def)
  next
    case False
    then have nws: "\<not> well_sized mem (USB_GetNextDescriptor mem p)"
      using assms nz well_sized.simps [of mem p] by (simp add: of_type_stuck_def)
    then have "fst (USB_GetNextDescriptor mem p) \<noteq> 0" by auto
    with assms nz False nws show ?thesis by (auto simp: of_type_stuck_def descriptors_step)
  qed
  then show "DESCRIPTOR_TYPE mem (snd (USB_GetNextDescriptor mem p)) \<noteq> ty"
    "of_type_stuck mem ty (USB_GetNextDescriptor mem p)" by auto
qed

lemma of_type_stuck_diverges: "of_type_stuck mem ty p \<Longrightarrow> USB_GetNextDescriptorOfType mem ty p = None"
proof (rule ccontr)
  assume stuck: "of_type_stuck mem ty p" and "USB_GetNextDescriptorOfType mem ty p \<noteq> None"
  then obtain r where r: "USB_GetNextDescriptorOfType mem ty p = Some r" by auto
  have "\<not> of_type_stuck mem ty p"
  proof (rule USB_GetNextDescriptorOfType.raw_induct [where P = "\<lambda>mem ty p r. \<not> of_type_stuck mem ty p", OF _ r])
    fix F and mem :: desc_mem and ty p r
    assume IH: "\<And>mem ty p r. F mem ty p = Some r \<Longrightarrow> \<not> of_type_stuck mem ty p"
      and "(if fst p = 0 then Some p
        else if DESCRIPTOR_TYPE mem (snd (USB_GetNextDescriptor mem p)) = ty then Some (USB_GetNextDescriptor mem p)
        else F mem ty (USB_GetNextDescriptor mem p)) = Some r"
    then show "\<not> of_type_stuck mem ty p"
      using of_type_stuck_next [of mem ty p] IH [of mem ty "USB_GetNextDescriptor mem p" r] by (auto split: if_splits)
  qed
  with stuck show False by simp
qed

lemma of_type_not_stuck_returns: "\<not> of_type_stuck mem ty p \<Longrightarrow> USB_GetNextDescriptorOfType mem ty p \<noteq> None"
proof (induction "unat (fst p)" arbitrary: p rule: less_induct)
  case less
  let ?q = "USB_GetNextDescriptor mem p"
  consider "fst p = 0" | "fst p \<noteq> 0" "DESCRIPTOR_TYPE mem (snd ?q) = ty" | "fst p \<noteq> 0" "DESCRIPTOR_TYPE mem (snd ?q) \<noteq> ty"
    by blast
  then show ?case
  proof cases
    case 3
    have size: "DESCRIPTOR_SIZE mem (snd p) \<noteq> 0"
    proof
      assume zero: "DESCRIPTOR_SIZE mem (snd p) = 0"
      then have "\<not> well_sized mem p" "descriptors mem p = []"
        using 3 well_sized.simps [of mem p] walk.simps [of mem p] by (simp_all add: descriptors_def)
      with zero 3 less.prems show False by (simp add: of_type_stuck_def next_of_zero_size)
    qed
    have "\<not> of_type_stuck mem ty ?q"
      using less.prems 3 size well_sized.simps [of mem p]
      by (auto simp: of_type_stuck_def descriptors_step split: if_splits)
    with 3 size show ?thesis
      using less.hyps [of ?q] USB_GetNextDescriptor_less [of p mem] by (simp add: of_type.F_go)
  qed (simp_all add: of_type.F_end of_type.F_stop)
qed

text \<open>
  C16. \<open>USB_GetNextDescriptorOfType\<close> runs forever exactly when the walk arrives at a descriptor of size zero
  without having met the type searched for, that descriptor included.
\<close>

theorem USB_GetNextDescriptorOfType_diverges_iff:
  "USB_GetNextDescriptorOfType mem ty p = None \<longleftrightarrow>
     \<not> well_sized mem p \<and> \<not> (\<exists>q\<in>set (descriptors mem p). DESCRIPTOR_TYPE mem (snd q) = ty) \<and>
     \<not> (DESCRIPTOR_SIZE mem (snd p) = 0 \<and> DESCRIPTOR_TYPE mem (snd p) = ty)"
  using of_type_stuck_diverges [of mem ty p] of_type_not_stuck_returns [of mem ty p]
  unfolding of_type_stuck_def by blast

end
