(* ===== verification/Circular_Bit_Buffer.thy ===== *)
theory Circular_Bit_Buffer
  imports Ring_Buffer
begin

text \<open>
  The circular buffer of single bits of the magnetic card reader (\<^verbatim>\<open>Projects/Magstripe/Lib/CircularBitBuffer.c\<close> and
  \<^verbatim>\<open>.h\<close>). A pointer into the array \<open>Data\<close> is an index. The buffer implements the contract \<open>bounded_fifo\<close> of the ring
  buffer, as long as no more bits are stored than fit; nothing in the code checks that.
\<close>

section \<open>The structure and its operations\<close>

record BitBufferPointer_t =
  CurrentByte :: nat
  ByteMask :: u8

record BitBuffer_t =
  bb_Data :: "u8 list"
  bb_Elements :: u16
  bb_In :: BitBufferPointer_t
  bb_Out :: BitBufferPointer_t

definition MAX_BITS :: nat where "MAX_BITS = 8192"

definition BitBuffer_Init :: "BitBuffer_t \<Rightarrow> BitBuffer_t" where
  "BitBuffer_Init Buffer = Buffer\<lparr>bb_Elements := 0, bb_In := \<lparr>CurrentByte = 0, ByteMask = bmask 0\<rparr>,
     bb_Out := \<lparr>CurrentByte = 0, ByteMask = bmask 0\<rparr>\<rparr>"

text \<open>Both operations move their pointer in the same way; \<open>n\<close> is \<open>sizeof(Buffer->Data)\<close>.\<close>

definition next_bit :: "nat \<Rightarrow> BitBufferPointer_t \<Rightarrow> BitBufferPointer_t" where
  "next_bit n p =
     (if ByteMask p = bmask 7
      then \<lparr>CurrentByte = (if CurrentByte p \<noteq> n - 1 then CurrentByte p + 1 else 0), ByteMask = bmask 0\<rparr>
      else p\<lparr>ByteMask := push_bit 1 (ByteMask p)\<rparr>)"

definition BitBuffer_StoreNextBit :: "bool \<Rightarrow> BitBuffer_t \<Rightarrow> BitBuffer_t" where
  "BitBuffer_StoreNextBit Bit Buffer =
     (let i = CurrentByte (bb_In Buffer);
          Buffer = (if Bit then Buffer\<lparr>bb_Data := (bb_Data Buffer)[i := bb_Data Buffer ! i OR ByteMask (bb_In Buffer)]\<rparr> else Buffer);
          Buffer = Buffer\<lparr>bb_Elements := bb_Elements Buffer + 1\<rparr>
      in Buffer\<lparr>bb_In := next_bit (length (bb_Data Buffer)) (bb_In Buffer)\<rparr>)"

definition BitBuffer_GetNextBit :: "BitBuffer_t \<Rightarrow> bool \<times> BitBuffer_t" where
  "BitBuffer_GetNextBit Buffer =
     (let i = CurrentByte (bb_Out Buffer); m = ByteMask (bb_Out Buffer);
          Bit = (bb_Data Buffer ! i AND m \<noteq> 0);
          Buffer = Buffer\<lparr>bb_Data := (bb_Data Buffer)[i := bb_Data Buffer ! i AND NOT m]\<rparr>;
          Buffer = Buffer\<lparr>bb_Elements := bb_Elements Buffer - 1\<rparr>
      in (Bit, Buffer\<lparr>bb_Out := next_bit (length (bb_Data Buffer)) (bb_Out Buffer)\<rparr>))"

section \<open>Positions in the buffer\<close>

definition mask_index :: "u8 \<Rightarrow> nat" where
  "mask_index m = length (takeWhile (\<lambda>k. \<not> bit m k) [0..<8])"

lemma bmask_cases: "k < 8 \<Longrightarrow> k = 0 \<or> k = 1 \<or> k = 2 \<or> k = 3 \<or> k = 4 \<or> k = 5 \<or> k = 6 \<or> k = (7::nat)"
  by auto

lemma mask_index_bmask: "k < 8 \<Longrightarrow> mask_index (bmask k) = k"
  by (drule bmask_cases) (auto simp: mask_index_def upt_rec numeral_eq_Suc)

lemma bmask_inject: "j < 8 \<Longrightarrow> k < 8 \<Longrightarrow> (bmask j :: u8) = bmask k \<longleftrightarrow> j = k"
  by (metis mask_index_bmask)

lemma push_bmask: "bmask k * 2 = (bmask (Suc k) :: u8)"
  by (simp add: bmask_def push_bit_double)

definition bp_pos :: "BitBufferPointer_t \<Rightarrow> nat" where
  "bp_pos p = 8 * CurrentByte p + mask_index (ByteMask p)"

definition bp_ok :: "nat \<Rightarrow> BitBufferPointer_t \<Rightarrow> bool" where
  "bp_ok n p \<longleftrightarrow> CurrentByte p < n \<and> (\<exists>k<8. ByteMask p = bmask k)"

lemma bp_pos_parts:
  assumes "bp_ok n p"
  shows "bp_pos p < 8 * n" "CurrentByte p = bp_pos p div 8" "ByteMask p = bmask (bp_pos p mod 8)"
  using assms by (auto simp: bp_ok_def bp_pos_def mask_index_bmask)

lemma next_bit_pos:
  assumes "bp_ok n p"
  shows "bp_ok n (next_bit n p)" "bp_pos (next_bit n p) = Suc (bp_pos p) mod (8 * n)"
proof -
  obtain k where k: "k < 8" "ByteMask p = bmask k" "CurrentByte p < n" using assms by (auto simp: bp_ok_def)
  show "bp_ok n (next_bit n p)"
    using k by (auto simp: bp_ok_def next_bit_def push_bmask bmask_inject intro: exI [of _ 0] exI [of _ "Suc k"])
  show "bp_pos (next_bit n p) = Suc (bp_pos p) mod (8 * n)"
  proof (cases "k = 7")
    case True
    then show ?thesis using k by (cases n) (auto simp: bp_pos_def next_bit_def mask_index_bmask)
  next
    case False
    then show ?thesis using k by (auto simp: bp_pos_def next_bit_def mask_index_bmask bmask_inject push_bmask)
  qed
qed

definition data_bit :: "u8 list \<Rightarrow> nat \<Rightarrow> bool" where
  "data_bit D i = bit (D ! (i div 8)) (i mod 8)"

lemma data_bit_update:
  assumes "i < 8 * length D" "j < 8 * length D"
  shows "data_bit (D[i div 8 := D ! (i div 8) OR bmask (i mod 8)]) j = (j = i \<or> data_bit D j)"
    "data_bit (D[i div 8 := D ! (i div 8) AND NOT (bmask (i mod 8))]) j = (j \<noteq> i \<and> data_bit D j)"
proof -
  have "i div 8 < length D" "j div 8 < length D" using assms by auto
  moreover have "j = i \<longleftrightarrow> j div 8 = i div 8 \<and> j mod 8 = i mod 8" by (metis div_mult_mod_eq)
  ultimately show "data_bit (D[i div 8 := D ! (i div 8) OR bmask (i mod 8)]) j = (j = i \<or> data_bit D j)"
    "data_bit (D[i div 8 := D ! (i div 8) AND NOT (bmask (i mod 8))]) j = (j \<noteq> i \<and> data_bit D j)"
    by (auto simp: data_bit_def nth_list_update bit_or_iff bit_and_iff bit_not_iff)
qed

section \<open>Invariant and abstraction\<close>

text \<open>What holds of every buffer, even one that is read when empty or written when full: the pointers stay within \<open>Data\<close> and
  select one bit each.\<close>

definition bb_type :: "BitBuffer_t \<Rightarrow> bool" where
  "bb_type b \<longleftrightarrow> 0 < length (bb_Data b) \<and> 8 * length (bb_Data b) < 2 ^ 16 \<and> bp_ok (length (bb_Data b)) (bb_In b) \<and>
     bp_ok (length (bb_Data b)) (bb_Out b)"

definition bb_slot :: "BitBuffer_t \<Rightarrow> nat \<Rightarrow> nat" where
  "bb_slot b i = (bp_pos (bb_Out b) + i) mod (8 * length (bb_Data b))"

text \<open>The positions that hold no bit are clear, since storing a zero does not write.\<close>

definition bb_inv :: "BitBuffer_t \<Rightarrow> bool" where
  "bb_inv b \<longleftrightarrow> bb_type b \<and> unat (bb_Elements b) \<le> 8 * length (bb_Data b) \<and> bp_pos (bb_In b) = bb_slot b (unat (bb_Elements b)) \<and>
     (\<forall>i. unat (bb_Elements b) \<le> i \<longrightarrow> i < 8 * length (bb_Data b) \<longrightarrow> \<not> data_bit (bb_Data b) (bb_slot b i))"

definition bb_contents :: "BitBuffer_t \<Rightarrow> bool list" where
  "bb_contents b = map (\<lambda>i. data_bit (bb_Data b) (bb_slot b i)) [0..<unat (bb_Elements b)]"

definition bb_full :: "BitBuffer_t \<Rightarrow> bool" where
  "bb_full b \<longleftrightarrow> unat (bb_Elements b) = 8 * length (bb_Data b)"

definition bb_empty :: "BitBuffer_t \<Rightarrow> bool" where
  "bb_empty b \<longleftrightarrow> bb_Elements b = 0"

lemma bb_slot_range: "bb_type b \<Longrightarrow> bb_slot b i < 8 * length (bb_Data b)"
  by (simp add: bb_slot_def bb_type_def)

lemma bb_slot_inj:
  "i < 8 * length (bb_Data b) \<Longrightarrow> j < 8 * length (bb_Data b) \<Longrightarrow> bb_slot b i = bb_slot b j \<longleftrightarrow> i = j"
  using ring_index_inj [of i "8 * length (bb_Data b)" j "bp_pos (bb_Out b)"] by (auto simp: bb_slot_def)

lemma BitBuffer_StoreNextBit_eq:
  assumes "bb_type b"
  shows "BitBuffer_StoreNextBit v b = b\<lparr>bb_Data := (if v then (bb_Data b)[bp_pos (bb_In b) div 8 := bb_Data b ! (bp_pos (bb_In b) div 8)
      OR bmask (bp_pos (bb_In b) mod 8)] else bb_Data b), bb_Elements := bb_Elements b + 1, bb_In := next_bit (length (bb_Data b)) (bb_In b)\<rparr>"
  using bp_pos_parts(2,3) [of "length (bb_Data b)" "bb_In b"] assms
  by (simp add: BitBuffer_StoreNextBit_def bb_type_def Let_def)

lemma BitBuffer_GetNextBit_eq:
  assumes "bb_type b"
  shows "BitBuffer_GetNextBit b = (data_bit (bb_Data b) (bb_slot b 0),
     b\<lparr>bb_Data := (bb_Data b)[bp_pos (bb_Out b) div 8 := bb_Data b ! (bp_pos (bb_Out b) div 8) AND NOT (bmask (bp_pos (bb_Out b) mod 8))],
       bb_Elements := bb_Elements b - 1, bb_Out := next_bit (length (bb_Data b)) (bb_Out b)\<rparr>)"
proof -
  have ok: "bp_ok (length (bb_Data b)) (bb_Out b)" using assms by (simp add: bb_type_def)
  note p = bp_pos_parts [OF ok]
  have "bb_slot b 0 = bp_pos (bb_Out b)" using p(1) by (simp add: bb_slot_def)
  then show ?thesis
    using p by (simp add: BitBuffer_GetNextBit_def Let_def data_bit_def)
qed

lemma bb_type_ops:
  assumes "bb_type b"
  shows "bb_type (BitBuffer_StoreNextBit v b)" "bb_type (snd (BitBuffer_GetNextBit b))"
    "length (bb_Data (BitBuffer_StoreNextBit v b)) = length (bb_Data b)" "length (bb_Data (snd (BitBuffer_GetNextBit b))) = length (bb_Data b)"
  using assms next_bit_pos(1) by (simp_all add: BitBuffer_StoreNextBit_eq BitBuffer_GetNextBit_eq bb_type_def)

lemma bb_store:
  assumes inv: "bb_inv b" and "\<not> bb_full b"
  shows "bb_inv (BitBuffer_StoreNextBit v b)" "bb_contents (BitBuffer_StoreNextBit v b) = bb_contents b @ [v]"
proof -
  let ?N = "8 * length (bb_Data b)" and ?e = "unat (bb_Elements b)" and ?b = "BitBuffer_StoreNextBit v b"
  have ty: "bb_type b" and e: "?e < ?N" and pos: "bp_pos (bb_In b) = bb_slot b ?e"
    and clear: "\<And>i. ?e \<le> i \<Longrightarrow> i < ?N \<Longrightarrow> \<not> data_bit (bb_Data b) (bb_slot b i)"
    using assms by (auto simp: bb_inv_def bb_full_def)
  have "?N < 2 ^ 16" using ty by (simp add: bb_type_def)
  then have el: "unat (bb_Elements b + 1) = Suc ?e" using e by (simp add: unat_word_ariths)
  have slot: "bb_slot ?b i = bb_slot b i" for i using ty by (simp add: BitBuffer_StoreNextBit_eq bb_slot_def)
  have len: "length (bb_Data ?b) = length (bb_Data b)" "bb_Elements ?b = bb_Elements b + 1"
    using ty by (simp_all add: BitBuffer_StoreNextBit_eq)
  have bits: "data_bit (bb_Data ?b) (bb_slot b i) \<longleftrightarrow> (if i = ?e then v else data_bit (bb_Data b) (bb_slot b i))" if "i < ?N" for i
    using that ty e pos clear [of ?e] bb_slot_range [OF ty] bb_slot_inj [of i b ?e]
    by (auto simp: BitBuffer_StoreNextBit_eq data_bit_update)
  have "bp_pos (bb_In ?b) = bb_slot b (Suc ?e)"
    using ty next_bit_pos(2) [of "length (bb_Data b)" "bb_In b"] pos
    by (simp add: BitBuffer_StoreNextBit_eq bb_type_def bb_slot_def mod_Suc_eq)
  then show "bb_inv ?b"
    using bb_type_ops(1) [OF ty] e bits clear by (auto simp: bb_inv_def slot len el)
  show "bb_contents ?b = bb_contents b @ [v]"
    using e bits by (auto simp: bb_contents_def slot len el)
qed

lemma bb_get:
  assumes inv: "bb_inv b" and "\<not> bb_empty b"
  shows "bb_inv (snd (BitBuffer_GetNextBit b))" "bb_contents b = fst (BitBuffer_GetNextBit b) # bb_contents (snd (BitBuffer_GetNextBit b))"
proof -
  let ?N = "8 * length (bb_Data b)" and ?e = "unat (bb_Elements b)" and ?b = "snd (BitBuffer_GetNextBit b)"
  have ty: "bb_type b" and e: "0 < ?e" "?e \<le> ?N" and pos: "bp_pos (bb_In b) = bb_slot b ?e"
    and clear: "\<And>i. ?e \<le> i \<Longrightarrow> i < ?N \<Longrightarrow> \<not> data_bit (bb_Data b) (bb_slot b i)"
    using assms by (auto simp: bb_inv_def bb_empty_def unat_gt_0)
  have nonempty: "bb_Data b \<noteq> []" using ty by (auto simp: bb_type_def)
  have el: "unat (bb_Elements b - 1) = ?e - 1" using unat_pred_word [OF e(1)] .
  have ok: "bp_ok (length (bb_Data b)) (bb_Out b)" using ty by (simp add: bb_type_def)
  have out: "bp_pos (bb_Out b) = bb_slot b 0" using bp_pos_parts(1) [OF ok] by (simp add: bb_slot_def)
  have slot: "bb_slot ?b i = bb_slot b (Suc i)" for i
    using ty next_bit_pos(2) [OF ok] by (simp add: BitBuffer_GetNextBit_eq bb_slot_def mod_add_left_eq)
  have len: "length (bb_Data ?b) = length (bb_Data b)" "bb_Elements ?b = bb_Elements b - 1" "bb_In ?b = bb_In b"
    using ty by (simp_all add: BitBuffer_GetNextBit_eq)
  have bits: "data_bit (bb_Data ?b) (bb_slot b i) \<longleftrightarrow> i \<noteq> 0 \<and> data_bit (bb_Data b) (bb_slot b i)" if "i < ?N" for i
    using that ty e bb_slot_range [OF ty] bb_slot_inj [of i b 0] nonempty
    by (auto simp: BitBuffer_GetNextBit_eq data_bit_update out)
  have wrap: "bb_slot b ?N = bb_slot b 0" by (simp add: bb_slot_def)
  show "bb_inv ?b"
    unfolding bb_inv_def
  proof (intro conjI allI impI)
    fix i assume i: "unat (bb_Elements ?b) \<le> i" "i < 8 * length (bb_Data ?b)"
    show "\<not> data_bit (bb_Data ?b) (bb_slot ?b i)"
      using i e bits [of "Suc i"] bits [of 0] clear [of "Suc i"] wrap nonempty
      by (cases "Suc i = ?N") (simp_all add: slot len el)
  qed (use bb_type_ops(2) [OF ty] e pos in \<open>simp_all add: len slot el\<close>)
  have "[0..<?e] = 0 # map Suc [0..<?e - 1]" using e(1) by (cases ?e) (simp_all add: upt_conv_Cons map_Suc_upt del: upt_Suc)
  moreover have "fst (BitBuffer_GetNextBit b) = data_bit (bb_Data b) (bb_slot b 0)" using ty by (simp add: BitBuffer_GetNextBit_eq)
  ultimately show "bb_contents b = fst (BitBuffer_GetNextBit b) # bb_contents ?b"
    using e bits by (simp add: bb_contents_def slot len el)
qed

interpretation bits: bounded_fifo BitBuffer_StoreNextBit BitBuffer_GetNextBit bb_full bb_empty bb_inv bb_contents
  by unfold_locales (simp_all add: bb_store bb_get)

text \<open>A buffer that is initialised while its array is clear is empty.\<close>

lemma bb_Init:
  assumes "0 < length (bb_Data b)" "8 * length (bb_Data b) < 2 ^ 16"
  shows "bb_type (BitBuffer_Init b)" "set (bb_Data b) \<subseteq> {0} \<Longrightarrow> bb_inv (BitBuffer_Init b)" "bb_contents (BitBuffer_Init b) = []"
proof -
  show ty: "bb_type (BitBuffer_Init b)" using assms by (auto simp: bb_type_def BitBuffer_Init_def bp_ok_def intro: exI [of _ 0])
  have "bb_Data b ! i = 0" if "set (bb_Data b) \<subseteq> {0}" "i < length (bb_Data b)" for i
    using that nth_mem by blast
  then have "\<not> data_bit (bb_Data b) j" if "set (bb_Data b) \<subseteq> {0}" "j < 8 * length (bb_Data b)" for j
    using that by (simp add: data_bit_def less_mult_imp_div_less mult.commute)
  with ty bb_slot_range [OF ty] show "bb_inv (BitBuffer_Init b)" if "set (bb_Data b) \<subseteq> {0}"
    using that by (auto simp: bb_inv_def BitBuffer_Init_def bb_slot_def bp_pos_def mask_index_bmask)
  show "bb_contents (BitBuffer_Init b) = []" by (simp add: bb_contents_def BitBuffer_Init_def)
qed

text \<open>The array is not cleared by the initialisation: a bit left over from before shows through a zero stored at its place.\<close>

lemma BitBuffer_Init_keeps_stale_bits:
  assumes "bb_Data b \<noteq> []" "data_bit (bb_Data b) 0"
  shows "fst (BitBuffer_GetNextBit (BitBuffer_StoreNextBit False (BitBuffer_Init b)))"
  using assms by (simp add: BitBuffer_GetNextBit_def BitBuffer_StoreNextBit_def BitBuffer_Init_def data_bit_def Let_def)

section \<open>The operations without any guard\<close>

primrec bb_call :: "bool fifo_op \<Rightarrow> BitBuffer_t \<Rightarrow> BitBuffer_t" where
  "bb_call (Put v) b = BitBuffer_StoreNextBit v b"
| "bb_call Get b = snd (BitBuffer_GetNextBit b)"

text \<open>C35. Whatever bits are stored and retrieved after the initialisation, even beyond the capacity of the buffer or from an empty
  one, the size of the array does not change, both pointers stay within it and each mask selects exactly one bit of its byte.\<close>

theorem BitBuffer_well_typed:
  assumes "length (bb_Data b) = MAX_BITS div 8"
  shows "let b' = fold bb_call ops (BitBuffer_Init b)
    in length (bb_Data b') = MAX_BITS div 8 \<and> CurrentByte (bb_In b') < MAX_BITS div 8 \<and> CurrentByte (bb_Out b') < MAX_BITS div 8 \<and>
       (\<exists>k<8. ByteMask (bb_In b') = bmask k) \<and> (\<exists>k<8. ByteMask (bb_Out b') = bmask k)"
proof -
  have step: "bb_type b' \<and> length (bb_Data b') = MAX_BITS div 8 \<Longrightarrow> bb_type (bb_call x b') \<and> length (bb_Data (bb_call x b')) = MAX_BITS div 8"
    for x b' by (cases x) (simp_all add: bb_type_ops)
  have "bb_type b' \<and> length (bb_Data b') = MAX_BITS div 8 \<Longrightarrow> bb_type (fold bb_call ops b') \<and> length (bb_Data (fold bb_call ops b')) = MAX_BITS div 8"
    for b' using step by (induction ops arbitrary: b') auto
  moreover have "bb_type (BitBuffer_Init b)" using bb_Init(1) [of b] assms by (simp add: MAX_BITS_def)
  moreover have "length (bb_Data (BitBuffer_Init b)) = MAX_BITS div 8" using assms by (simp add: BitBuffer_Init_def)
  ultimately have "bb_type (fold bb_call ops (BitBuffer_Init b))" "length (bb_Data (fold bb_call ops (BitBuffer_Init b))) = MAX_BITS div 8"
    by blast+
  then show ?thesis by (simp add: Let_def bb_type_def bp_ok_def)
qed

definition zero_buffer :: BitBuffer_t where
  "zero_buffer = \<lparr>bb_Data = replicate (MAX_BITS div 8) 0, bb_Elements = 0, bb_In = \<lparr>CurrentByte = 0, ByteMask = 0\<rparr>,
     bb_Out = \<lparr>CurrentByte = 0, ByteMask = 0\<rparr>\<rparr>"

theorem BitBuffer_well_typed_witness:
  "CurrentByte (bb_Out (fold bb_call [Get, Put True, Get, Get] (BitBuffer_Init zero_buffer))) < 1024"
  using BitBuffer_well_typed [of zero_buffer "[Get, Put True, Get, Get]"] unfolding Let_def by (simp add: zero_buffer_def MAX_BITS_def)

end
