(* ===== verification/Magstripe.thy ===== *)
theory Magstripe
  imports Circular_Bit_Buffer
begin

text \<open>
  The magnetic card reader (\<^verbatim>\<open>Projects/Magstripe/Magstripe.c\<close>): a swipe fills one bit buffer per track, and the keyboard
  reports type their contents. The pin is volatile: its successive values are a list, one element per read. The arrays of the
  program are lists, the pointer \<open>CurrentTrackBuffer\<close> is an index, and the \<open>static\<close> local of the callback is a field of the state.
\<close>

abbreviation (input) TOTAL_TRACKS :: nat where "TOTAL_TRACKS \<equiv> 3"
abbreviation (input) KEY_NONE :: u8 where "KEY_NONE \<equiv> 0"
abbreviation (input) KEY_1 :: u8 where "KEY_1 \<equiv> 30"
abbreviation (input) KEY_0 :: u8 where "KEY_0 \<equiv> 39"
abbreviation (input) KEY_ENTER :: u8 where "KEY_ENTER \<equiv> 40"
abbreviation (input) MAG_T1_CLOCK :: u8 where "MAG_T1_CLOCK \<equiv> bmask 0"
abbreviation (input) MAG_T1_DATA :: u8 where "MAG_T1_DATA \<equiv> bmask 1"
abbreviation (input) MAG_T2_CLOCK :: u8 where "MAG_T2_CLOCK \<equiv> bmask 2"
abbreviation (input) MAG_T2_DATA :: u8 where "MAG_T2_DATA \<equiv> bmask 3"
abbreviation (input) MAG_T3_CLOCK :: u8 where "MAG_T3_CLOCK \<equiv> bmask 4"
abbreviation (input) MAG_T3_DATA :: u8 where "MAG_T3_DATA \<equiv> bmask 5"
abbreviation (input) MAG_CARDPRESENT :: u8 where "MAG_CARDPRESENT \<equiv> bmask 6"
abbreviation (input) MAG_MASK :: u8 where
  "MAG_MASK \<equiv> MAG_T1_DATA OR MAG_T1_CLOCK OR MAG_T2_DATA OR MAG_T2_CLOCK OR MAG_T3_DATA OR MAG_T3_CLOCK OR MAG_CARDPRESENT"

section \<open>The program\<close>

record magstripe =
  TrackDataBuffers :: "BitBuffer_t list"
  CurrentTrackBuffer :: nat
  IsKeyReleaseReport :: bool

text \<open>The state at the start of the main loop: the static variables, with the buffers initialised.\<close>

definition magstripe_main :: magstripe where
  "magstripe_main = \<lparr>TrackDataBuffers = map BitBuffer_Init (replicate TOTAL_TRACKS zero_buffer),
     CurrentTrackBuffer = TOTAL_TRACKS, IsKeyReleaseReport = False\<rparr>"

definition Magstripe_GetStatus :: "u8 \<Rightarrow> u8" where
  "Magstripe_GetStatus pin = NOT pin AND MAG_MASK"

definition TrackInfo :: "(u8 \<times> u8) list" where
  "TrackInfo = [(MAG_T1_CLOCK, MAG_T1_DATA), (MAG_T2_CLOCK, MAG_T2_DATA), (MAG_T3_CLOCK, MAG_T3_DATA)]"

definition sample_track :: "u8 \<Rightarrow> u8 \<Rightarrow> nat \<Rightarrow> BitBuffer_t list \<Rightarrow> BitBuffer_t list" where
  "sample_track LCL Prev Track Buffers =
     (let (ClockMask, DataMask) = TrackInfo ! Track;
          DataPinLevel = (LCL AND DataMask \<noteq> 0);
          ClockPinLevel = (LCL AND ClockMask \<noteq> 0);
          ClockLevelChanged = ((LCL XOR Prev) AND ClockMask \<noteq> 0)
      in if ClockPinLevel \<and> ClockLevelChanged
         then Buffers[Track := BitBuffer_StoreNextBit DataPinLevel (Buffers ! Track)] else Buffers)"

text \<open>The loop while a card is present; \<open>None\<close> if the values of the pin end before the card is gone.\<close>

fun read_loop :: "u8 \<Rightarrow> u8 list \<Rightarrow> BitBuffer_t list \<Rightarrow> (BitBuffer_t list \<times> u8 list) option" where
  "read_loop Prev [] Buffers = None"
| "read_loop Prev (pin # pins) Buffers =
     (let LCL = Magstripe_GetStatus pin
      in if LCL AND MAG_CARDPRESENT \<noteq> 0
         then read_loop LCL pins (fold (sample_track LCL Prev) [0..<TOTAL_TRACKS] Buffers)
         else Some (Buffers, pins))"

definition ReadMagstripeData :: "u8 list \<Rightarrow> magstripe \<Rightarrow> (magstripe \<times> u8 list) option" where
  "ReadMagstripeData pins m = do {
     (Buffers, pins) \<leftarrow> read_loop 0 pins (TrackDataBuffers m);
     Some (m\<lparr>TrackDataBuffers := Buffers, CurrentTrackBuffer := 0\<rparr>, pins) }"

text \<open>The callback returns whether to force the report, the report (its key code is byte 2), its size and the new state.\<close>

definition CALLBACK_HID_Device_CreateHIDReport :: "u8 list \<Rightarrow> magstripe \<Rightarrow> bool \<times> u8 list \<times> u16 \<times> magstripe" where
  "CALLBACK_HID_Device_CreateHIDReport ReportData m =
     (let m = m\<lparr>IsKeyReleaseReport := \<not> IsKeyReleaseReport m\<rparr>;
          Buffer = TrackDataBuffers m ! CurrentTrackBuffer m;
          (key, m) =
            (if IsKeyReleaseReport m \<or> CurrentTrackBuffer m = TOTAL_TRACKS then (KEY_NONE, m)
             else if bb_Elements Buffer = 0 then (KEY_ENTER, m\<lparr>CurrentTrackBuffer := CurrentTrackBuffer m + 1\<rparr>)
             else let (Bit, Buffer) = BitBuffer_GetNextBit Buffer
                  in (if Bit then KEY_1 else KEY_0, m\<lparr>TrackDataBuffers := (TrackDataBuffers m)[CurrentTrackBuffer m := Buffer]\<rparr>))
      in (False, ReportData[2 := key], 8, m))"

section \<open>Reading a card\<close>

text \<open>The bits a track gives: the level of the data line at each rising edge of the clock line.\<close>

fun rising_bits :: "u8 \<times> u8 \<Rightarrow> u8 \<Rightarrow> u8 list \<Rightarrow> bool list" where
  "rising_bits (c, d) prev [] = []"
| "rising_bits (c, d) prev (l # ls) =
     (if prev AND c = 0 \<and> l AND c \<noteq> 0 then [l AND d \<noteq> 0] else []) @ rising_bits (c, d) l ls"

definition track_bits :: "u8 list \<Rightarrow> nat \<Rightarrow> bool list" where
  "track_bits pins t = rising_bits (TrackInfo ! t) 0 (map Magstripe_GetStatus pins)"

lemma rising_edge:
  assumes "c = bmask k" "k < 8"
  shows "l AND c \<noteq> 0 \<and> (l XOR prev) AND c \<noteq> 0 \<longleftrightarrow> prev AND c = 0 \<and> l AND c \<noteq> (0 :: u8)"
  using assms by (auto simp: bit_xor_iff)

text \<open>\<open>holds C Buffers\<close>: the buffer of each track \<open>t\<close> holds the bits \<open>C t\<close>.\<close>

definition holds :: "(nat \<Rightarrow> bool list) \<Rightarrow> BitBuffer_t list \<Rightarrow> bool" where
  "holds C Buffers \<longleftrightarrow> length Buffers = TOTAL_TRACKS \<and> (\<forall>t<TOTAL_TRACKS. bb_inv (Buffers ! t) \<and>
     length (bb_Data (Buffers ! t)) = MAX_BITS div 8 \<and> bb_contents (Buffers ! t) = C t)"

definition edge_bits :: "nat \<Rightarrow> u8 \<Rightarrow> u8 \<Rightarrow> bool list" where
  "edge_bits t prev l = rising_bits (TrackInfo ! t) prev [l]"

lemma rising_bits_Cons: "rising_bits i prev (l # ls) = rising_bits i prev [l] @ rising_bits i l ls"
  by (cases i) simp

lemma holds_sample:
  assumes "holds C Buffers" "t < TOTAL_TRACKS" "length (C t @ edge_bits t Prev LCL) \<le> MAX_BITS"
  shows "holds (C(t := C t @ edge_bits t Prev LCL)) (sample_track LCL Prev t Buffers)"
proof -
  obtain k d where k: "TrackInfo ! t = (bmask k, d)" "k < 8"
    using assms(2) by (auto simp: TrackInfo_def less_Suc_eq numeral_eq_Suc)
  have b: "bb_inv (Buffers ! t)" "length (bb_Data (Buffers ! t)) = MAX_BITS div 8" "bb_contents (Buffers ! t) = C t"
    using assms(1,2) by (auto simp: holds_def)
  have "length (C t) = unat (bb_Elements (Buffers ! t))" unfolding b(3) [symmetric] by (simp add: bb_contents_def)
  then have "\<not> bb_full (Buffers ! t)" if "length (C t) < MAX_BITS"
    using that b(2) by (simp add: bb_full_def MAX_BITS_def)
  then show ?thesis
    using assms b k(2) rising_edge [OF refl k(2), of LCL Prev] bb_store [OF b(1)] bb_type_ops(3) [of "Buffers ! t"]
    by (auto simp: holds_def sample_track_def k(1) edge_bits_def nth_list_update bb_inv_def Let_def)
qed

lemma holds_samples:
  assumes "holds C Buffers" "\<forall>t<TOTAL_TRACKS. length (C t @ edge_bits t Prev LCL) \<le> MAX_BITS"
  shows "holds (\<lambda>t. C t @ edge_bits t Prev LCL) (fold (sample_track LCL Prev) [0..<TOTAL_TRACKS] Buffers)"
proof -
  let ?e = "\<lambda>t. C t @ edge_bits t Prev LCL"
  have "holds (\<lambda>t. if t < n then ?e t else C t) (fold (sample_track LCL Prev) [0..<n] Buffers)" if "n \<le> TOTAL_TRACKS" for n
    using that
  proof (induction n)
    case 0
    then show ?case using assms(1) by simp
  next
    case (Suc n)
    have "holds ((\<lambda>t. if t < n then ?e t else C t)(n := ?e n)) (sample_track LCL Prev n (fold (sample_track LCL Prev) [0..<n] Buffers))"
      using holds_sample [of "\<lambda>t. if t < n then ?e t else C t" "fold (sample_track LCL Prev) [0..<n] Buffers" n Prev LCL] Suc assms(2) by simp
    moreover have "(\<lambda>t. if t < n then ?e t else C t)(n := ?e n) = (\<lambda>t. if t < Suc n then ?e t else C t)"
      by (auto simp: fun_eq_iff less_Suc_eq)
    ultimately show ?case by simp
  qed
  from this [of TOTAL_TRACKS] show ?thesis by (auto simp: holds_def)
qed

lemma read_loop_samples:
  assumes "holds C Buffers" "\<forall>p\<in>set ps. Magstripe_GetStatus p AND MAG_CARDPRESENT \<noteq> 0" "Magstripe_GetStatus p AND MAG_CARDPRESENT = 0"
    and "\<forall>t<TOTAL_TRACKS. length (C t @ rising_bits (TrackInfo ! t) Prev (map Magstripe_GetStatus ps)) \<le> MAX_BITS"
  shows "\<exists>Buffers'. read_loop Prev (ps @ p # pins) Buffers = Some (Buffers', pins) \<and>
    holds (\<lambda>t. C t @ rising_bits (TrackInfo ! t) Prev (map Magstripe_GetStatus ps)) Buffers'"
  using assms
proof (induction ps arbitrary: C Buffers Prev)
  case Nil
  have "rising_bits i Prev [] = []" for i by (cases i) simp
  with Nil show ?case by simp
next
  case (Cons a ps)
  let ?l = "Magstripe_GetStatus a"
  let ?C = "\<lambda>t. C t @ edge_bits t Prev ?l"
  have split: "rising_bits (TrackInfo ! t) Prev (?l # map Magstripe_GetStatus ps) = edge_bits t Prev ?l @ rising_bits (TrackInfo ! t) ?l (map Magstripe_GetStatus ps)" for t
    by (simp add: edge_bits_def rising_bits_Cons [of _ _ _ "map Magstripe_GetStatus ps"])
  have "holds ?C (fold (sample_track ?l Prev) [0..<TOTAL_TRACKS] Buffers)"
    by (rule holds_samples [OF Cons.prems(1)]) (use Cons.prems(4) in \<open>auto simp: split\<close>)
  from Cons.IH [OF this, of ?l] Cons.prems show ?case
    by (simp add: split Let_def)
qed

section \<open>Typing it\<close>

text \<open>The key codes of the next \<open>n\<close> reports.\<close>

fun typed :: "nat \<Rightarrow> magstripe \<Rightarrow> u8 list \<times> magstripe" where
  "typed 0 m = ([], m)"
| "typed (Suc n) m =
     (let (force, report, len, m) = CALLBACK_HID_Device_CreateHIDReport (replicate 8 0) m; (keys, m) = typed n m
      in (report ! 2 # keys, m))"

definition press :: "u8 list \<Rightarrow> u8 list" where
  "press ks = concat (map (\<lambda>k. [KEY_NONE, k]) ks)"

definition bit_key :: "bool \<Rightarrow> u8" where
  "bit_key b = (if b then KEY_1 else KEY_0)"

lemma press_simps [simp]: "press [] = []" "press (k # ks) = KEY_NONE # k # press ks" "press (ks @ ks') = press ks @ press ks'"
  by (simp_all add: press_def)

lemma typed_add: "typed (m + n) s = (let (ks, s') = typed m s; (ks', s'') = typed n s' in (ks @ ks', s''))"
  by (induction m arbitrary: s) (auto simp: Let_def split: prod.splits)

lemma typed_release: "\<not> IsKeyReleaseReport m \<Longrightarrow> typed (Suc n) m =
    (let (ks, m') = typed n (m\<lparr>IsKeyReleaseReport := True\<rparr>) in (KEY_NONE # ks, m'))"
  by (simp add: CALLBACK_HID_Device_CreateHIDReport_def)

text \<open>The reports for one track: a key for each bit, then enter.\<close>

lemma typed_track:
  assumes "holds C (TrackDataBuffers m)" "CurrentTrackBuffer m = t" "t < TOTAL_TRACKS" "\<not> IsKeyReleaseReport m" "C t = bs"
  shows "\<exists>m'. typed (2 * Suc (length bs)) m = (press (map bit_key bs @ [KEY_ENTER]), m') \<and> holds (C(t := [])) (TrackDataBuffers m') \<and>
    CurrentTrackBuffer m' = Suc t \<and> \<not> IsKeyReleaseReport m'"
  using assms
proof (induction bs arbitrary: C m)
  case Nil
  let ?b = "TrackDataBuffers m ! t"
  have "unat (bb_Elements ?b) = length (bb_contents ?b)" by (simp add: bb_contents_def)
  then have "bb_Elements ?b = 0" using Nil by (simp add: holds_def unat_eq_zero)
  with Nil show ?case
    by (auto simp: numeral_2_eq_2 CALLBACK_HID_Device_CreateHIDReport_def holds_def)
next
  case (Cons v bs)
  let ?b = "TrackDataBuffers m ! t"
  have b: "bb_inv ?b" "bb_contents ?b = v # bs" "length (bb_Data ?b) = MAX_BITS div 8" using Cons.prems by (auto simp: holds_def)
  have "unat (bb_Elements ?b) = length (bb_contents ?b)" by (simp add: bb_contents_def)
  then have ne: "\<not> bb_empty ?b" "bb_Elements ?b \<noteq> 0" using b(2) by (auto simp: bb_empty_def)
  obtain b' where g: "BitBuffer_GetNextBit ?b = (v, b')" "bb_inv b'" "bb_contents b' = bs" "length (bb_Data b') = MAX_BITS div 8"
    using bb_get [OF b(1) ne(1)] b bb_type_ops(4) [of ?b] by (cases "BitBuffer_GetNextBit ?b") (auto simp: bb_inv_def)
  let ?m = "m\<lparr>IsKeyReleaseReport := False, TrackDataBuffers := (TrackDataBuffers m)[t := b']\<rparr>"
  have h: "holds (C(t := bs)) (TrackDataBuffers ?m)"
    using Cons.prems(1,3) g by (auto simp: holds_def nth_list_update)
  have "\<exists>m'. typed (2 * Suc (length bs)) ?m = (press (map bit_key bs @ [KEY_ENTER]), m') \<and>
      holds ((C(t := bs))(t := [])) (TrackDataBuffers m') \<and> CurrentTrackBuffer m' = Suc t \<and> \<not> IsKeyReleaseReport m'"
    using Cons.prems(2-4) by (intro Cons.IH [OF h]) simp_all
  then obtain m' where m': "typed (2 * Suc (length bs)) ?m = (press (map bit_key bs @ [KEY_ENTER]), m')"
      "holds (C(t := [])) (TrackDataBuffers m')" "CurrentTrackBuffer m' = Suc t" "\<not> IsKeyReleaseReport m'"
    unfolding fun_upd_upd by blast
  have "typed (Suc (Suc (2 * Suc (length bs)))) m = (let (ks, m'') = typed (2 * Suc (length bs)) ?m in (KEY_NONE # bit_key v # ks, m''))"
    using Cons.prems g(1) ne(2) 
    by (simp add: typed.simps(2) [of "Suc _" m] typed.simps(2) [of "2 * Suc (length bs)"] CALLBACK_HID_Device_CreateHIDReport_def bit_key_def
        del: typed.simps mult_Suc_right split: prod.splits)
  with m' show ?case by (simp add: fun_upd_def)
qed

text \<open>C36. What is typed is what was swiped. While the card is in, each track's bits are the levels of its data line at the rising
  edges of its clock line; if no track has more than \<open>MAX_BITS\<close> of them, the reports after the swipe press, for each track in turn,
  the key of each of its bits in order and then enter, each preceded by a report that releases all keys; afterwards all buffers are
  empty and no track is left to send.\<close>

theorem Magstripe_types_card:
  assumes "\<forall>p\<in>set ps. Magstripe_GetStatus p AND MAG_CARDPRESENT \<noteq> 0" and "Magstripe_GetStatus p AND MAG_CARDPRESENT = 0"
    and "\<forall>t<TOTAL_TRACKS. length (track_bits ps t) \<le> MAX_BITS"
  shows "\<exists>m m'. ReadMagstripeData (ps @ p # pins) magstripe_main = Some (m, pins) \<and>
    typed (2 * (length (track_bits ps 0) + length (track_bits ps 1) + length (track_bits ps 2) + TOTAL_TRACKS)) m =
      (press (map bit_key (track_bits ps 0) @ [KEY_ENTER] @ map bit_key (track_bits ps 1) @ [KEY_ENTER] @
         map bit_key (track_bits ps 2) @ [KEY_ENTER]), m') \<and>
    CurrentTrackBuffer m' = TOTAL_TRACKS \<and> (\<forall>b\<in>set (TrackDataBuffers m'). bb_contents b = [])"
proof -
  have zb: "length (bb_Data zero_buffer) = MAX_BITS div 8" "set (bb_Data zero_buffer) \<subseteq> {0}" by (simp_all add: zero_buffer_def MAX_BITS_def)
  then have init: "bb_inv (BitBuffer_Init zero_buffer)" "bb_contents (BitBuffer_Init zero_buffer) = []"
    by (simp_all add: bb_Init MAX_BITS_def)
  have "holds (\<lambda>_. []) (TrackDataBuffers magstripe_main)"
    using init zb(1) by (simp add: holds_def magstripe_main_def BitBuffer_Init_def [of zero_buffer])
  from read_loop_samples [OF this assms(1,2), of 0 pins] obtain bs where
    bs: "read_loop 0 (ps @ p # pins) (TrackDataBuffers magstripe_main) = Some (bs, pins)" "holds (track_bits ps) bs"
    using assms(3) by (auto simp: track_bits_def [abs_def])
  let ?m = "magstripe_main\<lparr>TrackDataBuffers := bs, CurrentTrackBuffer := 0\<rparr>"
  let ?C = "track_bits ps"
  have "\<exists>m'. typed (2 * Suc (length (?C 0))) ?m = (press (map bit_key (?C 0) @ [KEY_ENTER]), m') \<and>
      holds (?C(0 := [])) (TrackDataBuffers m') \<and> CurrentTrackBuffer m' = Suc 0 \<and> \<not> IsKeyReleaseReport m'"
    using bs(2) by (intro typed_track) (simp_all add: magstripe_main_def)
  then obtain m1 where m1: "typed (2 * Suc (length (?C 0))) ?m = (press (map bit_key (?C 0) @ [KEY_ENTER]), m1)"
      "holds (?C(0 := [])) (TrackDataBuffers m1)" "CurrentTrackBuffer m1 = Suc 0" "\<not> IsKeyReleaseReport m1"
    by blast
  have "\<exists>m'. typed (2 * Suc (length (?C (Suc 0)))) m1 = (press (map bit_key (?C (Suc 0)) @ [KEY_ENTER]), m') \<and>
      holds (?C(0 := [], Suc 0 := [])) (TrackDataBuffers m') \<and> CurrentTrackBuffer m' = Suc (Suc 0) \<and> \<not> IsKeyReleaseReport m'"
    by (rule typed_track [OF m1(2,3) _ m1(4)]) simp_all
  then obtain m2 where m2: "typed (2 * Suc (length (?C (Suc 0)))) m1 = (press (map bit_key (?C (Suc 0)) @ [KEY_ENTER]), m2)"
      "holds (?C(0 := [], Suc 0 := [])) (TrackDataBuffers m2)" "CurrentTrackBuffer m2 = Suc (Suc 0)" "\<not> IsKeyReleaseReport m2"
    by blast
  have "\<exists>m'. typed (2 * Suc (length (?C (Suc (Suc 0))))) m2 = (press (map bit_key (?C (Suc (Suc 0))) @ [KEY_ENTER]), m') \<and>
      holds (?C(0 := [], Suc 0 := [], Suc (Suc 0) := [])) (TrackDataBuffers m') \<and> CurrentTrackBuffer m' = Suc (Suc (Suc 0)) \<and> \<not> IsKeyReleaseReport m'"
    by (rule typed_track [OF m2(2,3) _ m2(4)]) simp_all
  then obtain m3 where m3: "typed (2 * Suc (length (?C (Suc (Suc 0))))) m2 = (press (map bit_key (?C (Suc (Suc 0))) @ [KEY_ENTER]), m3)"
      "holds (?C(0 := [], Suc 0 := [], Suc (Suc 0) := [])) (TrackDataBuffers m3)" "CurrentTrackBuffer m3 = TOTAL_TRACKS"
    by (auto simp del: typed.simps)
  have tracks: "?C 2 = ?C (Suc (Suc 0))" "?C 1 = ?C (Suc 0)" by (simp_all only: numeral_2_eq_2 One_nat_def)
  have "2 * (length (?C 0) + length (?C 1) + length (?C 2) + TOTAL_TRACKS) =
      2 * Suc (length (?C 0)) + (2 * Suc (length (?C (Suc 0))) + 2 * Suc (length (?C (Suc (Suc 0)))))" unfolding tracks by simp
  then have ty: "typed (2 * (length (?C 0) + length (?C 1) + length (?C 2) + TOTAL_TRACKS)) ?m = (press (map bit_key (?C 0) @ [KEY_ENTER] @
      map bit_key (?C (Suc 0)) @ [KEY_ENTER] @ map bit_key (?C (Suc (Suc 0))) @ [KEY_ENTER]), m3)"
    by (simp only: typed_add m1(1) m2(1) m3(1) Let_def prod.case press_simps append_assoc append.simps)
  have "\<forall>b\<in>set (TrackDataBuffers m3). bb_contents b = []"
    using m3(2) by (auto simp: holds_def in_set_conv_nth less_Suc_eq numeral_3_eq_3)
  with ty m3(3) show ?thesis
    using bs(1) by (intro exI [of _ ?m] exI [of _ m3]) (simp only: ReadMagstripeData_def tracks bind.bind_lunit prod.case simp_thms)
qed

theorem Magstripe_types_card_witness:
  "\<exists>m m'. ReadMagstripeData [0xBF, 0xBC, 0xBF, 0xBE, 0xFF] magstripe_main = Some (m, []) \<and>
     typed 10 m = ([0, 30, 0, 39, 0, 40, 0, 40, 0, 40], m')"
proof -
  let ?ps = "[0xBF, 0xBC, 0xBF, 0xBE]"
  have t: "track_bits ?ps 0 = [True, False]" "track_bits ?ps 1 = []" "track_bits ?ps 2 = []" by code_simp+
  have p: "\<forall>p\<in>set ?ps. Magstripe_GetStatus p AND MAG_CARDPRESENT \<noteq> 0" "Magstripe_GetStatus 0xFF AND MAG_CARDPRESENT = 0"
    by code_simp+
  have "length (track_bits ?ps i) \<le> MAX_BITS" if "i < 3" for i
  proof -
    have "i = 0 \<or> i = 1 \<or> i = 2" using that by auto
    then show ?thesis using t by (auto simp: MAX_BITS_def)
  qed
  then show ?thesis using Magstripe_types_card [OF p, of "[]"] unfolding t by (auto simp: bit_key_def simp del: typed.simps)
qed

end
