(* ===== verification/Volatile_IO.thy ===== *)
theory Volatile_IO
  imports Lufa_Prelude
begin

text \<open>
  The machine on which the hardware code runs. Registers of the USB controller and the \<open>volatile\<close> globals
  are the locations of type \<open>vloc\<close>; every access to one of them is an event of the \<open>trace\<close>. What a
  volatile read returns is not under the control of the program: it is given by the \<open>hw\<close> field, an
  arbitrary function of everything that happened before. A theorem that holds for every \<open>hw\<close> therefore
  holds for every behaviour of the controller, the host and the interrupt handlers. Ordinary memory (RAM,
  flash and EEPROM with 16-bit addresses) and the non-volatile globals of the library are plain fields.

  The model is the configuration of an AT90USB1287 that can be both device and host (\<open>USB_SERIES_7_AVR\<close>,
  \<open>USB_CAN_BE_BOTH\<close>), with descriptors in any of the three address spaces. The bit numbers are those of the
  register description of that part.
\<close>

unbundle bit_operations_syntax

section \<open>Locations and events\<close>

datatype (plugins only: code) vloc =
    UENUM | UERST | UECONX | UECFG0X | UECFG1X | UESTA0X | UEIENX | UEDATX | UEBCX | UEINT | UEINTX
  | UDCON | UDINT | UDIEN | UDADDR | UDFNUM
  | USBCON | USBSTA | USBINT | UHWCON | OTGCON | OTGIEN | OTGINT | PLLCSR
  | UHCON | UHINT | UHIEN | UHADDR | UHFNUM
  | UPNUM | UPRST | UPCONX | UPCFG0X | UPCFG1X | UPCFG2X | UPSTAX | UPIENX | UPDATX | UPBCX | UPINT | UPINTX
  | UPERRX | UPINRQX | SREG | DDRE | PORTE
  | USB_DeviceState | USB_HostState | USB_CurrentMode | USB_Options | USB_IsInitialized | IsMassStoreReset | IsPrinterReset

datatype io = Rd vloc u16 | Wr vloc u16

section \<open>The state\<close>

record USB_Request_Header_t =
  bmRequestType :: u8
  bRequest :: u8
  wValue :: u16
  wIndex :: u16
  wLength :: u16

record usb_st =
  hw :: "io list \<Rightarrow> vloc \<Rightarrow> u16"
  trace :: "io list"
  ram :: "u16 \<Rightarrow> u8"
  flash :: "u16 \<Rightarrow> u8"
  eeprom :: "u16 \<Rightarrow> u8"
  USB_ControlRequest :: USB_Request_Header_t
  USB_Device_ConfigurationNumber :: u8
  USB_Device_RemoteWakeupEnabled :: bool
  USB_Device_CurrentlySelfPowered :: bool
  USB_Device_ControlEndpointSize :: u8
  USB_Host_ConfigurationNumber :: u8
  USB_Host_ControlPipeSize :: u8
  WaitMSRemaining :: u16
  PostWaitState :: u8

section \<open>Volatile accesses\<close>

definition rd16 :: "vloc \<Rightarrow> usb_st \<Rightarrow> u16 \<times> usb_st" where
  "rd16 l s = (hw s (trace s) l, s\<lparr>trace := trace s @ [Rd l (hw s (trace s) l)]\<rparr>)"

definition wr16 :: "vloc \<Rightarrow> u16 \<Rightarrow> usb_st \<Rightarrow> usb_st" where
  "wr16 l v s = s\<lparr>trace := trace s @ [Wr l v]\<rparr>"

text \<open>Eight-bit locations: the value read is the low byte.\<close>

definition rd8 :: "vloc \<Rightarrow> usb_st \<Rightarrow> u8 \<times> usb_st" where
  "rd8 l s = apfst ucast (rd16 l s)"

definition wr8 :: "vloc \<Rightarrow> u8 \<Rightarrow> usb_st \<Rightarrow> usb_st" where
  "wr8 l v s = wr16 l (ucast v) s"

text \<open>The compound assignments \<open>|=\<close> and \<open>&= ~\<close>, and the test of a bit.\<close>

definition set_bits :: "vloc \<Rightarrow> u8 \<Rightarrow> usb_st \<Rightarrow> usb_st" where
  "set_bits l m s = (let (v, s) = rd8 l s in wr8 l (v OR m) s)"

definition clear_bits :: "vloc \<Rightarrow> u8 \<Rightarrow> usb_st \<Rightarrow> usb_st" where
  "clear_bits l m s = (let (v, s) = rd8 l s in wr8 l (v AND NOT m) s)"

definition test_bits :: "vloc \<Rightarrow> u8 \<Rightarrow> usb_st \<Rightarrow> bool \<times> usb_st" where
  "test_bits l m s = (let (v, s) = rd8 l s in (v AND m \<noteq> 0, s))"

section \<open>Extending the trace\<close>

text \<open>
  \<open>extends s s'\<close>: the step from \<open>s\<close> to \<open>s'\<close> only appended to the trace and left the hardware alone;
  \<open>iolog s s'\<close> is what it appended.
\<close>

definition iolog :: "usb_st \<Rightarrow> usb_st \<Rightarrow> io list" where
  "iolog s s' = drop (length (trace s)) (trace s')"

definition extends :: "usb_st \<Rightarrow> usb_st \<Rightarrow> bool" where
  "extends s s' \<longleftrightarrow> hw s' = hw s \<and> trace s' = trace s @ iolog s s'"

lemma extends_iff: "extends s s' \<longleftrightarrow> hw s' = hw s \<and> (\<exists>t. trace s' = trace s @ t)"
  by (auto simp: extends_def iolog_def)

lemma extends_refl [simp]: "extends s s"
  by (simp add: extends_iff)

lemma extends_trans [trans]: "extends s s1 \<Longrightarrow> extends s1 s2 \<Longrightarrow> extends s s2"
  by (auto simp: extends_iff)

lemma iolog_same [simp]: "iolog s s = []"
  by (simp add: iolog_def)

lemma iolog_append: "extends s s1 \<Longrightarrow> extends s1 s2 \<Longrightarrow> iolog s s2 = iolog s s1 @ iolog s1 s2"
  by (auto simp: extends_iff iolog_def)

lemma trace_iolog: "extends s s' \<Longrightarrow> trace s' = trace s @ iolog s s'"
  by (simp add: extends_def)

section \<open>Projections of a trace\<close>

definition writes :: "vloc \<Rightarrow> io list \<Rightarrow> u16 list" where
  "writes l t = concat (map (\<lambda>e. case e of Wr k v \<Rightarrow> if k = l then [v] else [] | Rd _ _ \<Rightarrow> []) t)"

definition reads :: "vloc \<Rightarrow> io list \<Rightarrow> u16 list" where
  "reads l t = concat (map (\<lambda>e. case e of Rd k v \<Rightarrow> if k = l then [v] else [] | Wr _ _ \<Rightarrow> []) t)"

lemma writes_simps [simp]:
  "writes l [] = []" "writes l (Rd k v # t) = writes l t"
  "writes l (Wr k v # t) = (if k = l then v # writes l t else writes l t)"
  "writes l (t @ u) = writes l t @ writes l u"
  by (simp_all add: writes_def)

lemma reads_simps [simp]:
  "reads l [] = []" "reads l (Wr k v # t) = reads l t"
  "reads l (Rd k v # t) = (if k = l then v # reads l t else reads l t)"
  "reads l (t @ u) = reads l t @ reads l u"
  by (simp_all add: reads_def)

text \<open>The value a location was last written, if any.\<close>

definition last_write :: "vloc \<Rightarrow> u16 \<Rightarrow> io list \<Rightarrow> u16" where
  "last_write l d t = (if writes l t = [] then d else last (writes l t))"

lemma last_write_append: "last_write l d (t @ u) = last_write l (last_write l d t) u"
  by (simp add: last_write_def)

section \<open>Rules for the accesses\<close>

text \<open>\<open>ev s es\<close> is \<open>s\<close> after the events \<open>es\<close>; every access is an instance of it.\<close>

definition ev :: "usb_st \<Rightarrow> io list \<Rightarrow> usb_st" where
  "ev s es = s\<lparr>trace := trace s @ es\<rparr>"

lemma ev_simps [simp]:
  "hw (ev s es) = hw s" "trace (ev s es) = trace s @ es" "ram (ev s es) = ram s" "flash (ev s es) = flash s"
  "eeprom (ev s es) = eeprom s" "USB_ControlRequest (ev s es) = USB_ControlRequest s"
  "USB_Device_ConfigurationNumber (ev s es) = USB_Device_ConfigurationNumber s"
  "USB_Device_RemoteWakeupEnabled (ev s es) = USB_Device_RemoteWakeupEnabled s"
  "USB_Device_CurrentlySelfPowered (ev s es) = USB_Device_CurrentlySelfPowered s"
  "USB_Device_ControlEndpointSize (ev s es) = USB_Device_ControlEndpointSize s"
  "USB_Host_ConfigurationNumber (ev s es) = USB_Host_ConfigurationNumber s"
  "USB_Host_ControlPipeSize (ev s es) = USB_Host_ControlPipeSize s"
  "WaitMSRemaining (ev s es) = WaitMSRemaining s" "PostWaitState (ev s es) = PostWaitState s"
  "ev (ev s es) fs = ev s (es @ fs)" "iolog s (ev s es) = es" "extends s (ev s es)" "ev s [] = s"
  by (simp_all add: ev_def iolog_def extends_iff)

lemma ev_inject [simp]: "ev s t = ev s u \<longleftrightarrow> t = u"
  by (metis ev_simps(2) same_append_eq)

named_theorems io_simps

lemma io_eqs [io_simps]:
  "rd16 l s = (hw s (trace s) l, ev s [Rd l (hw s (trace s) l)])"
  "rd8 l s = (ucast (hw s (trace s) l), ev s [Rd l (hw s (trace s) l)])"
  "wr16 l u s = ev s [Wr l u]"
  "wr8 l v s = ev s [Wr l (ucast v)]"
  "set_bits l m s = ev s [Rd l (hw s (trace s) l), Wr l (ucast ((ucast (hw s (trace s) l) :: u8) OR m))]"
  "clear_bits l m s = ev s [Rd l (hw s (trace s) l), Wr l (ucast ((ucast (hw s (trace s) l) :: u8) AND NOT m))]"
  "test_bits l m s = ((ucast (hw s (trace s) l) :: u8) AND m \<noteq> 0, ev s [Rd l (hw s (trace s) l)])"
  by (simp_all add: rd16_def rd8_def wr16_def wr8_def set_bits_def clear_bits_def test_bits_def ev_def)

text \<open>
  Decomposition rules: the value of a volatile read becomes a fresh variable, so that a proof follows the
  control flow of the code and never sees a nested trace.
\<close>

definition reading :: "usb_st \<Rightarrow> vloc \<Rightarrow> u16 \<Rightarrow> bool" where
  "reading s l w \<longleftrightarrow> w = hw s (trace s) l"

named_theorems io_vcg

lemma always_rd8 [io_vcg]:
  "(\<And>w. reading s l w \<Longrightarrow> always Q (f (ucast w) (ev s [Rd l w]))) \<Longrightarrow> always Q (case rd8 l s of (v, t) \<Rightarrow> f v t)"
  by (simp add: io_simps reading_def)

lemma always_rd16 [io_vcg]:
  "(\<And>w. reading s l w \<Longrightarrow> always Q (f w (ev s [Rd l w]))) \<Longrightarrow> always Q (case rd16 l s of (v, t) \<Rightarrow> f v t)"
  by (simp add: io_simps reading_def)

lemma always_test_bits [io_vcg]:
  "(\<And>w. reading s l w \<Longrightarrow> always Q (f ((ucast w :: u8) AND m \<noteq> 0) (ev s [Rd l w]))) \<Longrightarrow>
   always Q (case test_bits l m s of (v, t) \<Rightarrow> f v t)"
  by (simp add: io_simps reading_def)

lemma always_set_bits:
  "(\<And>w. reading s l w \<Longrightarrow> always Q (f (ev s [Rd l w, Wr l (ucast ((ucast w :: u8) OR m))]))) \<Longrightarrow>
   always Q (f (set_bits l m s))"
  by (simp add: io_simps reading_def)

lemma always_clear_bits:
  "(\<And>w. reading s l w \<Longrightarrow> always Q (f (ev s [Rd l w, Wr l (ucast ((ucast w :: u8) AND NOT m))]))) \<Longrightarrow>
   always Q (f (clear_bits l m s))"
  by (simp add: io_simps reading_def)

lemma always_if [io_vcg]: "(c \<Longrightarrow> always Q x) \<Longrightarrow> (\<not> c \<Longrightarrow> always Q y) \<Longrightarrow> always Q (if c then x else y)"
  by simp

lemma always_let [io_vcg]: "always Q (f x) \<Longrightarrow> always Q (Let x f)"
  by simp

lemma returns_rd8 [io_vcg]:
  "(\<And>w. reading s l w \<Longrightarrow> returns Q (f (ucast w) (ev s [Rd l w]))) \<Longrightarrow> returns Q (case rd8 l s of (v, t) \<Rightarrow> f v t)"
  by (simp add: io_simps reading_def)

lemma returns_rd16 [io_vcg]:
  "(\<And>w. reading s l w \<Longrightarrow> returns Q (f w (ev s [Rd l w]))) \<Longrightarrow> returns Q (case rd16 l s of (v, t) \<Rightarrow> f v t)"
  by (simp add: io_simps reading_def)

lemma returns_test_bits [io_vcg]:
  "(\<And>w. reading s l w \<Longrightarrow> returns Q (f ((ucast w :: u8) AND m \<noteq> 0) (ev s [Rd l w]))) \<Longrightarrow>
   returns Q (case test_bits l m s of (v, t) \<Rightarrow> f v t)"
  by (simp add: io_simps reading_def)

lemma returns_if [io_vcg]: "(c \<Longrightarrow> returns Q x) \<Longrightarrow> (\<not> c \<Longrightarrow> returns Q y) \<Longrightarrow> returns Q (if c then x else y)"
  by simp

lemma returns_let [io_vcg]: "returns Q (f x) \<Longrightarrow> returns Q (Let x f)"
  by simp

lemma always_case_let [io_vcg]: "always Q (case g x of (a, b) \<Rightarrow> f a b) \<Longrightarrow> always Q (case Let x g of (a, b) \<Rightarrow> f a b)"
  by simp

lemma always_case_case [io_vcg]:
  "always Q (case p of (x, y) \<Rightarrow> (case g x y of (a, b) \<Rightarrow> f a b)) \<Longrightarrow>
   always Q (case (case p of (x, y) \<Rightarrow> g x y) of (a, b) \<Rightarrow> f a b)"
  by (simp add: case_prod_beta)

lemma always_case_if [io_vcg]:
  "(c \<Longrightarrow> always Q (case p of (a, b) \<Rightarrow> f a b)) \<Longrightarrow> (\<not> c \<Longrightarrow> always Q (case q of (a, b) \<Rightarrow> f a b)) \<Longrightarrow>
   always Q (case (if c then p else q) of (a, b) \<Rightarrow> f a b)"
  by simp

lemma always_case_pair [io_vcg]: "always Q (f x y) \<Longrightarrow> always Q (case (x, y) of (a, b) \<Rightarrow> f a b)"
  by simp

lemma returns_case_let [io_vcg]: "returns Q (case g x of (a, b) \<Rightarrow> f a b) \<Longrightarrow> returns Q (case Let x g of (a, b) \<Rightarrow> f a b)"
  by simp

lemma returns_case_case [io_vcg]:
  "returns Q (case p of (x, y) \<Rightarrow> (case g x y of (a, b) \<Rightarrow> f a b)) \<Longrightarrow>
   returns Q (case (case p of (x, y) \<Rightarrow> g x y) of (a, b) \<Rightarrow> f a b)"
  by (simp add: case_prod_beta)

lemma returns_case_if [io_vcg]:
  "(c \<Longrightarrow> returns Q (case p of (a, b) \<Rightarrow> f a b)) \<Longrightarrow> (\<not> c \<Longrightarrow> returns Q (case q of (a, b) \<Rightarrow> f a b)) \<Longrightarrow>
   returns Q (case (if c then p else q) of (a, b) \<Rightarrow> f a b)"
  by simp

lemma returns_case_pair [io_vcg]: "returns Q (f x y) \<Longrightarrow> returns Q (case (x, y) of (a, b) \<Rightarrow> f a b)"
  by simp

lemma always_eq: "m = m' \<Longrightarrow> always Q m' \<Longrightarrow> always Q m"
  by simp

lemma returns_eq: "m = m' \<Longrightarrow> returns Q m' \<Longrightarrow> returns Q m"
  by simp

text \<open>The same decomposition for code that cannot fail: \<open>yields Q r\<close> says that the result \<open>r\<close> satisfies \<open>Q\<close>.\<close>

definition yields :: "('a \<Rightarrow> bool) \<Rightarrow> 'a \<Rightarrow> bool" where
  "yields Q r \<longleftrightarrow> Q r"

named_theorems io_pure

lemma yields_rd8 [io_pure]:
  "(\<And>w. reading s l w \<Longrightarrow> yields Q (f (ucast w) (ev s [Rd l w]))) \<Longrightarrow> yields Q (case rd8 l s of (v, t) \<Rightarrow> f v t)"
  by (simp add: io_simps reading_def)

lemma yields_test_bits [io_pure]:
  "(\<And>w. reading s l w \<Longrightarrow> yields Q (f ((ucast w :: u8) AND m \<noteq> 0) (ev s [Rd l w]))) \<Longrightarrow>
   yields Q (case test_bits l m s of (v, t) \<Rightarrow> f v t)"
  by (simp add: io_simps reading_def)

lemma yields_set_bits [io_pure]:
  "(\<And>w. reading s l w \<Longrightarrow> yields Q (g (ev s [Rd l w, Wr l (ucast ((ucast w :: u8) OR m))]))) \<Longrightarrow> yields Q (Let (set_bits l m s) g)"
  by (simp add: io_simps reading_def)

lemma yields_clear_bits [io_pure]:
  "(\<And>w. reading s l w \<Longrightarrow> yields Q (g (ev s [Rd l w, Wr l (ucast ((ucast w :: u8) AND NOT m))]))) \<Longrightarrow>
   yields Q (Let (clear_bits l m s) g)"
  by (simp add: io_simps reading_def)

lemma yields_wr8 [io_pure]: "yields Q (g (ev s [Wr l (ucast v)])) \<Longrightarrow> yields Q (Let (wr8 l v s) g)"
  by (simp add: io_simps)

lemma yields_if [io_pure]: "(c \<Longrightarrow> yields Q x) \<Longrightarrow> (\<not> c \<Longrightarrow> yields Q y) \<Longrightarrow> yields Q (if c then x else y)"
  by simp

lemma yields_let_pair [io_pure]: "yields Q (case x of (a, b) \<Rightarrow> f a b) \<Longrightarrow> yields Q (let (a, b) = x in f a b)"
  by simp

lemma yields_case_let_pair [io_pure]:
  "yields Q (case x of (c, d) \<Rightarrow> (case g c d of (a, b) \<Rightarrow> f a b)) \<Longrightarrow> yields Q (case (let (c, d) = x in g c d) of (a, b) \<Rightarrow> f a b)"
  by (simp add: case_prod_beta)

lemma yields_case_case [io_pure]:
  "yields Q (case p of (x, y) \<Rightarrow> (case g x y of (a, b) \<Rightarrow> f a b)) \<Longrightarrow>
   yields Q (case (case p of (x, y) \<Rightarrow> g x y) of (a, b) \<Rightarrow> f a b)"
  by (simp add: case_prod_beta)

lemma yields_case_if [io_pure]:
  "(c \<Longrightarrow> yields Q (case p of (a, b) \<Rightarrow> f a b)) \<Longrightarrow> (\<not> c \<Longrightarrow> yields Q (case q of (a, b) \<Rightarrow> f a b)) \<Longrightarrow>
   yields Q (case (if c then p else q) of (a, b) \<Rightarrow> f a b)"
  by simp

lemma yields_case_pair [io_pure]: "yields Q (f x y) \<Longrightarrow> yields Q (case (x, y) of (a, b) \<Rightarrow> f a b)"
  by simp

lemma yields_eq: "r = r' \<Longrightarrow> yields Q r' \<Longrightarrow> yields Q r"
  by simp

section \<open>A machine at reset, for evaluating examples\<close>

definition boot_st :: "(io list \<Rightarrow> vloc \<Rightarrow> u16) \<Rightarrow> usb_st" where
  "boot_st h = \<lparr>hw = h, trace = [], ram = (\<lambda>_. 0), flash = (\<lambda>_. 0), eeprom = (\<lambda>_. 0),
     USB_ControlRequest = \<lparr>bmRequestType = 0, bRequest = 0, wValue = 0, wIndex = 0, wLength = 0\<rparr>,
     USB_Device_ConfigurationNumber = 0, USB_Device_RemoteWakeupEnabled = False,
     USB_Device_CurrentlySelfPowered = False, USB_Device_ControlEndpointSize = 8,
     USB_Host_ConfigurationNumber = 0, USB_Host_ControlPipeSize = 64,
     WaitMSRemaining = 0, PostWaitState = 0\<rparr>"

lemma boot_st_simps [simp]: "hw (boot_st h) = h" "trace (boot_st h) = []" "iolog (boot_st h) s = trace s"
  by (simp_all add: boot_st_def iolog_def)

end
