(* ===== verification/Endpoint_AVR8.thy ===== *)
theory Endpoint_AVR8
  imports Volatile_IO
begin

text \<open>
  The endpoint driver of the 8-bit AVR port (\<^verbatim>\<open>Drivers/USB/Core/AVR8/Endpoint_AVR8.h\<close> and \<^verbatim>\<open>.c\<close>): the inline
  register accessors, endpoint configuration, the status stage of a control transfer and the wait for a
  packet. Each function takes the machine state and returns the new one, with its result in front if it
  has one. Functions that poll until the hardware gives way are \<open>partial_function\<close>s: \<open>None\<close> means that the
  poll never ends.
\<close>

section \<open>Register bits and constants\<close>

abbreviation (input) TXINI :: u8 where "TXINI \<equiv> bmask 0"
abbreviation (input) RXOUTI :: u8 where "RXOUTI \<equiv> bmask 2"
abbreviation (input) RXSTPI :: u8 where "RXSTPI \<equiv> bmask 3"
abbreviation (input) RWAL :: u8 where "RWAL \<equiv> bmask 5"
abbreviation (input) FIFOCON :: u8 where "FIFOCON \<equiv> bmask 7"
abbreviation (input) EPEN :: u8 where "EPEN \<equiv> bmask 0"
abbreviation (input) RSTDT :: u8 where "RSTDT \<equiv> bmask 3"
abbreviation (input) STALLRQC :: u8 where "STALLRQC \<equiv> bmask 4"
abbreviation (input) STALLRQ :: u8 where "STALLRQ \<equiv> bmask 5"
abbreviation (input) EPDIR :: u8 where "EPDIR \<equiv> bmask 0"
abbreviation (input) ALLOC :: u8 where "ALLOC \<equiv> bmask 1"
abbreviation (input) EPBK0 :: u8 where "EPBK0 \<equiv> bmask 2"
abbreviation (input) CFGOK :: u8 where "CFGOK \<equiv> bmask 7"

abbreviation (input) ENDPOINT_EPNUM_MASK :: u8 where "ENDPOINT_EPNUM_MASK \<equiv> 0x0F"
abbreviation (input) ENDPOINT_CONTROLEP :: u8 where "ENDPOINT_CONTROLEP \<equiv> 0"
abbreviation (input) ENDPOINT_DIR_IN :: u8 where "ENDPOINT_DIR_IN \<equiv> 0x80"
abbreviation (input) ENDPOINT_DIR_OUT :: u8 where "ENDPOINT_DIR_OUT \<equiv> 0x00"
abbreviation (input) ENDPOINT_TOTAL_ENDPOINTS :: u8 where "ENDPOINT_TOTAL_ENDPOINTS \<equiv> 7"
abbreviation (input) EP_TYPE_CONTROL :: u8 where "EP_TYPE_CONTROL \<equiv> 0"
abbreviation (input) REQDIR_DEVICETOHOST :: u8 where "REQDIR_DEVICETOHOST \<equiv> 0x80"

abbreviation (input) DEVICE_STATE_Unattached :: u8 where "DEVICE_STATE_Unattached \<equiv> 0"
abbreviation (input) DEVICE_STATE_Powered :: u8 where "DEVICE_STATE_Powered \<equiv> 1"
abbreviation (input) DEVICE_STATE_Default :: u8 where "DEVICE_STATE_Default \<equiv> 2"
abbreviation (input) DEVICE_STATE_Addressed :: u8 where "DEVICE_STATE_Addressed \<equiv> 3"
abbreviation (input) DEVICE_STATE_Configured :: u8 where "DEVICE_STATE_Configured \<equiv> 4"
abbreviation (input) DEVICE_STATE_Suspended :: u8 where "DEVICE_STATE_Suspended \<equiv> 5"

abbreviation (input) ENDPOINT_READYWAIT_NoError :: u8 where "ENDPOINT_READYWAIT_NoError \<equiv> 0"
abbreviation (input) ENDPOINT_READYWAIT_EndpointStalled :: u8 where "ENDPOINT_READYWAIT_EndpointStalled \<equiv> 1"
abbreviation (input) ENDPOINT_READYWAIT_DeviceDisconnected :: u8 where "ENDPOINT_READYWAIT_DeviceDisconnected \<equiv> 2"
abbreviation (input) ENDPOINT_READYWAIT_BusSuspended :: u8 where "ENDPOINT_READYWAIT_BusSuspended \<equiv> 3"
abbreviation (input) ENDPOINT_READYWAIT_Timeout :: u8 where "ENDPOINT_READYWAIT_Timeout \<equiv> 4"
abbreviation (input) USB_STREAM_TIMEOUT_MS :: u8 where "USB_STREAM_TIMEOUT_MS \<equiv> 100"

section \<open>Register accessors\<close>

partial_function (option) ep_size_loop :: "u16 \<Rightarrow> u8 \<Rightarrow> u16 \<Rightarrow> u8 option" where
  "ep_size_loop Bytes MaskVal CheckBytes =
     (if CheckBytes < Bytes then ep_size_loop Bytes (MaskVal + 1) (push_bit 1 CheckBytes)
      else Some (push_bit 4 MaskVal))"

definition Endpoint_BytesToEPSizeMask :: "u16 \<Rightarrow> u8 option" where
  "Endpoint_BytesToEPSizeMask Bytes = ep_size_loop Bytes 0 8"

definition Endpoint_BytesInEndpoint :: "usb_st \<Rightarrow> u16 \<times> usb_st" where
  "Endpoint_BytesInEndpoint s = rd16 UEBCX s"

definition Endpoint_GetEndpointDirection :: "usb_st \<Rightarrow> u8 \<times> usb_st" where
  "Endpoint_GetEndpointDirection s =
     (let (d, s) = test_bits UECFG0X EPDIR s in (if d then ENDPOINT_DIR_IN else ENDPOINT_DIR_OUT, s))"

definition Endpoint_GetCurrentEndpoint :: "usb_st \<Rightarrow> u8 \<times> usb_st" where
  "Endpoint_GetCurrentEndpoint s =
     (let (n, s) = rd8 UENUM s; (d, s) = Endpoint_GetEndpointDirection s in ((n AND ENDPOINT_EPNUM_MASK) OR d, s))"

definition Endpoint_SelectEndpoint :: "u8 \<Rightarrow> usb_st \<Rightarrow> usb_st" where
  "Endpoint_SelectEndpoint Address s = wr8 UENUM (Address AND ENDPOINT_EPNUM_MASK) s"

definition Endpoint_ResetEndpoint :: "u8 \<Rightarrow> usb_st \<Rightarrow> usb_st" where
  "Endpoint_ResetEndpoint Address s =
     wr8 UERST 0 (wr8 UERST (bmask (unat (Address AND ENDPOINT_EPNUM_MASK))) s)"

definition Endpoint_EnableEndpoint :: "usb_st \<Rightarrow> usb_st" where
  "Endpoint_EnableEndpoint s = set_bits UECONX EPEN s"

definition Endpoint_DisableEndpoint :: "usb_st \<Rightarrow> usb_st" where
  "Endpoint_DisableEndpoint s = clear_bits UECONX EPEN s"

definition Endpoint_IsEnabled :: "usb_st \<Rightarrow> bool \<times> usb_st" where
  "Endpoint_IsEnabled s = test_bits UECONX EPEN s"

definition Endpoint_GetBusyBanks :: "usb_st \<Rightarrow> u8 \<times> usb_st" where
  "Endpoint_GetBusyBanks s = (let (v, s) = rd8 UESTA0X s in (v AND 0x03, s))"

partial_function (option) wait_RXOUTI_clear :: "usb_st \<Rightarrow> usb_st option" where
  "wait_RXOUTI_clear s = (let (r, s) = test_bits UEINTX RXOUTI s in if r then wait_RXOUTI_clear s else Some s)"

partial_function (option) Endpoint_AbortPendingIN :: "usb_st \<Rightarrow> usb_st option" where
  "Endpoint_AbortPendingIN s =
     (let (b, s) = Endpoint_GetBusyBanks s
      in if b \<noteq> 0 then do { s \<leftarrow> wait_RXOUTI_clear (set_bits UEINTX RXOUTI s); Endpoint_AbortPendingIN s }
         else Some s)"

definition Endpoint_IsReadWriteAllowed :: "usb_st \<Rightarrow> bool \<times> usb_st" where
  "Endpoint_IsReadWriteAllowed s = test_bits UEINTX RWAL s"

definition Endpoint_IsConfigured :: "usb_st \<Rightarrow> bool \<times> usb_st" where
  "Endpoint_IsConfigured s = test_bits UESTA0X CFGOK s"

definition Endpoint_GetEndpointInterrupts :: "usb_st \<Rightarrow> u8 \<times> usb_st" where
  "Endpoint_GetEndpointInterrupts s = rd8 UEINT s"

definition Endpoint_HasEndpointInterrupted :: "u8 \<Rightarrow> usb_st \<Rightarrow> bool \<times> usb_st" where
  "Endpoint_HasEndpointInterrupted Address s =
     (let (v, s) = Endpoint_GetEndpointInterrupts s in (v AND bmask (unat (Address AND ENDPOINT_EPNUM_MASK)) \<noteq> 0, s))"

definition Endpoint_IsINReady :: "usb_st \<Rightarrow> bool \<times> usb_st" where
  "Endpoint_IsINReady s = test_bits UEINTX TXINI s"

definition Endpoint_IsOUTReceived :: "usb_st \<Rightarrow> bool \<times> usb_st" where
  "Endpoint_IsOUTReceived s = test_bits UEINTX RXOUTI s"

definition Endpoint_IsSETUPReceived :: "usb_st \<Rightarrow> bool \<times> usb_st" where
  "Endpoint_IsSETUPReceived s = test_bits UEINTX RXSTPI s"

definition Endpoint_ClearSETUP :: "usb_st \<Rightarrow> usb_st" where
  "Endpoint_ClearSETUP s = clear_bits UEINTX RXSTPI s"

definition Endpoint_ClearIN :: "usb_st \<Rightarrow> usb_st" where
  "Endpoint_ClearIN s = clear_bits UEINTX (TXINI OR FIFOCON) s"

definition Endpoint_ClearOUT :: "usb_st \<Rightarrow> usb_st" where
  "Endpoint_ClearOUT s = clear_bits UEINTX (RXOUTI OR FIFOCON) s"

definition Endpoint_StallTransaction :: "usb_st \<Rightarrow> usb_st" where
  "Endpoint_StallTransaction s = set_bits UECONX STALLRQ s"

definition Endpoint_ClearStall :: "usb_st \<Rightarrow> usb_st" where
  "Endpoint_ClearStall s = set_bits UECONX STALLRQC s"

definition Endpoint_IsStalled :: "usb_st \<Rightarrow> bool \<times> usb_st" where
  "Endpoint_IsStalled s = test_bits UECONX STALLRQ s"

definition Endpoint_ResetDataToggle :: "usb_st \<Rightarrow> usb_st" where
  "Endpoint_ResetDataToggle s = set_bits UECONX RSTDT s"

definition Endpoint_SetEndpointDirection :: "u8 \<Rightarrow> usb_st \<Rightarrow> usb_st" where
  "Endpoint_SetEndpointDirection DirectionMask s =
     (let (v, s) = rd8 UECFG0X s in wr8 UECFG0X ((v AND NOT EPDIR) OR (if DirectionMask \<noteq> 0 then EPDIR else 0)) s)"

section \<open>The FIFO\<close>

definition Endpoint_Read_8 :: "usb_st \<Rightarrow> u8 \<times> usb_st" where
  "Endpoint_Read_8 s = rd8 UEDATX s"

definition Endpoint_Write_8 :: "u8 \<Rightarrow> usb_st \<Rightarrow> usb_st" where
  "Endpoint_Write_8 Data s = wr8 UEDATX Data s"

definition Endpoint_Discard_8 :: "usb_st \<Rightarrow> usb_st" where
  "Endpoint_Discard_8 s = snd (rd8 UEDATX s)"

text \<open>The unions of the source: a word from its bytes in memory order (the AVR is little endian).\<close>

definition u16_of_bytes :: "u8 \<Rightarrow> u8 \<Rightarrow> u16" where
  "u16_of_bytes b0 b1 = ucast b0 OR push_bit 8 (ucast b1)"

definition u32_of_bytes :: "u8 \<Rightarrow> u8 \<Rightarrow> u8 \<Rightarrow> u8 \<Rightarrow> u32" where
  "u32_of_bytes b0 b1 b2 b3 = ucast b0 OR push_bit 8 (ucast b1) OR push_bit 16 (ucast b2) OR push_bit 24 (ucast b3)"

definition Endpoint_Read_16_LE :: "usb_st \<Rightarrow> u16 \<times> usb_st" where
  "Endpoint_Read_16_LE s = (let (b0, s) = rd8 UEDATX s; (b1, s) = rd8 UEDATX s in (u16_of_bytes b0 b1, s))"

definition Endpoint_Read_16_BE :: "usb_st \<Rightarrow> u16 \<times> usb_st" where
  "Endpoint_Read_16_BE s = (let (b1, s) = rd8 UEDATX s; (b0, s) = rd8 UEDATX s in (u16_of_bytes b0 b1, s))"

definition Endpoint_Write_16_LE :: "u16 \<Rightarrow> usb_st \<Rightarrow> usb_st" where
  "Endpoint_Write_16_LE Data s = wr8 UEDATX (ucast (drop_bit 8 Data)) (wr8 UEDATX (ucast (Data AND 0xFF)) s)"

definition Endpoint_Write_16_BE :: "u16 \<Rightarrow> usb_st \<Rightarrow> usb_st" where
  "Endpoint_Write_16_BE Data s = wr8 UEDATX (ucast (Data AND 0xFF)) (wr8 UEDATX (ucast (drop_bit 8 Data)) s)"

definition Endpoint_Discard_16 :: "usb_st \<Rightarrow> usb_st" where
  "Endpoint_Discard_16 s = snd (rd8 UEDATX (snd (rd8 UEDATX s)))"

definition Endpoint_Read_32_LE :: "usb_st \<Rightarrow> u32 \<times> usb_st" where
  "Endpoint_Read_32_LE s = (let (b0, s) = rd8 UEDATX s; (b1, s) = rd8 UEDATX s; (b2, s) = rd8 UEDATX s;
     (b3, s) = rd8 UEDATX s in (u32_of_bytes b0 b1 b2 b3, s))"

definition Endpoint_Read_32_BE :: "usb_st \<Rightarrow> u32 \<times> usb_st" where
  "Endpoint_Read_32_BE s = (let (b3, s) = rd8 UEDATX s; (b2, s) = rd8 UEDATX s; (b1, s) = rd8 UEDATX s;
     (b0, s) = rd8 UEDATX s in (u32_of_bytes b0 b1 b2 b3, s))"

definition Endpoint_Write_32_LE :: "u32 \<Rightarrow> usb_st \<Rightarrow> usb_st" where
  "Endpoint_Write_32_LE Data s =
     wr8 UEDATX (ucast (drop_bit 24 Data)) (wr8 UEDATX (ucast (drop_bit 16 Data))
       (wr8 UEDATX (ucast (drop_bit 8 Data)) (wr8 UEDATX (ucast (Data AND 0xFF)) s)))"

definition Endpoint_Write_32_BE :: "u32 \<Rightarrow> usb_st \<Rightarrow> usb_st" where
  "Endpoint_Write_32_BE Data s =
     wr8 UEDATX (ucast (Data AND 0xFF)) (wr8 UEDATX (ucast (drop_bit 8 Data))
       (wr8 UEDATX (ucast (drop_bit 16 Data)) (wr8 UEDATX (ucast (drop_bit 24 Data)) s)))"

definition Endpoint_Discard_32 :: "usb_st \<Rightarrow> usb_st" where
  "Endpoint_Discard_32 s = snd (rd8 UEDATX (snd (rd8 UEDATX (snd (rd8 UEDATX (snd (rd8 UEDATX s)))))))"

section \<open>Configuration\<close>

record USB_Endpoint_Table_t =
  EP_Address :: u8
  EP_Size :: u16
  EP_Type :: u8
  EP_Banks :: u8

text \<open>
  The loop of \<open>Endpoint_ConfigureEndpoint_Prv\<close> from endpoint \<open>EPNum\<close> on: the endpoint itself gets the given
  configuration, every later allocated endpoint gets its own configuration again, so that the banks are
  allocated in ascending order.
\<close>

function ep_config_loop :: "u8 \<Rightarrow> u8 \<Rightarrow> u8 \<Rightarrow> u8 \<Rightarrow> usb_st \<Rightarrow> bool \<times> usb_st" where
  "ep_config_loop Number UECFG0XData UECFG1XData EPNum s =
     (if EPNum < ENDPOINT_TOTAL_ENDPOINTS then
        let s = Endpoint_SelectEndpoint EPNum s;
            (UECFG0XTemp, UECFG1XTemp, UEIENXTemp, s) =
              (if EPNum = Number then (UECFG0XData, UECFG1XData, 0, s)
               else let (c0, s) = rd8 UECFG0X s; (c1, s) = rd8 UECFG1X s; (ien, s) = rd8 UEIENX s
                    in (c0, c1, ien, s))
        in if UECFG1XTemp AND ALLOC = 0 then ep_config_loop Number UECFG0XData UECFG1XData (EPNum + 1) s
           else let s = Endpoint_DisableEndpoint s;
                    s = clear_bits UECFG1X ALLOC s;
                    s = Endpoint_EnableEndpoint s;
                    s = wr8 UECFG0X UECFG0XTemp s;
                    s = wr8 UECFG1X UECFG1XTemp s;
                    s = wr8 UEIENX UEIENXTemp s;
                    (ok, s) = Endpoint_IsConfigured s
                in if \<not> ok then (False, s) else ep_config_loop Number UECFG0XData UECFG1XData (EPNum + 1) s
      else (True, Endpoint_SelectEndpoint Number s))"
  by pat_completeness auto
termination
proof (relation "measure (\<lambda>(_, _, _, EPNum, _). 7 - unat EPNum)", goal_cases)
  case 1
  show ?case by simp
next
  case (2 Number c0 c1 EPNum)
  then have "unat EPNum < unat (7 :: u8)" by (simp add: word_less_nat_alt)
  with unat_Suc_word [OF this] show ?case by simp
next
  case (3 Number c0 c1 EPNum)
  then have "unat EPNum < unat (7 :: u8)" by (simp add: word_less_nat_alt)
  with unat_Suc_word [OF this] show ?case by simp
qed

declare ep_config_loop.simps [simp del]

definition Endpoint_ConfigureEndpoint_Prv :: "u8 \<Rightarrow> u8 \<Rightarrow> u8 \<Rightarrow> usb_st \<Rightarrow> bool \<times> usb_st" where
  "Endpoint_ConfigureEndpoint_Prv Number UECFG0XData UECFG1XData s =
     ep_config_loop Number UECFG0XData UECFG1XData Number s"

definition Endpoint_ConfigureEndpoint :: "u8 \<Rightarrow> u8 \<Rightarrow> u16 \<Rightarrow> u8 \<Rightarrow> usb_st \<Rightarrow> (bool \<times> usb_st) option" where
  "Endpoint_ConfigureEndpoint Address Type Size Banks s =
     (let Number = Address AND ENDPOINT_EPNUM_MASK
      in if Number \<ge> ENDPOINT_TOTAL_ENDPOINTS then Some (False, s)
         else do {
           mask \<leftarrow> Endpoint_BytesToEPSizeMask Size;
           Some (Endpoint_ConfigureEndpoint_Prv Number
             (push_bit 6 Type OR (if Address AND ENDPOINT_DIR_IN \<noteq> 0 then EPDIR else 0))
             (ALLOC OR (if Banks > 1 then EPBK0 else 0) OR mask) s) })"

fun Endpoint_ConfigureEndpointTable :: "USB_Endpoint_Table_t list \<Rightarrow> usb_st \<Rightarrow> (bool \<times> usb_st) option" where
  "Endpoint_ConfigureEndpointTable [] s = Some (True, s)"
| "Endpoint_ConfigureEndpointTable (e # Table) s =
     (if EP_Address e = 0 then Endpoint_ConfigureEndpointTable Table s
      else do {
        (ok, s) \<leftarrow> Endpoint_ConfigureEndpoint (EP_Address e) (EP_Type e) (EP_Size e) (EP_Banks e) s;
        if \<not> ok then Some (False, s) else Endpoint_ConfigureEndpointTable Table s })"

definition Endpoint_ClearEndpoints :: "usb_st \<Rightarrow> usb_st" where
  "Endpoint_ClearEndpoints s =
     fold (\<lambda>EPNum s. Endpoint_DisableEndpoint (wr8 UECFG1X 0 (wr8 UEINTX 0 (wr8 UEIENX 0 (Endpoint_SelectEndpoint EPNum s)))))
       [0, 1, 2, 3, 4, 5, 6] (wr8 UEINT 0 s)"

section \<open>Waiting for the host\<close>

definition USB_Device_GetFrameNumber :: "usb_st \<Rightarrow> u16 \<times> usb_st" where
  "USB_Device_GetFrameNumber s = rd16 UDFNUM s"

text \<open>The poll of the status stage: it ends when the flag is set, or when the device is detached.\<close>

partial_function (option) status_stage_poll :: "u8 \<Rightarrow> usb_st \<Rightarrow> (bool \<times> usb_st) option" where
  "status_stage_poll flag s =
     (let (r, s) = test_bits UEINTX flag s
      in if r then Some (True, s)
         else let (d, s) = rd8 USB_DeviceState s
              in if d = DEVICE_STATE_Unattached then Some (False, s) else status_stage_poll flag s)"

definition Endpoint_ClearStatusStage :: "usb_st \<Rightarrow> usb_st option" where
  "Endpoint_ClearStatusStage s =
     (if bmRequestType (USB_ControlRequest s) AND REQDIR_DEVICETOHOST \<noteq> 0
      then do { (ok, s) \<leftarrow> status_stage_poll RXOUTI s; Some (if ok then Endpoint_ClearOUT s else s) }
      else do { (ok, s) \<leftarrow> status_stage_poll TXINI s; Some (if ok then Endpoint_ClearIN s else s) })"

partial_function (option) ready_wait_loop :: "u8 \<Rightarrow> u16 \<Rightarrow> usb_st \<Rightarrow> (u8 \<times> usb_st) option" where
  "ready_wait_loop TimeoutMSRem PreviousFrameNumber s =
     (let (dir, s) = Endpoint_GetEndpointDirection s;
          (ready, s) = (if dir = ENDPOINT_DIR_IN then Endpoint_IsINReady s else Endpoint_IsOUTReceived s)
      in if ready then Some (ENDPOINT_READYWAIT_NoError, s)
         else let (USB_DeviceState_LCL, s) = rd8 USB_DeviceState s
              in if USB_DeviceState_LCL = DEVICE_STATE_Unattached then Some (ENDPOINT_READYWAIT_DeviceDisconnected, s)
                 else if USB_DeviceState_LCL = DEVICE_STATE_Suspended then Some (ENDPOINT_READYWAIT_BusSuspended, s)
                 else let (stalled, s) = Endpoint_IsStalled s
                      in if stalled then Some (ENDPOINT_READYWAIT_EndpointStalled, s)
                         else let (CurrentFrameNumber, s) = USB_Device_GetFrameNumber s
                              in if CurrentFrameNumber \<noteq> PreviousFrameNumber
                                 then (if TimeoutMSRem = 0 then Some (ENDPOINT_READYWAIT_Timeout, s)
                                       else ready_wait_loop (TimeoutMSRem - 1) CurrentFrameNumber s)
                                 else ready_wait_loop TimeoutMSRem PreviousFrameNumber s)"

definition Endpoint_WaitUntilReady :: "usb_st \<Rightarrow> (u8 \<times> usb_st) option" where
  "Endpoint_WaitUntilReady s =
     (let (PreviousFrameNumber, s) = USB_Device_GetFrameNumber s
      in ready_wait_loop USB_STREAM_TIMEOUT_MS PreviousFrameNumber s)"

declare ep_size_loop.simps [code] wait_RXOUTI_clear.simps [code] Endpoint_AbortPendingIN.simps [code]
  status_stage_poll.simps [code] ready_wait_loop.simps [code]

section \<open>Byte order\<close>

lemma u16_of_bytes_split: "u16_of_bytes (ucast (d AND 0xFF)) (ucast (drop_bit 8 d)) = d"
proof (rule bit_word_eqI)
  fix n assume "n < LENGTH(16)"
  then consider "n < 8" | "8 \<le> n" "n < 16" by fastforce
  then show "bit (u16_of_bytes (ucast (d AND 0xFF)) (ucast (drop_bit 8 d))) n = bit d n"
    by cases (auto simp: u16_of_bytes_def bit_simps)
qed

lemma u32_of_bytes_split:
  "u32_of_bytes (ucast (d AND 0xFF)) (ucast (drop_bit 8 d)) (ucast (drop_bit 16 d)) (ucast (drop_bit 24 d)) = d"
proof (rule bit_word_eqI)
  fix n assume "n < LENGTH(32)"
  then consider "n < 8" | "8 \<le> n" "n < 16" | "16 \<le> n" "n < 24" | "24 \<le> n" "n < 32" by fastforce
  then show "bit (u32_of_bytes (ucast (d AND 0xFF)) (ucast (drop_bit 8 d)) (ucast (drop_bit 16 d)) (ucast (drop_bit 24 d))) n = bit d n"
    by cases (auto simp: u32_of_bytes_def bit_simps)
qed

lemmas word_access_defs =
  Endpoint_Read_16_LE_def Endpoint_Read_16_BE_def Endpoint_Read_32_LE_def Endpoint_Read_32_BE_def
  Endpoint_Write_16_LE_def Endpoint_Write_16_BE_def Endpoint_Write_32_LE_def Endpoint_Write_32_BE_def

lemma word_reads:
  "fst (Endpoint_Read_16_LE t) = (case reads UEDATX (iolog t (snd (Endpoint_Read_16_LE t))) of
     [a, b] \<Rightarrow> u16_of_bytes (ucast a) (ucast b))"
  "fst (Endpoint_Read_16_BE t) = (case reads UEDATX (iolog t (snd (Endpoint_Read_16_BE t))) of
     [a, b] \<Rightarrow> u16_of_bytes (ucast b) (ucast a))"
  "fst (Endpoint_Read_32_LE t) = (case reads UEDATX (iolog t (snd (Endpoint_Read_32_LE t))) of
     [a, b, c, d] \<Rightarrow> u32_of_bytes (ucast a) (ucast b) (ucast c) (ucast d))"
  "fst (Endpoint_Read_32_BE t) = (case reads UEDATX (iolog t (snd (Endpoint_Read_32_BE t))) of
     [a, b, c, d] \<Rightarrow> u32_of_bytes (ucast d) (ucast c) (ucast b) (ucast a))"
  by (simp_all add: word_access_defs io_simps)

lemma word_writes:
  "writes UEDATX (iolog s (Endpoint_Write_16_LE d s)) = map ucast [ucast (d AND 0xFF), ucast (drop_bit 8 d) :: u8]"
  "writes UEDATX (iolog s (Endpoint_Write_16_BE d s)) = map ucast [ucast (drop_bit 8 d), ucast (d AND 0xFF) :: u8]"
  "writes UEDATX (iolog s (Endpoint_Write_32_LE e s)) =
     map ucast [ucast (e AND 0xFF), ucast (drop_bit 8 e), ucast (drop_bit 16 e), ucast (drop_bit 24 e) :: u8]"
  "writes UEDATX (iolog s (Endpoint_Write_32_BE e s)) =
     map ucast [ucast (drop_bit 24 e), ucast (drop_bit 16 e), ucast (drop_bit 8 e), ucast (e AND 0xFF) :: u8]"
  by (simp_all add: word_access_defs io_simps)

text \<open>
  Round trip through the FIFO in both byte orders: if the bytes read from the endpoint are those a
  16- or 32-bit write put there, in the same order, then the value read is the value written.
\<close>

lemma Endpoint_word_roundtrip:
  "(reads UEDATX (iolog t (snd (Endpoint_Read_16_LE t))) = writes UEDATX (iolog s (Endpoint_Write_16_LE d s)) \<longrightarrow>
      fst (Endpoint_Read_16_LE t) = d) \<and>
   (reads UEDATX (iolog t (snd (Endpoint_Read_16_BE t))) = writes UEDATX (iolog s (Endpoint_Write_16_BE d s)) \<longrightarrow>
      fst (Endpoint_Read_16_BE t) = d) \<and>
   (reads UEDATX (iolog t (snd (Endpoint_Read_32_LE t))) = writes UEDATX (iolog s (Endpoint_Write_32_LE e s)) \<longrightarrow>
      fst (Endpoint_Read_32_LE t) = e) \<and>
   (reads UEDATX (iolog t (snd (Endpoint_Read_32_BE t))) = writes UEDATX (iolog s (Endpoint_Write_32_BE e s)) \<longrightarrow>
      fst (Endpoint_Read_32_BE t) = e)"
  by (simp add: word_reads word_writes u16_of_bytes_split u32_of_bytes_split)

lemma Endpoint_word_roundtrip_example:
  "fst (Endpoint_Read_32_BE (boot_st (\<lambda>t _. [0x12, 0x34, 0x56, 0x78] ! length t))) = 0x12345678"
proof -
  let ?t = "boot_st (\<lambda>t _. [0x12, 0x34, 0x56, 0x78] ! length t)"
  have "reads UEDATX (iolog ?t (snd (Endpoint_Read_32_BE ?t))) =
      writes UEDATX (iolog ?t (Endpoint_Write_32_BE 0x12345678 ?t))"
    by (simp add: word_access_defs io_simps)
  then show ?thesis using Endpoint_word_roundtrip [of ?t ?t 0 "0x12345678"] by blast
qed

section \<open>Bank sizes\<close>

lemma ep_size_loop_returns:
  assumes "unat Bytes \<le> 2 ^ 15" "m \<le> 12" "m = 0 \<or> 8 * 2 ^ (m - 1) < unat Bytes"
  shows "\<exists>k. ep_size_loop Bytes (of_nat m) (of_nat (8 * 2 ^ m)) = Some (push_bit 4 (of_nat k)) \<and>
    unat Bytes \<le> 8 * 2 ^ k \<and> (k = 0 \<or> 8 * 2 ^ (k - 1) < unat Bytes)"
  using assms
proof (induction "12 - m" arbitrary: m)
  case 0
  then have m: "m = 12" by simp
  then have "\<not> of_nat (8 * 2 ^ m) < Bytes"
    using 0 by (simp add: word_less_nat_alt)
  then have "ep_size_loop Bytes (of_nat m) (of_nat (8 * 2 ^ m)) = Some (push_bit 4 (of_nat m))"
    by (subst ep_size_loop.simps) simp
  with 0 m show ?case by (intro exI [of _ m]) auto
next
  case (Suc j)
  have lt: "8 * 2 ^ m < (2 :: nat) ^ 16"
  proof -
    have "(2 :: nat) ^ m \<le> 2 ^ 12" using Suc by (intro power_increasing) auto
    then show ?thesis by simp
  qed
  then have u: "unat (of_nat (8 * 2 ^ m) :: u16) = 8 * 2 ^ m"
    by (subst unat_of_nat) simp
  show ?case
  proof (cases "of_nat (8 * 2 ^ m) < Bytes")
    case True
    then have "8 * 2 ^ m < unat Bytes" using u by (simp only: word_less_nat_alt)
    then have "\<exists>k. ep_size_loop Bytes (of_nat (Suc m)) (of_nat (8 * 2 ^ Suc m)) = Some (push_bit 4 (of_nat k)) \<and>
        unat Bytes \<le> 8 * 2 ^ k \<and> (k = 0 \<or> 8 * 2 ^ (k - 1) < unat Bytes)"
      using Suc by (intro Suc.hyps) auto
    moreover have "push_bit 1 (of_nat (8 * 2 ^ m) :: u16) = of_nat (8 * 2 ^ Suc m)" by simp
    ultimately show ?thesis
      using True by (subst ep_size_loop.simps) (simp add: add.commute)
  next
    case False
    then have "unat Bytes \<le> 8 * 2 ^ m" using u by (simp only: word_less_nat_alt not_less)
    with False Suc.prems show ?thesis by (subst ep_size_loop.simps) auto
  qed
qed

definition ep_size_stuck :: "u16 \<Rightarrow> u16 \<Rightarrow> bool" where
  "ep_size_stuck Bytes c \<longleftrightarrow> 2 ^ 15 < unat Bytes \<and> (c = 0 \<or> (\<exists>m\<le>12. c = of_nat (8 * 2 ^ m)))"

lemma ep_size_stuck_step:
  assumes "ep_size_stuck Bytes c"
  shows "c < Bytes \<and> ep_size_stuck Bytes (push_bit 1 c)"
proof (cases "c = 0")
  case True
  with assms show ?thesis by (auto simp: ep_size_stuck_def word_less_nat_alt)
next
  case False
  then obtain m where m: "m \<le> 12" "c = of_nat (8 * 2 ^ m)" using assms by (auto simp: ep_size_stuck_def)
  have "(2 :: nat) ^ m \<le> 2 ^ 12" using m(1) by (intro power_increasing) auto
  then have "unat c \<le> 2 ^ 15" unfolding m(2) by (subst unat_of_nat) simp
  then have lt: "c < Bytes" using assms by (simp add: ep_size_stuck_def word_less_nat_alt)
  have dbl: "push_bit 1 c = of_nat (8 * 2 ^ Suc m)" using m by simp
  show ?thesis
  proof (cases "m = 12")
    case True
    then have "push_bit 1 c = 0" using dbl by simp
    with lt assms show ?thesis by (simp add: ep_size_stuck_def)
  next
    case False
    with m(1) have "Suc m \<le> 12" by simp
    with lt dbl assms show ?thesis unfolding ep_size_stuck_def by blast
  qed
qed

lemma ep_size_loop_diverges: "ep_size_stuck Bytes c \<Longrightarrow> ep_size_loop Bytes v c = None"
proof (rule ccontr)
  assume stuck: "ep_size_stuck Bytes c" and "ep_size_loop Bytes v c \<noteq> None"
  then obtain r where r: "ep_size_loop Bytes v c = Some r" by auto
  have "\<not> ep_size_stuck Bytes c"
  proof (rule ep_size_loop.raw_induct [where P = "\<lambda>Bytes v c r. \<not> ep_size_stuck Bytes c", OF _ r])
    fix f and Bytes c :: u16 and v r :: u8
    assume IH: "\<And>Bytes v c r. f Bytes v c = Some r \<Longrightarrow> \<not> ep_size_stuck Bytes c"
      and eq: "(if c < Bytes then f Bytes (v + 1) (push_bit 1 c) else Some (push_bit 4 v)) = Some r"
    then show "\<not> ep_size_stuck Bytes c"
      using ep_size_stuck_step [of Bytes c] IH [of Bytes "v + 1" "push_bit 1 c" r] by (auto split: if_splits)
  qed
  with stuck show False by simp
qed

text \<open>
  C18. \<open>Endpoint_BytesToEPSizeMask\<close> returns exactly for sizes up to 32768 bytes, and then gives the size code of
  the smallest bank of at least that many bytes, banks being powers of two from 8 bytes on. For larger
  sizes the 16-bit doubling wraps around to zero and the loop never ends.
\<close>

theorem Endpoint_BytesToEPSizeMask_smallest:
  "(if unat Bytes \<le> 2 ^ 15
    then \<exists>k. Endpoint_BytesToEPSizeMask Bytes = Some (push_bit 4 (of_nat k)) \<and> unat Bytes \<le> 8 * 2 ^ k \<and>
      (k = 0 \<or> 8 * 2 ^ (k - 1) < unat Bytes)
    else Endpoint_BytesToEPSizeMask Bytes = None)"
proof (cases "unat Bytes \<le> 2 ^ 15")
  case True
  with ep_size_loop_returns [of Bytes 0] show ?thesis
    by (simp add: Endpoint_BytesToEPSizeMask_def)
next
  case False
  then have "ep_size_stuck Bytes 8"
    unfolding ep_size_stuck_def by (intro conjI disjI2 exI [of _ 0]) simp_all
  with False show ?thesis by (simp add: Endpoint_BytesToEPSizeMask_def ep_size_loop_diverges)
qed

section \<open>Waiting for a packet\<close>

lemmas ready_wait_defs =
  Endpoint_GetEndpointDirection_def Endpoint_IsINReady_def Endpoint_IsOUTReceived_def Endpoint_IsStalled_def
  USB_Device_GetFrameNumber_def

text \<open>
  A frame counter that does not stand still: after \<open>N\<close> reads of \<open>fnum\<close> in a row that returned the same
  number, the next read returns another one.
\<close>

definition frame_clock :: "vloc \<Rightarrow> nat \<Rightarrow> (io list \<Rightarrow> vloc \<Rightarrow> u16) \<Rightarrow> bool" where
  "frame_clock fnum N h \<longleftrightarrow> 0 < N \<and> (\<forall>tr t v. reads fnum t = replicate N v \<longrightarrow> h (tr @ t) fnum \<noteq> v)"

text \<open>
  A loop that polls until the frame number \<open>fnum\<close> has changed often enough: a round returns, or sees the
  frame number unchanged, or sees it changed and goes on with a smaller count.
\<close>

locale frame_poll =
  fixes fnum :: vloc and loop :: "u8 \<Rightarrow> u16 \<Rightarrow> usb_st \<Rightarrow> 'a option"
  assumes poll: "(\<And>u. reads fnum u = [] \<Longrightarrow> reading (ev s u) fnum v \<Longrightarrow> returns (\<lambda>_. True) (loop T v (ev s (u @ [Rd fnum v])))) \<Longrightarrow>
    (\<And>u f. T \<noteq> 0 \<Longrightarrow> returns (\<lambda>_. True) (loop (T - 1) f (ev s (u @ [Rd fnum f])))) \<Longrightarrow> returns (\<lambda>_. True) (loop T v s)"
begin

lemma loop_returns:
  assumes "frame_clock fnum N (hw s)" "trace s = tr @ t" "reads fnum t = replicate j v" "j \<le> N"
  shows "returns (\<lambda>_. True) (loop T v s)"
  using assms
proof (induction "unat T * (N + 1) + (N - j)" arbitrary: T j v s tr t rule: less_induct)
  case less
  note clock = less.prems(1) [unfolded frame_clock_def]
  show ?case
  proof (rule poll)
    fix u assume u: "reads fnum u = []" and f: "reading (ev s u) fnum v"
    have "j \<noteq> N"
    proof
      assume "j = N"
      then have "reads fnum (t @ u) = replicate N v" using less.prems(3) u by simp
      then have "hw s (tr @ t @ u) fnum \<noteq> v" using clock by blast
      with f less.prems(2) show False by (simp add: reading_def)
    qed
    moreover have "reads fnum (t @ u @ [Rd fnum v]) = replicate (Suc j) v"
      using less.prems(3) u by (simp only: reads_simps(1,3,4) append_Nil simp_thms if_True replicate_append_same replicate_Suc)
    ultimately show "returns (\<lambda>_. True) (loop T v (ev s (u @ [Rd fnum v])))"
      using less.prems by (intro less.hyps [of T "Suc j" _ tr "t @ u @ [Rd fnum v]"]) simp_all
  next
    fix u f assume "T \<noteq> 0"
    then have "0 < unat T" by (simp add: unat_gt_0)
    then have T: "unat T = Suc (unat (T - 1))" using unat_pred_word [of T] by simp
    show "returns (\<lambda>_. True) (loop (T - 1) f (ev s (u @ [Rd fnum f])))"
      by (rule less.hyps [of "T - 1" 1 _ "trace s @ u" "[Rd fnum f]" f])
         (use less.prems clock in \<open>simp_all add: T\<close>)
  qed
qed

lemma loop_returns_start:
  assumes "frame_clock fnum N (hw s)" "reading s fnum v"
  shows "returns (\<lambda>_. True) (loop T v (ev s [Rd fnum v]))"
  by (rule loop_returns [where N = N and tr = "trace s" and t = "[Rd fnum v]" and j = 1])
     (use assms in \<open>simp_all add: frame_clock_def\<close>)

end

interpretation ready_poll: frame_poll UDFNUM ready_wait_loop
proof
  fix s v T
  assume same: "\<And>u. reads UDFNUM u = [] \<Longrightarrow> reading (ev s u) UDFNUM v \<Longrightarrow>
      returns (\<lambda>_. True) (ready_wait_loop T v (ev s (u @ [Rd UDFNUM v])))"
    and changed: "\<And>u f. T \<noteq> 0 \<Longrightarrow> returns (\<lambda>_. True) (ready_wait_loop (T - 1) f (ev s (u @ [Rd UDFNUM f])))"
  note again = same [where u = "[a, b, c, d]" for a b c d, simplified] changed [where u = "[a, b, c, d]" for a b c d, simplified]
  show "returns (\<lambda>_. True) (ready_wait_loop T v s)"
    by (rule returns_eq [OF ready_wait_loop.simps], unfold ready_wait_defs, intro io_vcg)
       (simp_all add: again)
qed

text \<open>What the last events before the return must be, for each result.\<close>

definition ready_flag :: "u16 \<Rightarrow> u8" where
  "ready_flag c = (if (ucast c :: u8) AND EPDIR \<noteq> 0 then TXINI else RXOUTI)"

definition ready_verdict :: "u8 \<Rightarrow> io list \<Rightarrow> bool" where
  "ready_verdict code t =
     (if code = ENDPOINT_READYWAIT_NoError then (case rev t of Rd l i # Rd k c # _ \<Rightarrow> l = UEINTX \<and> k = UECFG0X \<and>
        (ucast i :: u8) AND ready_flag c \<noteq> 0 | _ \<Rightarrow> False)
      else if code = ENDPOINT_READYWAIT_EndpointStalled then
        (case rev t of Rd l w # _ \<Rightarrow> l = UECONX \<and> (ucast w :: u8) AND STALLRQ \<noteq> 0 | _ \<Rightarrow> False)
      else if code = ENDPOINT_READYWAIT_DeviceDisconnected then
        (case rev t of Rd l w # _ \<Rightarrow> l = USB_DeviceState \<and> (ucast w :: u8) = DEVICE_STATE_Unattached | _ \<Rightarrow> False)
      else if code = ENDPOINT_READYWAIT_BusSuspended then
        (case rev t of Rd l w # _ \<Rightarrow> l = USB_DeviceState \<and> (ucast w :: u8) = DEVICE_STATE_Suspended | _ \<Rightarrow> False)
      else code = ENDPOINT_READYWAIT_Timeout \<and> (case rev t of Rd l _ # _ \<Rightarrow> l = UDFNUM | _ \<Rightarrow> False))"

lemma ready_verdict_append: "ready_verdict code t \<Longrightarrow> ready_verdict code (u @ t)"
  by (cases "rev t" rule: remdups_adj.cases) (auto simp: ready_verdict_def split: io.splits if_splits)

definition ready_post :: "u8 \<Rightarrow> u16 \<Rightarrow> usb_st \<Rightarrow> u8 \<times> usb_st \<Rightarrow> bool" where
  "ready_post T v s = (\<lambda>(code, s'). \<exists>t. s' = ev s t \<and> (\<forall>l x. Wr l x \<notin> set t) \<and> (\<forall>x. Rd UEDATX x \<notin> set t) \<and>
     ready_verdict code t \<and> (code = ENDPOINT_READYWAIT_Timeout \<longrightarrow> length (remdups_adj (v # reads UDFNUM t)) = unat T + 2))"

lemma ready_post_leaf:
  "ready_post T v s (code, ev s t) \<longleftrightarrow> (\<forall>l x. Wr l x \<notin> set t) \<and> (\<forall>x. Rd UEDATX x \<notin> set t) \<and> ready_verdict code t \<and>
     (code = ENDPOINT_READYWAIT_Timeout \<longrightarrow> length (remdups_adj (v # reads UDFNUM t)) = unat T + 2)"
  by (auto simp: ready_post_def)

lemma ready_post_same:
  assumes "ready_post T v (ev s u) r" "\<forall>l x. Wr l x \<notin> set u" "\<forall>x. Rd UEDATX x \<notin> set u" "reads UDFNUM u = [v]"
  shows "ready_post T v s r"
proof -
  obtain code t where t: "r = (code, ev s (u @ t))" "\<forall>l x. Wr l x \<notin> set t" "\<forall>x. Rd UEDATX x \<notin> set t" "ready_verdict code t"
      "code = ENDPOINT_READYWAIT_Timeout \<longrightarrow> length (remdups_adj (v # reads UDFNUM t)) = unat T + 2"
    using assms(1) by (auto simp: ready_post_def)
  with assms(2-4) show ?thesis
    unfolding ready_post_def by (auto intro!: exI [of _ "u @ t"] intro: ready_verdict_append)
qed

lemma ready_post_changed:
  assumes "ready_post (T - 1) f (ev s u) r" "\<forall>l x. Wr l x \<notin> set u" "\<forall>x. Rd UEDATX x \<notin> set u" "reads UDFNUM u = [f]" "f \<noteq> v" "T \<noteq> 0"
  shows "ready_post T v s r"
proof -
  obtain code t where t: "r = (code, ev s (u @ t))" "\<forall>l x. Wr l x \<notin> set t" "\<forall>x. Rd UEDATX x \<notin> set t" "ready_verdict code t"
      "code = ENDPOINT_READYWAIT_Timeout \<longrightarrow> length (remdups_adj (f # reads UDFNUM t)) = unat (T - 1) + 2"
    using assms(1) by (auto simp: ready_post_def)
  have "unat T = Suc (unat (T - 1))" using assms(6) unat_pred_word [of T] by (simp add: unat_gt_0)
  with t assms(2-5) show ?thesis
    unfolding ready_post_def by (auto intro!: exI [of _ "u @ t"] intro: ready_verdict_append)
qed

lemma ready_wait_meaning: "always (ready_post T v s) (ready_wait_loop T v s)"
proof -
  have "ready_post T v s r" if ret: "ready_wait_loop T v s = Some r" for r
  proof (rule ready_wait_loop.raw_induct [where P = ready_post, OF _ ret])
    fix F T v s r
    assume "\<And>T v s r. F T v s = Some r \<Longrightarrow> ready_post T v s r"
    then have IH: "always (ready_post T v s) (F T v s)" for T v s by (simp add: always_def)
    have same: "always (ready_post T v s) (F T v (ev s [Rd a a', Rd b b', Rd c c', Rd d d', Rd UDFNUM v]))"
      if "set [a, b, c, d] \<inter> {UDFNUM, UEDATX} = {}" for a b c d a' b' c' d'
      by (rule always_mono [OF IH], erule ready_post_same) (use that in \<open>auto simp: reads_def\<close>)
    have changed: "always (ready_post T v s) (F (T - 1) f (ev s [Rd a a', Rd b b', Rd c c', Rd d d', Rd UDFNUM f]))"
      if "set [a, b, c, d] \<inter> {UDFNUM, UEDATX} = {}" "f \<noteq> v" "T \<noteq> 0" for a b c d a' b' c' d' f
      by (rule always_mono [OF IH], erule ready_post_changed) (use that in \<open>auto simp: reads_def\<close>)
    let ?body = "let (dir, s) = Endpoint_GetEndpointDirection s;
          (ready, s) = (if dir = ENDPOINT_DIR_IN then Endpoint_IsINReady s else Endpoint_IsOUTReceived s)
      in if ready then Some (ENDPOINT_READYWAIT_NoError, s)
         else let (USB_DeviceState_LCL, s) = rd8 USB_DeviceState s
              in if USB_DeviceState_LCL = DEVICE_STATE_Unattached then Some (ENDPOINT_READYWAIT_DeviceDisconnected, s)
                 else if USB_DeviceState_LCL = DEVICE_STATE_Suspended then Some (ENDPOINT_READYWAIT_BusSuspended, s)
                 else let (stalled, s) = Endpoint_IsStalled s
                      in if stalled then Some (ENDPOINT_READYWAIT_EndpointStalled, s)
                         else let (CurrentFrameNumber, s) = USB_Device_GetFrameNumber s
                              in if CurrentFrameNumber \<noteq> v
                                 then (if T = 0 then Some (ENDPOINT_READYWAIT_Timeout, s)
                                       else F (T - 1) CurrentFrameNumber s)
                                 else F T v s"
    have "always (ready_post T v s) ?body"
      unfolding ready_wait_defs
      by (intro io_vcg) (simp_all add: same changed ready_post_leaf ready_verdict_def ready_flag_def split: if_splits)
    then show "ready_post T v s r" if "?body = Some r" using that by (rule alwaysD)
  qed
  then show ?thesis by (simp add: always_def)
qed

text \<open>
  C17. Total correctness of \<open>Endpoint_WaitUntilReady\<close>: if the frame counter of the controller keeps running, the
  function returns, whatever else the hardware does. It writes no register and takes nothing from the
  FIFO, and its result says what was last seen: success only after the flag for the direction of the endpoint was read as set, stalled,
  disconnected and suspended only after the corresponding read, and a timeout only after the frame number
  has changed 101 times.
\<close>

theorem Endpoint_WaitUntilReady_total:
  assumes "frame_clock UDFNUM N (hw s)"
  shows "\<exists>code t. Endpoint_WaitUntilReady s = Some (code, ev s t) \<and> (\<forall>l x. Wr l x \<notin> set t) \<and> (\<forall>x. Rd UEDATX x \<notin> set t) \<and>
    ready_verdict code t \<and> (code = ENDPOINT_READYWAIT_Timeout \<longrightarrow> length (remdups_adj (reads UDFNUM t)) = 102)"
proof -
  let ?v = "hw s (trace s) UDFNUM"
  have "returns (\<lambda>_. True) (ready_wait_loop 100 ?v (ev s [Rd UDFNUM ?v]))"
    using assms by (rule ready_poll.loop_returns_start) (simp add: reading_def)
  then obtain r where r: "ready_wait_loop 100 ?v (ev s [Rd UDFNUM ?v]) = Some r" by (auto simp: returns_def)
  with ready_wait_meaning have "ready_post 100 ?v (ev s [Rd UDFNUM ?v]) r" by (rule alwaysD)
  then obtain code t where t: "r = (code, ev s (Rd UDFNUM ?v # t))" "\<forall>l x. Wr l x \<notin> set t" "\<forall>x. Rd UEDATX x \<notin> set t" "ready_verdict code t"
      "code = ENDPOINT_READYWAIT_Timeout \<longrightarrow> length (remdups_adj (?v # reads UDFNUM t)) = 102"
    by (auto simp: ready_post_def)
  moreover have "Endpoint_WaitUntilReady s = Some r"
    using r by (simp add: Endpoint_WaitUntilReady_def USB_Device_GetFrameNumber_def io_simps)
  ultimately show ?thesis
    using ready_verdict_append [OF t(4), of "[Rd UDFNUM ?v]"]
    by (intro exI [of _ code] exI [of _ "Rd UDFNUM ?v # t"]) simp
qed

theorem Endpoint_WaitUntilReady_total_witness:
  "let h = (\<lambda>t l. if l = UDFNUM then last (0 # reads UDFNUM t) + 1 else if l = USB_DeviceState then 4 else 0)
   in frame_clock UDFNUM 1 h \<and> (\<exists>code s'. Endpoint_WaitUntilReady (boot_st h) = Some (code, s'))"
proof -
  let ?h = "\<lambda>t l. if l = UDFNUM then last (0 # reads UDFNUM t) + 1 else if l = USB_DeviceState then 4 else 0"
  have clock: "frame_clock UDFNUM 1 ?h" by (auto simp: frame_clock_def)
  with Endpoint_WaitUntilReady_total [of 1 "boot_st ?h"] show ?thesis by auto
qed

section \<open>Allocation of the endpoint memory\<close>

text \<open>
  The registers of an endpoint are banked: they are those of the endpoint selected by the last write to
  \<open>sel\<close>. \<open>bank sel c e t\<close> are the accesses of \<open>t\<close> made while \<open>e\<close> was selected, if \<open>c\<close> was selected before.
\<close>

fun bank :: "vloc \<Rightarrow> u16 \<Rightarrow> u16 \<Rightarrow> io list \<Rightarrow> io list" where
  "bank sel c e [] = []"
| "bank sel c e (Rd l v # t) = (if c = e then Rd l v # bank sel c e t else bank sel c e t)"
| "bank sel c e (Wr l v # t) = (if l = sel then bank sel v e t else if c = e then Wr l v # bank sel c e t else bank sel c e t)"

text \<open>A register ends with the value it was first read with.\<close>

definition restored :: "io list \<Rightarrow> vloc \<Rightarrow> bool" where
  "restored b l \<longleftrightarrow> (\<exists>v \<in> set (take 1 (reads l b)). last_write l (ucast (ucast v :: u8)) b = ucast (ucast v :: u8))"

lemma bank_select:
  assumes "writes sel u = []"
  shows "bank sel c e (Wr sel k # u @ Wr sel j # t) = (if e = k then u else []) @ bank sel k e (Wr sel j # t)"
    and "bank sel c e (Wr sel k # u) = (if e = k then u else [])"
proof -
  have "bank sel k e (u @ t) = (if e = k then u else []) @ bank sel k e t" for t
    using assms by (induction u) (auto simp: writes_def split: io.splits if_splits)
  from this [of "Wr sel j # t"] this [of "[]"]
  show "bank sel c e (Wr sel k # u @ Wr sel j # t) = (if e = k then u else []) @ bank sel k e (Wr sel j # t)"
    and "bank sel c e (Wr sel k # u) = (if e = k then u else [])" by simp_all
qed

lemma endpoint_mask:
  assumes "k < ENDPOINT_TOTAL_ENDPOINTS"
  shows "k AND ENDPOINT_EPNUM_MASK = k"
proof -
  have "unat k < 2 ^ 4" using assms by (simp add: word_less_nat_alt)
  then have "take_bit 4 k = k" by (simp add: word_unat_eq_iff unsigned_take_bit_eq take_bit_nat_eq_self)
  moreover have "(0x0F :: u8) = mask 4" by (simp add: mask_eq_exp_minus_1)
  ultimately show ?thesis by (simp add: take_bit_eq_mask)
qed

lemmas config_defs = Endpoint_SelectEndpoint_def Endpoint_DisableEndpoint_def Endpoint_EnableEndpoint_def Endpoint_IsConfigured_def

text \<open>What a run of the loop over the endpoints behind the configured one does.\<close>

definition restores_from :: "u8 \<Rightarrow> u8 \<Rightarrow> usb_st \<Rightarrow> bool \<times> usb_st \<Rightarrow> bool" where
  "restores_from n k s r \<longleftrightarrow> (\<exists>ok v t. r = (ok, ev s (Wr UENUM v # t)) \<and> (ok \<longrightarrow> last_write UENUM v t = ucast n) \<and>
     (\<forall>c e. bank UENUM c e (Wr UENUM v # t) = [] \<or> unat k \<le> unat e \<and> unat e < 7 \<and>
       (\<forall>l \<in> {UECFG0X, UECFG1X, UEIENX}. restored (bank UENUM c e (Wr UENUM v # t)) l)))"

lemma restores_from_step:
  assumes "restores_from n (k + 1) (ev s (Wr UENUM (ucast k) # u)) r" and "writes UENUM u = []"
    and "\<forall>l \<in> {UECFG0X, UECFG1X, UEIENX}. restored u l" and "k < ENDPOINT_TOTAL_ENDPOINTS"
  shows "restores_from n k s r"
proof -
  have k: "unat k < 7" "unat (k + 1) = Suc (unat k)"
    using assms(4) unat_Suc_word [of k "7"] by (simp_all add: word_less_nat_alt)
  obtain ok v t where t: "r = (ok, ev s (Wr UENUM (ucast k) # u @ Wr UENUM v # t))" "ok \<longrightarrow> last_write UENUM v t = ucast n"
      "\<And>c e. bank UENUM c e (Wr UENUM v # t) = [] \<or> Suc (unat k) \<le> unat e \<and> unat e < 7 \<and>
        (\<forall>l \<in> {UECFG0X, UECFG1X, UEIENX}. restored (bank UENUM c e (Wr UENUM v # t)) l)"
    using assms(1) k unfolding restores_from_def by (auto simp del: bank.simps)
  have "bank UENUM c e (Wr UENUM (ucast k) # u @ Wr UENUM v # t) = [] \<or> unat k \<le> unat e \<and> unat e < 7 \<and>
      (\<forall>l \<in> {UECFG0X, UECFG1X, UEIENX}. restored (bank UENUM c e (Wr UENUM (ucast k) # u @ Wr UENUM v # t)) l)" for c e
    unfolding bank_select(1) [OF assms(2)] using t(3) [of "ucast k" e] k assms(3)
    by (cases "e = ucast k") (auto simp del: bank.simps)
  with t(1,2) show ?thesis
    unfolding restores_from_def
    by (intro exI [of _ ok] exI [of _ "ucast k"] exI [of _ "u @ Wr UENUM v # t"])
       (simp add: last_write_append last_write_def assms(2) del: bank.simps)
qed

lemma restores_from_fail:
  assumes "writes UENUM u = []" "\<forall>l \<in> {UECFG0X, UECFG1X, UEIENX}. restored u l" "k < ENDPOINT_TOTAL_ENDPOINTS"
  shows "restores_from n k s (False, ev s (Wr UENUM (ucast k) # u))"
  using assms unfolding restores_from_def
  by (intro exI [of _ False] exI [of _ "ucast k"] exI [of _ u])
     (auto simp: bank_select(2) word_less_nat_alt simp del: bank.simps)

lemma ep_config_loop_restores:
  assumes "n < k" "n < ENDPOINT_TOTAL_ENDPOINTS"
  shows "restores_from n k s (ep_config_loop n c0 c1 k s)"
  using assms
proof (induction "7 - unat k" arbitrary: k s rule: less_induct)
  case less
  show ?case
  proof (cases "k < ENDPOINT_TOTAL_ENDPOINTS")
    case False
    then have "ep_config_loop n c0 c1 k s = (True, ev s [Wr UENUM (ucast n)])"
      by (subst ep_config_loop.simps) (simp add: Endpoint_SelectEndpoint_def io_simps endpoint_mask less.prems)
    then show ?thesis
      by (auto simp: restores_from_def last_write_def)
  next
    case True
    have k: "unat k < 7" "unat (k + 1) = Suc (unat k)"
      using True unat_Suc_word [of k "7"] by (simp_all add: word_less_nat_alt)
    have IH: "restores_from n (k + 1) s' (ep_config_loop n c0 c1 (k + 1) s')" for s'
      using less.prems k by (intro less.hyps) (simp_all add: word_less_nat_alt)
    have step: "restores_from n k s (ep_config_loop n c0 c1 (k + 1) (ev s (Wr UENUM (ucast k) # u)))"
        "restores_from n k s (False, ev s (Wr UENUM (ucast k) # u))"
      if "writes UENUM u = []" "\<forall>l \<in> {UECFG0X, UECFG1X, UEIENX}. restored u l" for u
      using restores_from_step [OF IH that True] restores_from_fail [OF that True] by blast+
    have "yields (restores_from n k s) (ep_config_loop n c0 c1 k s)"
      by (rule yields_eq [OF ep_config_loop.simps], unfold config_defs, intro io_pure)
         (use True less.prems in \<open>simp_all add: yields_def io_simps endpoint_mask step restored_def last_write_def\<close>)
    then show ?thesis by (simp add: yields_def)
  qed
qed

text \<open>The whole loop: the first round configures the endpoint itself.\<close>

definition configures :: "u8 \<Rightarrow> u8 \<Rightarrow> u8 \<Rightarrow> io list \<Rightarrow> bool" where
  "configures n c0 c1 t \<longleftrightarrow> (\<forall>c. last_write UECFG0X 0 (bank UENUM c (ucast n) t) = ucast c0 \<and>
     last_write UECFG1X 0 (bank UENUM c (ucast n) t) = ucast c1 \<and>
     (\<forall>e. e \<noteq> ucast n \<longrightarrow> bank UENUM c e t = [] \<or> unat n < unat e \<and> unat e < 7 \<and>
       (\<forall>l \<in> {UECFG0X, UECFG1X, UEIENX}. restored (bank UENUM c e t) l)))"

lemma configures_round:
  assumes "writes UENUM u = []" "last_write UECFG0X 0 u = ucast c0" "last_write UECFG1X 0 u = ucast c1"
    and "n < ENDPOINT_TOTAL_ENDPOINTS"
  shows "configures n c0 c1 (Wr UENUM (ucast n) # u)"
    and "restores_from n (n + 1) (ev s (Wr UENUM (ucast n) # u)) r \<Longrightarrow>
      \<exists>ok t. r = (ok, ev s t) \<and> configures n c0 c1 t \<and> (ok \<longrightarrow> last_write UENUM 0 t = ucast n)"
proof -
  show "configures n c0 c1 (Wr UENUM (ucast n) # u)"
    using assms(2,3) by (simp add: configures_def bank_select(2) [OF assms(1)] del: bank.simps)
  assume "restores_from n (n + 1) (ev s (Wr UENUM (ucast n) # u)) r"
  moreover have n: "unat (n + 1) = Suc (unat n)" using assms(4) unat_Suc_word [of n "7"] by (simp add: word_less_nat_alt)
  ultimately obtain ok v t where t: "r = (ok, ev s (Wr UENUM (ucast n) # u @ Wr UENUM v # t))" "ok \<longrightarrow> last_write UENUM v t = ucast n"
      "\<And>c e. bank UENUM c e (Wr UENUM v # t) = [] \<or> Suc (unat n) \<le> unat e \<and> unat e < 7 \<and>
        (\<forall>l \<in> {UECFG0X, UECFG1X, UEIENX}. restored (bank UENUM c e (Wr UENUM v # t)) l)"
    unfolding restores_from_def by (auto simp del: bank.simps)
  have "bank UENUM c (ucast n) (Wr UENUM v # t) = []" for c using t(3) [of c "ucast n"] by auto
  then have "configures n c0 c1 (Wr UENUM (ucast n) # u @ Wr UENUM v # t)"
    unfolding configures_def bank_select(1) [OF assms(1)] using assms(2,3) t(3) by (auto simp del: bank.simps simp: Suc_le_eq)
  with t(1,2) show "\<exists>ok t. r = (ok, ev s t) \<and> configures n c0 c1 t \<and> (ok \<longrightarrow> last_write UENUM 0 t = ucast n)"
    by (intro exI [of _ ok] exI [of _ "Wr UENUM (ucast n) # u @ Wr UENUM v # t"])
       (simp add: last_write_append last_write_def assms(1))
qed

lemma Endpoint_ConfigureEndpoint_Prv_meaning:
  assumes "n < ENDPOINT_TOTAL_ENDPOINTS" "c1 AND ALLOC \<noteq> 0"
  shows "\<exists>ok t. Endpoint_ConfigureEndpoint_Prv n c0 c1 s = (ok, ev s t) \<and> configures n c0 c1 t \<and>
    (ok \<longrightarrow> last_write UENUM 0 t = ucast n)"
proof -
  define P where "P r \<longleftrightarrow> (\<exists>ok t. r = (ok, ev s t) \<and> configures n c0 c1 t \<and> (ok \<longrightarrow> last_write UENUM 0 t = ucast n))" for r
  have "n < n + 1" using assms(1) unat_Suc_word [of n "7"] by (simp add: word_less_nat_alt)
  then have loop: "restores_from n (n + 1) s' (ep_config_loop n c0 c1 (n + 1) s')" for s'
    using assms(1) by (rule ep_config_loop_restores)
  note rounds = configures_round [of _ c0 c1 n, OF _ _ _ assms(1)]
  have fail: "P (False, ev s (Wr UENUM (ucast n) # u))"
    if "writes UENUM u = []" "last_write UECFG0X 0 u = ucast c0" "last_write UECFG1X 0 u = ucast c1" for u
    using rounds(1) [OF that] by (auto simp: P_def)
  have go: "P (ep_config_loop n c0 c1 (n + 1) (ev s (Wr UENUM (ucast n) # u)))"
    if "writes UENUM u = []" "last_write UECFG0X 0 u = ucast c0" "last_write UECFG1X 0 u = ucast c1" for u
    unfolding P_def by (rule rounds(2) [OF that loop])
  have "yields P (ep_config_loop n c0 c1 n s)"
    by (rule yields_eq [OF ep_config_loop.simps], unfold config_defs, intro io_pure)
       (use assms in \<open>simp_all add: yields_def io_simps endpoint_mask fail go last_write_def\<close>)
  then show ?thesis unfolding yields_def P_def Endpoint_ConfigureEndpoint_Prv_def .
qed



end
