(* ===== verification/USB_Interrupts.thy ===== *)
theory USB_Interrupts
  imports Endpoint_AVR8
begin

text \<open>
  The interrupt sources of the controller (\<^verbatim>\<open>AVR8/USBInterrupt_AVR8.h\<close>): enabling, disabling, clearing and
  testing each of them, and the two functions of \<^verbatim>\<open>USBInterrupt_AVR8.c\<close> that act on all at once. The \<open>default\<close>
  cases of the switches are for values outside the enumeration and have no counterpart.
\<close>

section \<open>Register bits\<close>

abbreviation (input) VBUSTE :: u8 where "VBUSTE \<equiv> bmask 0"
abbreviation (input) IDTE :: u8 where "IDTE \<equiv> bmask 1"
abbreviation (input) WAKEUPE :: u8 where "WAKEUPE \<equiv> bmask 4"
abbreviation (input) SUSPE :: u8 where "SUSPE \<equiv> bmask 0"
abbreviation (input) EORSTE :: u8 where "EORSTE \<equiv> bmask 3"
abbreviation (input) SOFE :: u8 where "SOFE \<equiv> bmask 2"
abbreviation (input) RXSTPE :: u8 where "RXSTPE \<equiv> bmask 3"
abbreviation (input) HSOFE :: u8 where "HSOFE \<equiv> bmask 5"
abbreviation (input) DCONNE :: u8 where "DCONNE \<equiv> bmask 0"
abbreviation (input) DDISCE :: u8 where "DDISCE \<equiv> bmask 1"
abbreviation (input) RSTE :: u8 where "RSTE \<equiv> bmask 2"
abbreviation (input) BCERRE :: u8 where "BCERRE \<equiv> bmask 2"
abbreviation (input) VBERRE :: u8 where "VBERRE \<equiv> bmask 1"
abbreviation (input) SRPE :: u8 where "SRPE \<equiv> bmask 0"
abbreviation (input) VBUSTI :: u8 where "VBUSTI \<equiv> bmask 0"
abbreviation (input) IDTI :: u8 where "IDTI \<equiv> bmask 1"
abbreviation (input) WAKEUPI :: u8 where "WAKEUPI \<equiv> bmask 4"
abbreviation (input) SUSPI :: u8 where "SUSPI \<equiv> bmask 0"
abbreviation (input) EORSTI :: u8 where "EORSTI \<equiv> bmask 3"
abbreviation (input) SOFI :: u8 where "SOFI \<equiv> bmask 2"
abbreviation (input) HSOFI :: u8 where "HSOFI \<equiv> bmask 5"
abbreviation (input) DCONNI :: u8 where "DCONNI \<equiv> bmask 0"
abbreviation (input) DDISCI :: u8 where "DDISCI \<equiv> bmask 1"
abbreviation (input) RSTI :: u8 where "RSTI \<equiv> bmask 2"
abbreviation (input) BCERRI :: u8 where "BCERRI \<equiv> bmask 2"
abbreviation (input) VBERRI :: u8 where "VBERRI \<equiv> bmask 1"
abbreviation (input) SRPI :: u8 where "SRPI \<equiv> bmask 0"

section \<open>Sources\<close>

datatype USB_Interrupts_t =
    USB_INT_VBUSTI | USB_INT_IDTI | USB_INT_WAKEUPI | USB_INT_SUSPI | USB_INT_EORSTI | USB_INT_SOFI | USB_INT_RXSTPI
  | USB_INT_HSOFI | USB_INT_DCONNI | USB_INT_DDISCI | USB_INT_RSTI | USB_INT_BCERRI | USB_INT_VBERRI | USB_INT_SRPI

definition USB_INT_Enable :: "USB_Interrupts_t \<Rightarrow> usb_st \<Rightarrow> usb_st" where
  "USB_INT_Enable Interrupt s = (case Interrupt of
       USB_INT_VBUSTI \<Rightarrow> set_bits USBCON VBUSTE s
     | USB_INT_IDTI \<Rightarrow> set_bits USBCON IDTE s
     | USB_INT_WAKEUPI \<Rightarrow> set_bits UDIEN WAKEUPE s
     | USB_INT_SUSPI \<Rightarrow> set_bits UDIEN SUSPE s
     | USB_INT_EORSTI \<Rightarrow> set_bits UDIEN EORSTE s
     | USB_INT_SOFI \<Rightarrow> set_bits UDIEN SOFE s
     | USB_INT_RXSTPI \<Rightarrow> set_bits UEIENX RXSTPE s
     | USB_INT_HSOFI \<Rightarrow> set_bits UHIEN HSOFE s
     | USB_INT_DCONNI \<Rightarrow> set_bits UHIEN DCONNE s
     | USB_INT_DDISCI \<Rightarrow> set_bits UHIEN DDISCE s
     | USB_INT_RSTI \<Rightarrow> set_bits UHIEN RSTE s
     | USB_INT_BCERRI \<Rightarrow> set_bits OTGIEN BCERRE s
     | USB_INT_VBERRI \<Rightarrow> set_bits OTGIEN VBERRE s
     | USB_INT_SRPI \<Rightarrow> set_bits OTGIEN SRPE s)"

definition USB_INT_Disable :: "USB_Interrupts_t \<Rightarrow> usb_st \<Rightarrow> usb_st" where
  "USB_INT_Disable Interrupt s = (case Interrupt of
       USB_INT_VBUSTI \<Rightarrow> clear_bits USBCON VBUSTE s
     | USB_INT_IDTI \<Rightarrow> clear_bits USBCON IDTE s
     | USB_INT_WAKEUPI \<Rightarrow> clear_bits UDIEN WAKEUPE s
     | USB_INT_SUSPI \<Rightarrow> clear_bits UDIEN SUSPE s
     | USB_INT_EORSTI \<Rightarrow> clear_bits UDIEN EORSTE s
     | USB_INT_SOFI \<Rightarrow> clear_bits UDIEN SOFE s
     | USB_INT_RXSTPI \<Rightarrow> clear_bits UEIENX RXSTPE s
     | USB_INT_HSOFI \<Rightarrow> clear_bits UHIEN HSOFE s
     | USB_INT_DCONNI \<Rightarrow> clear_bits UHIEN DCONNE s
     | USB_INT_DDISCI \<Rightarrow> clear_bits UHIEN DDISCE s
     | USB_INT_RSTI \<Rightarrow> clear_bits UHIEN RSTE s
     | USB_INT_BCERRI \<Rightarrow> clear_bits OTGIEN BCERRE s
     | USB_INT_VBERRI \<Rightarrow> clear_bits OTGIEN VBERRE s
     | USB_INT_SRPI \<Rightarrow> clear_bits OTGIEN SRPE s)"

definition USB_INT_Clear :: "USB_Interrupts_t \<Rightarrow> usb_st \<Rightarrow> usb_st" where
  "USB_INT_Clear Interrupt s = (case Interrupt of
       USB_INT_VBUSTI \<Rightarrow> clear_bits USBINT VBUSTI s
     | USB_INT_IDTI \<Rightarrow> clear_bits USBINT IDTI s
     | USB_INT_WAKEUPI \<Rightarrow> clear_bits UDINT WAKEUPI s
     | USB_INT_SUSPI \<Rightarrow> clear_bits UDINT SUSPI s
     | USB_INT_EORSTI \<Rightarrow> clear_bits UDINT EORSTI s
     | USB_INT_SOFI \<Rightarrow> clear_bits UDINT SOFI s
     | USB_INT_RXSTPI \<Rightarrow> clear_bits UEINTX RXSTPI s
     | USB_INT_HSOFI \<Rightarrow> clear_bits UHINT HSOFI s
     | USB_INT_DCONNI \<Rightarrow> clear_bits UHINT DCONNI s
     | USB_INT_DDISCI \<Rightarrow> clear_bits UHINT DDISCI s
     | USB_INT_RSTI \<Rightarrow> clear_bits UHINT RSTI s
     | USB_INT_BCERRI \<Rightarrow> clear_bits OTGINT BCERRI s
     | USB_INT_VBERRI \<Rightarrow> clear_bits OTGINT VBERRI s
     | USB_INT_SRPI \<Rightarrow> clear_bits OTGINT SRPI s)"

definition USB_INT_IsEnabled :: "USB_Interrupts_t \<Rightarrow> usb_st \<Rightarrow> bool \<times> usb_st" where
  "USB_INT_IsEnabled Interrupt s = (case Interrupt of
       USB_INT_VBUSTI \<Rightarrow> test_bits USBCON VBUSTE s
     | USB_INT_IDTI \<Rightarrow> test_bits USBCON IDTE s
     | USB_INT_WAKEUPI \<Rightarrow> test_bits UDIEN WAKEUPE s
     | USB_INT_SUSPI \<Rightarrow> test_bits UDIEN SUSPE s
     | USB_INT_EORSTI \<Rightarrow> test_bits UDIEN EORSTE s
     | USB_INT_SOFI \<Rightarrow> test_bits UDIEN SOFE s
     | USB_INT_RXSTPI \<Rightarrow> test_bits UEIENX RXSTPE s
     | USB_INT_HSOFI \<Rightarrow> test_bits UHIEN HSOFE s
     | USB_INT_DCONNI \<Rightarrow> test_bits UHIEN DCONNE s
     | USB_INT_DDISCI \<Rightarrow> test_bits UHIEN DDISCE s
     | USB_INT_RSTI \<Rightarrow> test_bits UHIEN RSTE s
     | USB_INT_BCERRI \<Rightarrow> test_bits OTGIEN BCERRE s
     | USB_INT_VBERRI \<Rightarrow> test_bits OTGIEN VBERRE s
     | USB_INT_SRPI \<Rightarrow> test_bits OTGIEN SRPE s)"

definition USB_INT_HasOccurred :: "USB_Interrupts_t \<Rightarrow> usb_st \<Rightarrow> bool \<times> usb_st" where
  "USB_INT_HasOccurred Interrupt s = (case Interrupt of
       USB_INT_VBUSTI \<Rightarrow> test_bits USBINT VBUSTI s
     | USB_INT_IDTI \<Rightarrow> test_bits USBINT IDTI s
     | USB_INT_WAKEUPI \<Rightarrow> test_bits UDINT WAKEUPI s
     | USB_INT_SUSPI \<Rightarrow> test_bits UDINT SUSPI s
     | USB_INT_EORSTI \<Rightarrow> test_bits UDINT EORSTI s
     | USB_INT_SOFI \<Rightarrow> test_bits UDINT SOFI s
     | USB_INT_RXSTPI \<Rightarrow> test_bits UEINTX RXSTPI s
     | USB_INT_HSOFI \<Rightarrow> test_bits UHINT HSOFI s
     | USB_INT_DCONNI \<Rightarrow> test_bits UHINT DCONNI s
     | USB_INT_DDISCI \<Rightarrow> test_bits UHINT DDISCI s
     | USB_INT_RSTI \<Rightarrow> test_bits UHINT RSTI s
     | USB_INT_BCERRI \<Rightarrow> test_bits OTGINT BCERRI s
     | USB_INT_VBERRI \<Rightarrow> test_bits OTGINT VBERRI s
     | USB_INT_SRPI \<Rightarrow> test_bits OTGINT SRPI s)"

definition USB_INT_DisableAllInterrupts :: "usb_st \<Rightarrow> usb_st" where
  "USB_INT_DisableAllInterrupts s =
     (let s = clear_bits USBCON (VBUSTE OR IDTE) s;
          s = wr8 OTGIEN 0 s;
          s = wr8 UHIEN 0 s
      in wr8 UDIEN 0 s)"

definition USB_INT_ClearAllInterrupts :: "usb_st \<Rightarrow> usb_st" where
  "USB_INT_ClearAllInterrupts s = wr8 UDINT 0 (wr8 UHINT 0 (wr8 OTGINT 0 (wr8 USBINT 0 s)))"

end
