(* ===== verification/Pipe_AVR8.thy ===== *)
theory Pipe_AVR8
  imports Endpoint_AVR8
begin

text \<open>
  The pipe driver of the host side (\<^verbatim>\<open>Drivers/USB/Core/AVR8/Pipe_AVR8.h\<close> and \<^verbatim>\<open>.c\<close>): register accessors, the
  FIFO of a pipe, pipe configuration and the wait for a packet. The machine is that of \<open>Volatile_IO\<close>; words
  are assembled from their bytes as in the endpoint driver.
\<close>

section \<open>Register bits and constants\<close>

abbreviation (input) RXINI :: u8 where "RXINI \<equiv> bmask 0"
abbreviation (input) RXSTALLI :: u8 where "RXSTALLI \<equiv> bmask 1"
abbreviation (input) TXOUTI :: u8 where "TXOUTI \<equiv> bmask 2"
abbreviation (input) TXSTPI :: u8 where "TXSTPI \<equiv> bmask 3"
abbreviation (input) PERRI :: u8 where "PERRI \<equiv> bmask 4"
abbreviation (input) NAKEDI :: u8 where "NAKEDI \<equiv> bmask 6"
abbreviation (input) PEN :: u8 where "PEN \<equiv> bmask 0"
abbreviation (input) INMODE :: u8 where "INMODE \<equiv> bmask 5"
abbreviation (input) PFREEZE :: u8 where "PFREEZE \<equiv> bmask 6"
abbreviation (input) PTOKEN0 :: nat where "PTOKEN0 \<equiv> 4"
abbreviation (input) PTOKEN1 :: nat where "PTOKEN1 \<equiv> 5"
abbreviation (input) PEPNUM0 :: nat where "PEPNUM0 \<equiv> 0"

abbreviation (input) PIPE_TOKEN_SETUP :: u8 where "PIPE_TOKEN_SETUP \<equiv> push_bit PTOKEN0 0"
abbreviation (input) PIPE_TOKEN_IN :: u8 where "PIPE_TOKEN_IN \<equiv> push_bit PTOKEN0 1"
abbreviation (input) PIPE_TOKEN_OUT :: u8 where "PIPE_TOKEN_OUT \<equiv> push_bit PTOKEN0 2"
abbreviation (input) PIPE_DIR_IN :: u8 where "PIPE_DIR_IN \<equiv> 0x80"
abbreviation (input) PIPE_DIR_OUT :: u8 where "PIPE_DIR_OUT \<equiv> 0x00"
abbreviation (input) PIPE_PIPENUM_MASK :: u8 where "PIPE_PIPENUM_MASK \<equiv> 0x0F"
abbreviation (input) PIPE_EPNUM_MASK :: u8 where "PIPE_EPNUM_MASK \<equiv> 0x0F"
abbreviation (input) PIPE_CONTROLPIPE :: u8 where "PIPE_CONTROLPIPE \<equiv> 0"
abbreviation (input) PIPE_CONTROLPIPE_DEFAULT_SIZE :: u8 where "PIPE_CONTROLPIPE_DEFAULT_SIZE \<equiv> 64"
abbreviation (input) PIPE_TOTAL_PIPES :: u8 where "PIPE_TOTAL_PIPES \<equiv> 7"
abbreviation (input) PIPE_MAX_SIZE :: u16 where "PIPE_MAX_SIZE \<equiv> 256"
abbreviation (input) PIPE_READYWAIT_NoError :: u8 where "PIPE_READYWAIT_NoError \<equiv> 0"
abbreviation (input) PIPE_READYWAIT_PipeStalled :: u8 where "PIPE_READYWAIT_PipeStalled \<equiv> 1"
abbreviation (input) PIPE_READYWAIT_DeviceDisconnected :: u8 where "PIPE_READYWAIT_DeviceDisconnected \<equiv> 2"
abbreviation (input) PIPE_READYWAIT_Timeout :: u8 where "PIPE_READYWAIT_Timeout \<equiv> 3"
abbreviation (input) HOST_STATE_Unattached :: u8 where "HOST_STATE_Unattached \<equiv> 1"

abbreviation (input) PIPE_ERRORFLAG_OVERFLOW :: u8 where "PIPE_ERRORFLAG_OVERFLOW \<equiv> bmask 6"
abbreviation (input) PIPE_ERRORFLAG_UNDERFLOW :: u8 where "PIPE_ERRORFLAG_UNDERFLOW \<equiv> bmask 5"
abbreviation (input) PIPE_ERRORFLAG_CRC16 :: u8 where "PIPE_ERRORFLAG_CRC16 \<equiv> bmask 4"
abbreviation (input) PIPE_ERRORFLAG_TIMEOUT :: u8 where "PIPE_ERRORFLAG_TIMEOUT \<equiv> bmask 3"
abbreviation (input) PIPE_ERRORFLAG_PID :: u8 where "PIPE_ERRORFLAG_PID \<equiv> bmask 2"
abbreviation (input) PIPE_ERRORFLAG_DATAPID :: u8 where "PIPE_ERRORFLAG_DATAPID \<equiv> bmask 1"
abbreviation (input) PIPE_ERRORFLAG_DATATGL :: u8 where "PIPE_ERRORFLAG_DATATGL \<equiv> bmask 0"

section \<open>Register accessors\<close>

definition Pipe_BytesInPipe :: "usb_st \<Rightarrow> u16 \<times> usb_st" where
  "Pipe_BytesInPipe s = rd16 UPBCX s"

definition Pipe_GetPipeDirection :: "usb_st \<Rightarrow> u8 \<times> usb_st" where
  "Pipe_GetPipeDirection s = (let (d, s) = test_bits UPCFG0X EPDIR s in (if d then PIPE_DIR_IN else PIPE_DIR_OUT, s))"

definition Pipe_GetCurrentPipe :: "usb_st \<Rightarrow> u8 \<times> usb_st" where
  "Pipe_GetCurrentPipe s = 
     (let (n, s) = rd8 UPNUM s; (d, s) = Pipe_GetPipeDirection s in ((n AND PIPE_PIPENUM_MASK) OR d, s))"

definition Pipe_SelectPipe :: "u8 \<Rightarrow> usb_st \<Rightarrow> usb_st" where
  "Pipe_SelectPipe Address s = wr8 UPNUM (Address AND PIPE_PIPENUM_MASK) s"

definition Pipe_ResetPipe :: "u8 \<Rightarrow> usb_st \<Rightarrow> usb_st" where
  "Pipe_ResetPipe Address s = 
     wr8 UPRST 0 (wr8 UPRST (bmask (unat (Address AND PIPE_PIPENUM_MASK))) s)"

definition Pipe_EnablePipe :: "usb_st \<Rightarrow> usb_st" where
  "Pipe_EnablePipe s = set_bits UPCONX PEN s"

definition Pipe_DisablePipe :: "usb_st \<Rightarrow> usb_st" where
  "Pipe_DisablePipe s = clear_bits UPCONX PEN s"

definition Pipe_IsEnabled :: "usb_st \<Rightarrow> bool \<times> usb_st" where
  "Pipe_IsEnabled s = test_bits UPCONX PEN s"

definition Pipe_GetPipeToken :: "usb_st \<Rightarrow> u8 \<times> usb_st" where
  "Pipe_GetPipeToken s = (let (v, s) = rd8 UPCFG0X s in (v AND push_bit PTOKEN0 3, s))"

definition Pipe_SetPipeToken :: "u8 \<Rightarrow> usb_st \<Rightarrow> usb_st" where
  "Pipe_SetPipeToken Token s = 
     (let (v, s) = rd8 UPCFG0X s in wr8 UPCFG0X ((v AND NOT (push_bit PTOKEN0 3)) OR Token) s)"

definition Pipe_SetInfiniteINRequests :: "usb_st \<Rightarrow> usb_st" where
  "Pipe_SetInfiniteINRequests s = set_bits UPCONX INMODE s"

definition Pipe_SetFiniteINRequests :: "u8 \<Rightarrow> usb_st \<Rightarrow> usb_st" where
  "Pipe_SetFiniteINRequests TotalINRequests s = 
     wr8 UPINRQX TotalINRequests (clear_bits UPCONX INMODE s)"

definition Pipe_IsConfigured :: "usb_st \<Rightarrow> bool \<times> usb_st" where
  "Pipe_IsConfigured s = test_bits UPSTAX CFGOK s"

definition Pipe_GetBoundEndpointAddress :: "usb_st \<Rightarrow> u8 \<times> usb_st" where
  "Pipe_GetBoundEndpointAddress s = 
     (let (UPCFG0X_Temp, s) = rd8 UPCFG0X s
      in ((drop_bit PEPNUM0 UPCFG0X_Temp AND PIPE_EPNUM_MASK) OR
          (if UPCFG0X_Temp AND bmask PTOKEN1 \<noteq> 0 then ENDPOINT_DIR_IN else ENDPOINT_DIR_OUT), s))"

definition Pipe_SetInterruptPeriod :: "u8 \<Rightarrow> usb_st \<Rightarrow> usb_st" where
  "Pipe_SetInterruptPeriod Milliseconds s = wr8 UPCFG2X Milliseconds s"

definition Pipe_GetPipeInterrupts :: "usb_st \<Rightarrow> u8 \<times> usb_st" where
  "Pipe_GetPipeInterrupts s = rd8 UPINT s"

definition Pipe_HasPipeInterrupted :: "u8 \<Rightarrow> usb_st \<Rightarrow> bool \<times> usb_st" where
  "Pipe_HasPipeInterrupted Address s = 
     test_bits UPINT (bmask (unat (Address AND PIPE_PIPENUM_MASK))) s"

definition Pipe_Unfreeze :: "usb_st \<Rightarrow> usb_st" where
  "Pipe_Unfreeze s = clear_bits UPCONX PFREEZE s"

definition Pipe_Freeze :: "usb_st \<Rightarrow> usb_st" where
  "Pipe_Freeze s = set_bits UPCONX PFREEZE s"

definition Pipe_IsFrozen :: "usb_st \<Rightarrow> bool \<times> usb_st" where
  "Pipe_IsFrozen s = test_bits UPCONX PFREEZE s"

definition Pipe_ClearError :: "usb_st \<Rightarrow> usb_st" where
  "Pipe_ClearError s = clear_bits UPINTX PERRI (wr8 UPERRX 0 s)"

definition Pipe_IsError :: "usb_st \<Rightarrow> bool \<times> usb_st" where
  "Pipe_IsError s = test_bits UPINTX PERRI s"

definition Pipe_GetErrorFlags :: "usb_st \<Rightarrow> u8 \<times> usb_st" where
  "Pipe_GetErrorFlags s = 
     (let (e, s) = rd8 UPERRX s; (st, s) = rd8 UPSTAX s
      in ((e AND (PIPE_ERRORFLAG_CRC16 OR PIPE_ERRORFLAG_TIMEOUT OR PIPE_ERRORFLAG_PID OR PIPE_ERRORFLAG_DATAPID OR
             PIPE_ERRORFLAG_DATATGL)) OR
          (st AND (PIPE_ERRORFLAG_OVERFLOW OR PIPE_ERRORFLAG_UNDERFLOW)), s))"

definition Pipe_GetBusyBanks :: "usb_st \<Rightarrow> u8 \<times> usb_st" where
  "Pipe_GetBusyBanks s = (let (v, s) = rd8 UPSTAX s in (v AND 0x03, s))"

definition Pipe_IsReadWriteAllowed :: "usb_st \<Rightarrow> bool \<times> usb_st" where
  "Pipe_IsReadWriteAllowed s = test_bits UPINTX RWAL s"

definition Pipe_IsINReceived :: "usb_st \<Rightarrow> bool \<times> usb_st" where
  "Pipe_IsINReceived s = test_bits UPINTX RXINI s"

definition Pipe_IsOUTReady :: "usb_st \<Rightarrow> bool \<times> usb_st" where
  "Pipe_IsOUTReady s = test_bits UPINTX TXOUTI s"

definition Pipe_IsSETUPSent :: "usb_st \<Rightarrow> bool \<times> usb_st" where
  "Pipe_IsSETUPSent s = test_bits UPINTX TXSTPI s"

definition Pipe_ClearSETUP :: "usb_st \<Rightarrow> usb_st" where
  "Pipe_ClearSETUP s = clear_bits UPINTX (TXSTPI OR FIFOCON) s"

definition Pipe_ClearIN :: "usb_st \<Rightarrow> usb_st" where
  "Pipe_ClearIN s = clear_bits UPINTX (RXINI OR FIFOCON) s"

definition Pipe_ClearOUT :: "usb_st \<Rightarrow> usb_st" where
  "Pipe_ClearOUT s = clear_bits UPINTX (TXOUTI OR FIFOCON) s"

definition Pipe_IsNAKReceived :: "usb_st \<Rightarrow> bool \<times> usb_st" where
  "Pipe_IsNAKReceived s = test_bits UPINTX NAKEDI s"

definition Pipe_ClearNAKReceived :: "usb_st \<Rightarrow> usb_st" where
  "Pipe_ClearNAKReceived s = clear_bits UPINTX NAKEDI s"

definition Pipe_IsStalled :: "usb_st \<Rightarrow> bool \<times> usb_st" where
  "Pipe_IsStalled s = test_bits UPINTX RXSTALLI s"

definition Pipe_ClearStall :: "usb_st \<Rightarrow> usb_st" where
  "Pipe_ClearStall s = clear_bits UPINTX RXSTALLI s"

section \<open>The FIFO\<close>

definition Pipe_Read_8 :: "usb_st \<Rightarrow> u8 \<times> usb_st" where
  "Pipe_Read_8 s = rd8 UPDATX s"

definition Pipe_Write_8 :: "u8 \<Rightarrow> usb_st \<Rightarrow> usb_st" where
  "Pipe_Write_8 Data s = wr8 UPDATX Data s"

definition Pipe_Discard_8 :: "usb_st \<Rightarrow> usb_st" where
  "Pipe_Discard_8 s = snd (rd8 UPDATX s)"

definition Pipe_Read_16_LE :: "usb_st \<Rightarrow> u16 \<times> usb_st" where
  "Pipe_Read_16_LE s = (let (b0, s) = rd8 UPDATX s; (b1, s) = rd8 UPDATX s in (u16_of_bytes b0 b1, s))"

definition Pipe_Read_16_BE :: "usb_st \<Rightarrow> u16 \<times> usb_st" where
  "Pipe_Read_16_BE s = (let (b1, s) = rd8 UPDATX s; (b0, s) = rd8 UPDATX s in (u16_of_bytes b0 b1, s))"

definition Pipe_Write_16_LE :: "u16 \<Rightarrow> usb_st \<Rightarrow> usb_st" where
  "Pipe_Write_16_LE Data s = wr8 UPDATX (ucast (drop_bit 8 Data)) (wr8 UPDATX (ucast (Data AND 0xFF)) s)"

definition Pipe_Write_16_BE :: "u16 \<Rightarrow> usb_st \<Rightarrow> usb_st" where
  "Pipe_Write_16_BE Data s = wr8 UPDATX (ucast (Data AND 0xFF)) (wr8 UPDATX (ucast (drop_bit 8 Data)) s)"

definition Pipe_Discard_16 :: "usb_st \<Rightarrow> usb_st" where
  "Pipe_Discard_16 s = snd (rd8 UPDATX (snd (rd8 UPDATX s)))"

definition Pipe_Read_32_LE :: "usb_st \<Rightarrow> u32 \<times> usb_st" where
  "Pipe_Read_32_LE s = (let (b0, s) = rd8 UPDATX s; (b1, s) = rd8 UPDATX s; (b2, s) = rd8 UPDATX s;
     (b3, s) = rd8 UPDATX s in (u32_of_bytes b0 b1 b2 b3, s))"

definition Pipe_Read_32_BE :: "usb_st \<Rightarrow> u32 \<times> usb_st" where
  "Pipe_Read_32_BE s = (let (b3, s) = rd8 UPDATX s; (b2, s) = rd8 UPDATX s; (b1, s) = rd8 UPDATX s;
     (b0, s) = rd8 UPDATX s in (u32_of_bytes b0 b1 b2 b3, s))"

definition Pipe_Write_32_LE :: "u32 \<Rightarrow> usb_st \<Rightarrow> usb_st" where
  "Pipe_Write_32_LE Data s =
     wr8 UPDATX (ucast (drop_bit 24 Data)) (wr8 UPDATX (ucast (drop_bit 16 Data))
       (wr8 UPDATX (ucast (drop_bit 8 Data)) (wr8 UPDATX (ucast (Data AND 0xFF)) s)))"

definition Pipe_Write_32_BE :: "u32 \<Rightarrow> usb_st \<Rightarrow> usb_st" where
  "Pipe_Write_32_BE Data s =
     wr8 UPDATX (ucast (Data AND 0xFF)) (wr8 UPDATX (ucast (drop_bit 8 Data))
       (wr8 UPDATX (ucast (drop_bit 16 Data)) (wr8 UPDATX (ucast (drop_bit 24 Data)) s)))"

definition Pipe_Discard_32 :: "usb_st \<Rightarrow> usb_st" where
  "Pipe_Discard_32 s = snd (rd8 UPDATX (snd (rd8 UPDATX (snd (rd8 UPDATX (snd (rd8 UPDATX s)))))))"

section \<open>Configuration\<close>

record USB_Pipe_Table_t =
  PP_Address :: u8
  PP_Size :: u16
  PP_EndpointAddress :: u8
  PP_Type :: u8
  PP_Banks :: u8

partial_function (option) pipe_size_loop :: "u16 \<Rightarrow> u8 \<Rightarrow> u16 \<Rightarrow> u8 option" where
  "pipe_size_loop Bytes MaskVal CheckBytes =
     (if CheckBytes < Bytes \<and> CheckBytes < PIPE_MAX_SIZE
      then pipe_size_loop Bytes (MaskVal + 1) (push_bit 1 CheckBytes)
      else Some (push_bit 4 MaskVal))"

definition Pipe_BytesToEPSizeMask :: "u16 \<Rightarrow> u8 option" where
  "Pipe_BytesToEPSizeMask Bytes = pipe_size_loop Bytes 0 8"

function pipe_config_loop :: "u8 \<Rightarrow> u8 \<Rightarrow> u8 \<Rightarrow> u8 \<Rightarrow> usb_st \<Rightarrow> bool \<times> usb_st" where
  "pipe_config_loop Number UPCFG0XData UPCFG1XData PNum s =
     (if PNum < PIPE_TOTAL_PIPES then
        let s = Pipe_SelectPipe PNum s;
            (UPCFG0XTemp, UPCFG1XTemp, UPCFG2XTemp, UPIENXTemp, s) =
              (if PNum = Number then (UPCFG0XData, UPCFG1XData, 0, 0, s)
               else let (c0, s) = rd8 UPCFG0X s; (c1, s) = rd8 UPCFG1X s; (c2, s) = rd8 UPCFG2X s; (ien, s) = rd8 UPIENX s
                    in (c0, c1, c2, ien, s))
        in if UPCFG1XTemp AND ALLOC = 0 then pipe_config_loop Number UPCFG0XData UPCFG1XData (PNum + 1) s
           else let s = Pipe_DisablePipe s;
                    s = clear_bits UPCFG1X ALLOC s;
                    s = Pipe_EnablePipe s;
                    s = wr8 UPCFG0X UPCFG0XTemp s;
                    s = wr8 UPCFG1X UPCFG1XTemp s;
                    s = wr8 UPCFG2X UPCFG2XTemp s;
                    s = wr8 UPIENX UPIENXTemp s;
                    s = Pipe_SetInfiniteINRequests s;
                    (ok, s) = Pipe_IsConfigured s
                in if \<not> ok then (False, s) else pipe_config_loop Number UPCFG0XData UPCFG1XData (PNum + 1) s
      else (True, Pipe_SelectPipe Number s))"
  by pat_completeness auto
termination
proof (relation "measure (\<lambda>(_, _, _, PNum, _). 7 - unat PNum)", goal_cases)
  case 1
  show ?case by simp
next
  case (2 Number c0 c1 PNum)
  then have "unat PNum < unat (7 :: u8)" by (simp add: word_less_nat_alt)
  with unat_Suc_word [OF this] show ?case by simp
next
  case (3 Number c0 c1 PNum)
  then have "unat PNum < unat (7 :: u8)" by (simp add: word_less_nat_alt)
  with unat_Suc_word [OF this] show ?case by simp
qed

declare pipe_config_loop.simps [simp del]

text \<open>The configuration values are computed in the first round of the loop of the source.\<close>

definition Pipe_ConfigurePipe :: "u8 \<Rightarrow> u8 \<Rightarrow> u8 \<Rightarrow> u16 \<Rightarrow> u8 \<Rightarrow> usb_st \<Rightarrow> (bool \<times> usb_st) option" where
  "Pipe_ConfigurePipe Address Type EndpointAddress Size Banks s =
     (let Number = Address AND PIPE_EPNUM_MASK;
          Token = (if Address AND PIPE_DIR_IN \<noteq> 0 then PIPE_TOKEN_IN else PIPE_TOKEN_OUT)
      in if Number \<ge> PIPE_TOTAL_PIPES then Some (False, s)
         else let Token = (if Type = EP_TYPE_CONTROL then PIPE_TOKEN_SETUP else Token)
              in do {
                mask \<leftarrow> Pipe_BytesToEPSizeMask Size;
                Some (pipe_config_loop Number
                  (push_bit 6 Type OR Token OR push_bit PEPNUM0 (EndpointAddress AND PIPE_EPNUM_MASK))
                  (ALLOC OR (if Banks > 1 then EPBK0 else 0) OR mask) Number s) })"

fun Pipe_ConfigurePipeTable :: "USB_Pipe_Table_t list \<Rightarrow> usb_st \<Rightarrow> (bool \<times> usb_st) option" where
  "Pipe_ConfigurePipeTable [] s = Some (True, s)"
| "Pipe_ConfigurePipeTable (e # Table) s =
     (if PP_Address e = 0 then Pipe_ConfigurePipeTable Table s
      else do {
        (ok, s) \<leftarrow> Pipe_ConfigurePipe (PP_Address e) (PP_Type e) (PP_EndpointAddress e) (PP_Size e) (PP_Banks e) s;
        if \<not> ok then Some (False, s) else Pipe_ConfigurePipeTable Table s })"

definition Pipe_ClearPipes :: "usb_st \<Rightarrow> usb_st" where
  "Pipe_ClearPipes s =
     fold (\<lambda>PNum s. Pipe_DisablePipe (wr8 UPCFG1X 0 (wr8 UPINTX 0 (wr8 UPIENX 0 (Pipe_SelectPipe PNum s)))))
       [0, 1, 2, 3, 4, 5, 6] (wr8 UPINT 0 s)"

fun pipe_bound_loop :: "u8 \<Rightarrow> u8 list \<Rightarrow> usb_st \<Rightarrow> bool \<times> usb_st" where
  "pipe_bound_loop EndpointAddress [] s = (False, s)"
| "pipe_bound_loop EndpointAddress (PNum # PNums) s =
     (let s = Pipe_SelectPipe PNum s; (ok, s) = Pipe_IsConfigured s
      in if \<not> ok then pipe_bound_loop EndpointAddress PNums s
         else let (b, s) = Pipe_GetBoundEndpointAddress s
              in if b = EndpointAddress then (True, s) else pipe_bound_loop EndpointAddress PNums s)"

definition Pipe_IsEndpointBound :: "u8 \<Rightarrow> usb_st \<Rightarrow> bool \<times> usb_st" where
  "Pipe_IsEndpointBound EndpointAddress s =
     (let (PrevPipeNumber, s) = Pipe_GetCurrentPipe s;
          (found, s) = pipe_bound_loop EndpointAddress [0, 1, 2, 3, 4, 5, 6] s
      in if found then (True, s) else (False, Pipe_SelectPipe PrevPipeNumber s))"

section \<open>Waiting for the device\<close>

definition USB_Host_GetFrameNumber :: "usb_st \<Rightarrow> u16 \<times> usb_st" where
  "USB_Host_GetFrameNumber s = rd16 UHFNUM s"

partial_function (option) pipe_wait_loop :: "u8 \<Rightarrow> u16 \<Rightarrow> usb_st \<Rightarrow> (u8 \<times> usb_st) option" where
  "pipe_wait_loop TimeoutMSRem PreviousFrameNumber s =
     (let (tok, s) = Pipe_GetPipeToken s;
          (ready, s) = (if tok = PIPE_TOKEN_IN then Pipe_IsINReceived s else Pipe_IsOUTReady s)
      in if ready then Some (PIPE_READYWAIT_NoError, s)
         else let (stalled, s) = Pipe_IsStalled s
              in if stalled then Some (PIPE_READYWAIT_PipeStalled, s)
                 else let (st, s) = rd8 USB_HostState s
                      in if st = HOST_STATE_Unattached then Some (PIPE_READYWAIT_DeviceDisconnected, s)
                         else let (CurrentFrameNumber, s) = USB_Host_GetFrameNumber s
                              in if CurrentFrameNumber \<noteq> PreviousFrameNumber
                                 then (if TimeoutMSRem = 0 then Some (PIPE_READYWAIT_Timeout, s)
                                       else pipe_wait_loop (TimeoutMSRem - 1) CurrentFrameNumber s)
                                 else pipe_wait_loop TimeoutMSRem PreviousFrameNumber s)"

definition Pipe_WaitUntilReady :: "usb_st \<Rightarrow> (u8 \<times> usb_st) option" where
  "Pipe_WaitUntilReady s =
     (let (PreviousFrameNumber, s) = USB_Host_GetFrameNumber s
      in pipe_wait_loop USB_STREAM_TIMEOUT_MS PreviousFrameNumber s)"

declare pipe_size_loop.simps [code] pipe_wait_loop.simps [code]

section \<open>The wait\<close>

lemmas pipe_wait_defs =
  Pipe_GetPipeToken_def Pipe_IsINReceived_def Pipe_IsOUTReady_def Pipe_IsStalled_def USB_Host_GetFrameNumber_def

interpretation pipe_poll: frame_poll UHFNUM pipe_wait_loop
proof
  fix s v T
  assume same: "\<And>u. reads UHFNUM u = [] \<Longrightarrow> reading (ev s u) UHFNUM v \<Longrightarrow>
      returns (\<lambda>_. True) (pipe_wait_loop T v (ev s (u @ [Rd UHFNUM v])))"
    and changed: "\<And>u f. T \<noteq> 0 \<Longrightarrow> returns (\<lambda>_. True) (pipe_wait_loop (T - 1) f (ev s (u @ [Rd UHFNUM f])))"
  note again = same [where u = "[a, b, c, d]" for a b c d, simplified] changed [where u = "[a, b, c, d]" for a b c d, simplified]
  show "returns (\<lambda>_. True) (pipe_wait_loop T v s)"
    by (rule returns_eq [OF pipe_wait_loop.simps], unfold pipe_wait_defs, intro io_vcg)
       (simp_all add: again)
qed

text \<open>What the last events before the return must be, for each result.\<close>

definition pipe_flag :: "u16 \<Rightarrow> u8" where
  "pipe_flag c = (if (ucast c :: u8) AND push_bit PTOKEN0 3 = PIPE_TOKEN_IN then RXINI else TXOUTI)"

definition pipe_verdict :: "u8 \<Rightarrow> io list \<Rightarrow> bool" where
  "pipe_verdict code t =
     (if code = PIPE_READYWAIT_NoError then (case rev t of Rd l i # Rd k c # _ \<Rightarrow> l = UPINTX \<and> k = UPCFG0X \<and>
        (ucast i :: u8) AND pipe_flag c \<noteq> 0 | _ \<Rightarrow> False)
      else if code = PIPE_READYWAIT_PipeStalled then
        (case rev t of Rd l w # _ \<Rightarrow> l = UPINTX \<and> (ucast w :: u8) AND RXSTALLI \<noteq> 0 | _ \<Rightarrow> False)
      else if code = PIPE_READYWAIT_DeviceDisconnected then
        (case rev t of Rd l w # _ \<Rightarrow> l = USB_HostState \<and> (ucast w :: u8) = HOST_STATE_Unattached | _ \<Rightarrow> False)
      else code = PIPE_READYWAIT_Timeout \<and> (case rev t of Rd l _ # _ \<Rightarrow> l = UHFNUM | _ \<Rightarrow> False))"

lemma pipe_verdict_append: "pipe_verdict code t \<Longrightarrow> pipe_verdict code (u @ t)"
  by (cases "rev t" rule: remdups_adj.cases) (auto simp: pipe_verdict_def split: io.splits if_splits)

definition pipe_post :: "u8 \<Rightarrow> u16 \<Rightarrow> usb_st \<Rightarrow> u8 \<times> usb_st \<Rightarrow> bool" where
  "pipe_post T v s = (\<lambda>(code, s'). \<exists>t. s' = ev s t \<and> (\<forall>l x. Wr l x \<notin> set t) \<and> (\<forall>x. Rd UPDATX x \<notin> set t) \<and>
     pipe_verdict code t \<and> (code = PIPE_READYWAIT_Timeout \<longrightarrow> length (remdups_adj (v # reads UHFNUM t)) = unat T + 2))"

lemma pipe_post_leaf:
  "pipe_post T v s (code, ev s t) \<longleftrightarrow> (\<forall>l x. Wr l x \<notin> set t) \<and> (\<forall>x. Rd UPDATX x \<notin> set t) \<and> pipe_verdict code t \<and>
     (code = PIPE_READYWAIT_Timeout \<longrightarrow> length (remdups_adj (v # reads UHFNUM t)) = unat T + 2)"
  by (auto simp: pipe_post_def)

lemma pipe_post_same:
  assumes "pipe_post T v (ev s u) r" "\<forall>l x. Wr l x \<notin> set u" "\<forall>x. Rd UPDATX x \<notin> set u" "reads UHFNUM u = [v]"
  shows "pipe_post T v s r"
proof -
  obtain code t where t: "r = (code, ev s (u @ t))" "\<forall>l x. Wr l x \<notin> set t" "\<forall>x. Rd UPDATX x \<notin> set t" "pipe_verdict code t"
      "code = PIPE_READYWAIT_Timeout \<longrightarrow> length (remdups_adj (v # reads UHFNUM t)) = unat T + 2"
    using assms(1) by (auto simp: pipe_post_def)
  with assms(2-4) show ?thesis
    unfolding pipe_post_def by (auto intro!: exI [of _ "u @ t"] intro: pipe_verdict_append)
qed

lemma pipe_post_changed:
  assumes "pipe_post (T - 1) f (ev s u) r" "\<forall>l x. Wr l x \<notin> set u" "\<forall>x. Rd UPDATX x \<notin> set u" "reads UHFNUM u = [f]"
    and "f \<noteq> v" "T \<noteq> 0"
  shows "pipe_post T v s r"
proof -
  obtain code t where t: "r = (code, ev s (u @ t))" "\<forall>l x. Wr l x \<notin> set t" "\<forall>x. Rd UPDATX x \<notin> set t" "pipe_verdict code t"
      "code = PIPE_READYWAIT_Timeout \<longrightarrow> length (remdups_adj (f # reads UHFNUM t)) = unat (T - 1) + 2"
    using assms(1) by (auto simp: pipe_post_def)
  have "unat T = Suc (unat (T - 1))" using assms(6) unat_pred_word [of T] by (simp add: unat_gt_0)
  with t assms(2-5) show ?thesis
    unfolding pipe_post_def by (auto intro!: exI [of _ "u @ t"] intro: pipe_verdict_append)
qed

lemma pipe_wait_meaning: "always (pipe_post T v s) (pipe_wait_loop T v s)"
proof -
  have "pipe_post T v s r" if ret: "pipe_wait_loop T v s = Some r" for r
  proof (rule pipe_wait_loop.raw_induct [where P = pipe_post, OF _ ret])
    fix F T v s r
    assume "\<And>T v s r. F T v s = Some r \<Longrightarrow> pipe_post T v s r"
    then have IH: "always (pipe_post T v s) (F T v s)" for T v s by (simp add: always_def)
    have same: "always (pipe_post T v s) (F T v (ev s [Rd a a', Rd b b', Rd c c', Rd d d', Rd UHFNUM v]))"
      if "set [a, b, c, d] \<inter> {UHFNUM, UPDATX} = {}" for a b c d a' b' c' d'
      by (rule always_mono [OF IH], erule pipe_post_same) (use that in \<open>auto simp: reads_def\<close>)
    have changed: "always (pipe_post T v s) (F (T - 1) f (ev s [Rd a a', Rd b b', Rd c c', Rd d d', Rd UHFNUM f]))"
      if "set [a, b, c, d] \<inter> {UHFNUM, UPDATX} = {}" "f \<noteq> v" "T \<noteq> 0" for a b c d a' b' c' d' f
      by (rule always_mono [OF IH], erule pipe_post_changed) (use that in \<open>auto simp: reads_def\<close>)
    let ?body = "let (tok, s) = Pipe_GetPipeToken s;
          (ready, s) = (if tok = PIPE_TOKEN_IN then Pipe_IsINReceived s else Pipe_IsOUTReady s)
      in if ready then Some (PIPE_READYWAIT_NoError, s)
         else let (stalled, s) = Pipe_IsStalled s
              in if stalled then Some (PIPE_READYWAIT_PipeStalled, s)
                 else let (st, s) = rd8 USB_HostState s
                      in if st = HOST_STATE_Unattached then Some (PIPE_READYWAIT_DeviceDisconnected, s)
                         else let (CurrentFrameNumber, s) = USB_Host_GetFrameNumber s
                              in if CurrentFrameNumber \<noteq> v
                                 then (if T = 0 then Some (PIPE_READYWAIT_Timeout, s)
                                       else F (T - 1) CurrentFrameNumber s)
                                 else F T v s"
    have "always (pipe_post T v s) ?body"
      unfolding pipe_wait_defs
      by (intro io_vcg) (simp_all add: same changed pipe_post_leaf pipe_verdict_def pipe_flag_def)
    then show "pipe_post T v s r" if "?body = Some r" using that by (rule alwaysD)
  qed
  then show ?thesis by (simp add: always_def)
qed

text \<open>
  Total correctness of \<open>Pipe_WaitUntilReady\<close>: if the frame counter keeps running, the function returns,
  whatever else the hardware and the device do. It writes no register and takes nothing from the FIFO, and its
  result says what was last seen: success only after the flag for the token of the pipe was read as set, stalled
  and disconnected only after the corresponding read, and a timeout only after the frame number has changed 101
  times.
\<close>

lemma Pipe_WaitUntilReady_total:
  assumes "frame_clock UHFNUM N (hw s)"
  shows "\<exists>code t. Pipe_WaitUntilReady s = Some (code, ev s t) \<and> (\<forall>l x. Wr l x \<notin> set t) \<and> (\<forall>x. Rd UPDATX x \<notin> set t) \<and>
    pipe_verdict code t \<and> (code = PIPE_READYWAIT_Timeout \<longrightarrow> length (remdups_adj (reads UHFNUM t)) = 102)"
proof -
  let ?v = "hw s (trace s) UHFNUM"
  have "returns (\<lambda>_. True) (pipe_wait_loop 100 ?v (ev s [Rd UHFNUM ?v]))"
    using assms by (rule pipe_poll.loop_returns_start) (simp add: reading_def)
  then obtain r where r: "pipe_wait_loop 100 ?v (ev s [Rd UHFNUM ?v]) = Some r" by (auto simp: returns_def)
  with pipe_wait_meaning have "pipe_post 100 ?v (ev s [Rd UHFNUM ?v]) r" by (rule alwaysD)
  then obtain code t where t: "r = (code, ev s (Rd UHFNUM ?v # t))" "\<forall>l x. Wr l x \<notin> set t" "\<forall>x. Rd UPDATX x \<notin> set t"
      "pipe_verdict code t" "code = PIPE_READYWAIT_Timeout \<longrightarrow> length (remdups_adj (?v # reads UHFNUM t)) = 102"
    by (auto simp: pipe_post_def)
  moreover have "Pipe_WaitUntilReady s = Some r"
    using r by (simp add: Pipe_WaitUntilReady_def USB_Host_GetFrameNumber_def io_simps)
  ultimately show ?thesis
    using pipe_verdict_append [OF t(4), of "[Rd UHFNUM ?v]"]
    by (intro exI [of _ code] exI [of _ "Rd UHFNUM ?v # t"]) simp
qed

lemma Pipe_WaitUntilReady_total_example:
  "let h = (\<lambda>t l. if l = UHFNUM then last (0 # reads UHFNUM t) + 1 else if l = USB_HostState then 4 else 0)
   in frame_clock UHFNUM 1 h \<and> (\<exists>code s'. Pipe_WaitUntilReady (boot_st h) = Some (code, s'))"
proof -
  let ?h = "\<lambda>t l. if l = UHFNUM then last (0 # reads UHFNUM t) + 1 else if l = USB_HostState then 4 else 0"
  have clock: "frame_clock UHFNUM 1 ?h" by (auto simp: frame_clock_def)
  with Pipe_WaitUntilReady_total [of 1 "boot_st ?h"] show ?thesis by auto
qed

section \<open>Configuring a pipe\<close>

text \<open>The size code of a pipe: the smallest bank that is large enough, but at most that of 256 bytes.\<close>

lemma Pipe_BytesToEPSizeMask_eq:
  "Pipe_BytesToEPSizeMask Bytes = Some (push_bit 4
     (if Bytes \<le> 8 then 0 else if Bytes \<le> 16 then 1 else if Bytes \<le> 32 then 2 else if Bytes \<le> 64 then 3
      else if Bytes \<le> 128 then 4 else 5))"
proof -
  have step: "pipe_size_loop Bytes m c = (if Bytes \<le> c then Some (push_bit 4 m) else pipe_size_loop Bytes (m + 1) (push_bit 1 c))"
    if "c < PIPE_MAX_SIZE" for m c
    using that by (subst pipe_size_loop.simps) (auto simp: not_less)
  have last: "pipe_size_loop Bytes m PIPE_MAX_SIZE = Some (push_bit 4 m)" for m
    by (subst pipe_size_loop.simps) simp
  show ?thesis
    unfolding Pipe_BytesToEPSizeMask_def
    using step [of 8 0] step [of 16 1] step [of 32 2] step [of 64 3] step [of 128 4] last [of 5] by simp
qed

lemmas pipe_config_defs = Pipe_SelectPipe_def Pipe_DisablePipe_def Pipe_EnablePipe_def Pipe_IsConfigured_def
  Pipe_SetInfiniteINRequests_def

lemma pipe_config_loop_ev: "\<exists>ok t. pipe_config_loop n c0 c1 k s = (ok, ev s t)"
proof (induction "7 - unat k" arbitrary: k s rule: less_induct)
  case less
  show ?case
  proof (cases "k < PIPE_TOTAL_PIPES")
    case False
    then show ?thesis by (subst pipe_config_loop.simps) (auto simp: pipe_config_defs io_simps)
  next
    case True
    then have "unat (k + 1) = Suc (unat k)" "unat k < 7"
      using unat_Suc_word [of k "7"] by (simp_all add: word_less_nat_alt)
    then have "\<exists>ok t. pipe_config_loop n c0 c1 (k + 1) (ev s u) = (ok, ev (ev s u) t)" for u
      by (intro less.hyps) simp
    then have IH: "\<exists>ok t. pipe_config_loop n c0 c1 (k + 1) (ev s u) = (ok, ev s t)" for u
      by fastforce
    define P where "P r \<longleftrightarrow> (\<exists>ok t. r = (ok, ev s t))" for r :: "bool \<times> usb_st"
    have leaf: "P (ok, ev s u)" "P (pipe_config_loop n c0 c1 (k + 1) (ev s u))" for ok u
      using IH by (simp_all add: P_def)
    have "yields P (pipe_config_loop n c0 c1 k s)"
      by (rule yields_eq [OF pipe_config_loop.simps], unfold pipe_config_defs, intro io_pure)
         (use True leaf in \<open>simp_all add: yields_def io_simps\<close>)
    then show ?thesis by (simp add: P_def yields_def)
  qed
qed

lemma pipe_config_loop_first:
  assumes "n < PIPE_TOTAL_PIPES" "c1 AND ALLOC \<noteq> 0"
  shows "\<exists>ok t. pipe_config_loop n c0 c1 n s = (ok, ev s t) \<and> take 1 (writes UPCFG0X t) = [ucast c0]"
proof -
  define P where "P r \<longleftrightarrow> (\<exists>ok t. r = (ok, ev s t) \<and> take 1 (writes UPCFG0X t) = [ucast c0])" for r :: "bool \<times> usb_st"
  have leaf: "P (ok, ev s u)" "P (pipe_config_loop n c0 c1 (n + 1) (ev s u))"
    if "writes UPCFG0X u = [ucast c0]" for ok u
    using pipe_config_loop_ev [of n c0 c1 "n + 1" "ev s u"] that by (auto simp: P_def)
  have "yields P (pipe_config_loop n c0 c1 n s)"
    by (rule yields_eq [OF pipe_config_loop.simps], unfold pipe_config_defs, intro io_pure)
       (use assms in \<open>simp_all add: yields_def io_simps leaf\<close>)
  then show ?thesis by (simp add: P_def yields_def)
qed



end
