(* ===== verification/Endpoint_Control_Streams.thy ===== *)
theory Endpoint_Control_Streams
  imports Endpoint_AVR8 "HOL-Library.Sublist"
begin

text \<open>
  The control endpoint streams (\<^verbatim>\<open>AVR8/Template/Template_Endpoint_Control_W.c\<close>,
  \<^verbatim>\<open>Template_Endpoint_Control_R.c\<close> and their instances in \<^verbatim>\<open>EndpointStream_AVR8.c\<close>). The macros of a template
  are the parameters of a definition: \<open>off\<close> is \<open>TEMPLATE_BUFFER_OFFSET\<close>, \<open>mv\<close> is \<open>TEMPLATE_BUFFER_MOVE\<close> by one
  and \<open>xfer\<close> is \<open>TEMPLATE_TRANSFER_BYTE\<close>. Pointers are 16-bit addresses and wrap around.
\<close>

abbreviation (input) ENDPOINT_RWCSTREAM_NoError :: u8 where "ENDPOINT_RWCSTREAM_NoError \<equiv> 0"
abbreviation (input) ENDPOINT_RWCSTREAM_HostAborted :: u8 where "ENDPOINT_RWCSTREAM_HostAborted \<equiv> 1"
abbreviation (input) ENDPOINT_RWCSTREAM_DeviceDisconnected :: u8 where "ENDPOINT_RWCSTREAM_DeviceDisconnected \<equiv> 2"
abbreviation (input) ENDPOINT_RWCSTREAM_BusSuspended :: u8 where "ENDPOINT_RWCSTREAM_BusSuspended \<equiv> 3"

type_synonym transfer = "u16 \<Rightarrow> usb_st \<Rightarrow> usb_st"

section \<open>Writing to the host\<close>

function cw_fill :: "(u16 \<Rightarrow> u16) \<Rightarrow> transfer \<Rightarrow> u16 \<Rightarrow> u16 \<Rightarrow> u16 \<Rightarrow> usb_st \<Rightarrow> u16 \<times> u16 \<times> u16 \<times> usb_st" where
  "cw_fill mv xfer DataStream Length BytesInEndpoint s =
     (if Length \<noteq> 0 \<and> BytesInEndpoint < ucast (USB_Device_ControlEndpointSize s)
      then cw_fill mv xfer (mv DataStream) (Length - 1) (BytesInEndpoint + 1) (xfer DataStream s)
      else (DataStream, Length, BytesInEndpoint, s))"
  by pat_completeness auto
termination
  by (relation "measure (\<lambda>(_, _, _, Length, _, _). unat Length)") (simp_all add: unat_pred_word unat_gt_0)

declare cw_fill.simps [simp del]

text \<open>
  The data stage: \<open>Inl\<close> is an early return with an error code, \<open>Inr\<close> the end of the loop (also by \<open>break\<close>).
\<close>

partial_function (option) cw_data :: "(u16 \<Rightarrow> u16) \<Rightarrow> transfer \<Rightarrow> u16 \<Rightarrow> u16 \<Rightarrow> bool \<Rightarrow> usb_st \<Rightarrow>
    ((u8 + unit) \<times> usb_st) option" where
  "cw_data mv xfer DataStream Length LastPacketFull s =
     (if Length \<noteq> 0 \<or> LastPacketFull then
        let (USB_DeviceState_LCL, s) = rd8 USB_DeviceState s
        in if USB_DeviceState_LCL = DEVICE_STATE_Unattached then Some (Inl ENDPOINT_RWCSTREAM_DeviceDisconnected, s)
           else if USB_DeviceState_LCL = DEVICE_STATE_Suspended then Some (Inl ENDPOINT_RWCSTREAM_BusSuspended, s)
           else let (setup, s) = Endpoint_IsSETUPReceived s
                in if setup then Some (Inl ENDPOINT_RWCSTREAM_HostAborted, s)
                   else let (out, s) = Endpoint_IsOUTReceived s
                        in if out then Some (Inr (), s)
                           else let (rdy, s) = Endpoint_IsINReady s
                                in if rdy then
                                     let (BytesInEndpoint, s) = Endpoint_BytesInEndpoint s;
                                         (DataStream, Length, BytesInEndpoint, s) =
                                           cw_fill mv xfer DataStream Length BytesInEndpoint s;
                                         LastPacketFull = (BytesInEndpoint = ucast (USB_Device_ControlEndpointSize s));
                                         s = Endpoint_ClearIN s
                                     in cw_data mv xfer DataStream Length LastPacketFull s
                                   else cw_data mv xfer DataStream Length LastPacketFull s
      else Some (Inr (), s))"

partial_function (option) cw_status :: "usb_st \<Rightarrow> (u8 \<times> usb_st) option" where
  "cw_status s =
     (let (out, s) = Endpoint_IsOUTReceived s
      in if out then Some (ENDPOINT_RWCSTREAM_NoError, s)
         else let (USB_DeviceState_LCL, s) = rd8 USB_DeviceState s
              in if USB_DeviceState_LCL = DEVICE_STATE_Unattached then Some (ENDPOINT_RWCSTREAM_DeviceDisconnected, s)
                 else if USB_DeviceState_LCL = DEVICE_STATE_Suspended then Some (ENDPOINT_RWCSTREAM_BusSuspended, s)
                 else let (setup, s) = Endpoint_IsSETUPReceived s
                      in if setup then Some (ENDPOINT_RWCSTREAM_HostAborted, s) else cw_status s)"

definition Template_Endpoint_Control_W :: "(u16 \<Rightarrow> u16) \<Rightarrow> (u16 \<Rightarrow> u16) \<Rightarrow> transfer \<Rightarrow> u16 \<Rightarrow> u16 \<Rightarrow> usb_st \<Rightarrow>
    (u8 \<times> usb_st) option" where
  "Template_Endpoint_Control_W off mv xfer Buffer Length s = do {
     let DataStream = Buffer + off Length;
     let (Length, s) =
       (if Length > wLength (USB_ControlRequest s) then (wLength (USB_ControlRequest s), s)
        else if Length = 0 then (Length, Endpoint_ClearIN s)
        else (Length, s));
     (r, s) \<leftarrow> cw_data mv xfer DataStream Length False s;
     case r of Inl err \<Rightarrow> Some (err, s) | Inr _ \<Rightarrow> cw_status s }"

section \<open>Reading from the host\<close>

partial_function (option) cr_drain :: "(u16 \<Rightarrow> u16) \<Rightarrow> transfer \<Rightarrow> u16 \<Rightarrow> u16 \<Rightarrow> usb_st \<Rightarrow> (u16 \<times> u16 \<times> usb_st) option" where
  "cr_drain mv xfer DataStream Length s =
     (if Length \<noteq> 0 then
        let (n, s) = Endpoint_BytesInEndpoint s
        in if n \<noteq> 0 then cr_drain mv xfer (mv DataStream) (Length - 1) (xfer DataStream s)
           else Some (DataStream, Length, s)
      else Some (DataStream, Length, s))"

partial_function (option) cr_data :: "(u16 \<Rightarrow> u16) \<Rightarrow> transfer \<Rightarrow> u16 \<Rightarrow> u16 \<Rightarrow> usb_st \<Rightarrow> ((u8 + unit) \<times> usb_st) option" where
  "cr_data mv xfer DataStream Length s =
     (if Length \<noteq> 0 then
        let (USB_DeviceState_LCL, s) = rd8 USB_DeviceState s
        in if USB_DeviceState_LCL = DEVICE_STATE_Unattached then Some (Inl ENDPOINT_RWCSTREAM_DeviceDisconnected, s)
           else if USB_DeviceState_LCL = DEVICE_STATE_Suspended then Some (Inl ENDPOINT_RWCSTREAM_BusSuspended, s)
           else let (setup, s) = Endpoint_IsSETUPReceived s
                in if setup then Some (Inl ENDPOINT_RWCSTREAM_HostAborted, s)
                   else let (out, s) = Endpoint_IsOUTReceived s
                        in if out then do {
                             (DataStream, Length, s) \<leftarrow> cr_drain mv xfer DataStream Length s;
                             cr_data mv xfer DataStream Length (Endpoint_ClearOUT s) }
                           else cr_data mv xfer DataStream Length s
      else Some (Inr (), s))"

partial_function (option) cr_status :: "usb_st \<Rightarrow> (u8 \<times> usb_st) option" where
  "cr_status s =
     (let (rdy, s) = Endpoint_IsINReady s
      in if rdy then Some (ENDPOINT_RWCSTREAM_NoError, s)
         else let (USB_DeviceState_LCL, s) = rd8 USB_DeviceState s
              in if USB_DeviceState_LCL = DEVICE_STATE_Unattached then Some (ENDPOINT_RWCSTREAM_DeviceDisconnected, s)
                 else if USB_DeviceState_LCL = DEVICE_STATE_Suspended then Some (ENDPOINT_RWCSTREAM_BusSuspended, s)
                 else cr_status s)"

definition Template_Endpoint_Control_R :: "(u16 \<Rightarrow> u16) \<Rightarrow> (u16 \<Rightarrow> u16) \<Rightarrow> transfer \<Rightarrow> u16 \<Rightarrow> u16 \<Rightarrow> usb_st \<Rightarrow>
    (u8 \<times> usb_st) option" where
  "Template_Endpoint_Control_R off mv xfer Buffer Length s = do {
     let DataStream = Buffer + off Length;
     let s = (if Length = 0 then Endpoint_ClearOUT s else s);
     (r, s) \<leftarrow> cr_data mv xfer DataStream Length s;
     case r of Inl err \<Rightarrow> Some (err, s) | Inr _ \<Rightarrow> cr_status s }"

declare cw_data.simps [code] cw_status.simps [code] cr_drain.simps [code] cr_data.simps [code] cr_status.simps [code]

section \<open>The instances\<close>

definition le_offset :: "u16 \<Rightarrow> u16" where "le_offset Length = 0"
definition be_offset :: "u16 \<Rightarrow> u16" where "be_offset Length = Length - 1"
definition le_move :: "u16 \<Rightarrow> u16" where "le_move BufferPtr = BufferPtr + 1"
definition be_move :: "u16 \<Rightarrow> u16" where "be_move BufferPtr = BufferPtr - 1"

definition write_ram :: transfer where "write_ram BufferPtr s = Endpoint_Write_8 (ram s BufferPtr) s"
definition write_flash :: transfer where "write_flash BufferPtr s = Endpoint_Write_8 (flash s BufferPtr) s"
definition write_eeprom :: transfer where "write_eeprom BufferPtr s = Endpoint_Write_8 (eeprom s BufferPtr) s"

definition read_ram :: transfer where
  "read_ram BufferPtr s = (let (b, s) = Endpoint_Read_8 s in s\<lparr>ram := (ram s)(BufferPtr := b)\<rparr>)"

definition read_eeprom :: transfer where
  "read_eeprom BufferPtr s = (let (b, s) = Endpoint_Read_8 s in s\<lparr>eeprom := (eeprom s)(BufferPtr := b)\<rparr>)"

definition Endpoint_Write_Control_Stream_LE :: "u16 \<Rightarrow> u16 \<Rightarrow> usb_st \<Rightarrow> (u8 \<times> usb_st) option" where
  "Endpoint_Write_Control_Stream_LE = Template_Endpoint_Control_W le_offset le_move write_ram"

definition Endpoint_Write_Control_Stream_BE :: "u16 \<Rightarrow> u16 \<Rightarrow> usb_st \<Rightarrow> (u8 \<times> usb_st) option" where
  "Endpoint_Write_Control_Stream_BE = Template_Endpoint_Control_W be_offset be_move write_ram"

definition Endpoint_Read_Control_Stream_LE :: "u16 \<Rightarrow> u16 \<Rightarrow> usb_st \<Rightarrow> (u8 \<times> usb_st) option" where
  "Endpoint_Read_Control_Stream_LE = Template_Endpoint_Control_R le_offset le_move read_ram"

definition Endpoint_Read_Control_Stream_BE :: "u16 \<Rightarrow> u16 \<Rightarrow> usb_st \<Rightarrow> (u8 \<times> usb_st) option" where
  "Endpoint_Read_Control_Stream_BE = Template_Endpoint_Control_R be_offset be_move read_ram"

definition Endpoint_Write_Control_PStream_LE :: "u16 \<Rightarrow> u16 \<Rightarrow> usb_st \<Rightarrow> (u8 \<times> usb_st) option" where
  "Endpoint_Write_Control_PStream_LE = Template_Endpoint_Control_W le_offset le_move write_flash"

definition Endpoint_Write_Control_PStream_BE :: "u16 \<Rightarrow> u16 \<Rightarrow> usb_st \<Rightarrow> (u8 \<times> usb_st) option" where
  "Endpoint_Write_Control_PStream_BE = Template_Endpoint_Control_W be_offset be_move write_flash"

definition Endpoint_Write_Control_EStream_LE :: "u16 \<Rightarrow> u16 \<Rightarrow> usb_st \<Rightarrow> (u8 \<times> usb_st) option" where
  "Endpoint_Write_Control_EStream_LE = Template_Endpoint_Control_W le_offset le_move write_eeprom"

definition Endpoint_Write_Control_EStream_BE :: "u16 \<Rightarrow> u16 \<Rightarrow> usb_st \<Rightarrow> (u8 \<times> usb_st) option" where
  "Endpoint_Write_Control_EStream_BE = Template_Endpoint_Control_W be_offset be_move write_eeprom"

definition Endpoint_Read_Control_EStream_LE :: "u16 \<Rightarrow> u16 \<Rightarrow> usb_st \<Rightarrow> (u8 \<times> usb_st) option" where
  "Endpoint_Read_Control_EStream_LE = Template_Endpoint_Control_R le_offset le_move read_eeprom"

definition Endpoint_Read_Control_EStream_BE :: "u16 \<Rightarrow> u16 \<Rightarrow> usb_st \<Rightarrow> (u8 \<times> usb_st) option" where
  "Endpoint_Read_Control_EStream_BE = Template_Endpoint_Control_R be_offset be_move read_eeprom"

section \<open>Packets\<close>

text \<open>
  The packets a trace hands to the controller: the bytes written to the FIFO between two writes of the
  endpoint flags, and the bytes written since the last one.
\<close>

fun pkts :: "u16 list \<Rightarrow> io list \<Rightarrow> u16 list list \<times> u16 list" where
  "pkts acc [] = ([], acc)"
| "pkts acc (Rd l v # t) = pkts acc t"
| "pkts acc (Wr l v # t) =
     (if l = UEDATX then pkts (acc @ [v]) t
      else if l = UEINTX then (acc # fst (pkts [] t), snd (pkts [] t))
      else pkts acc t)"

definition packets :: "io list \<Rightarrow> u16 list list" where "packets t = fst (pkts [] t)"
definition pending :: "io list \<Rightarrow> u16 list" where "pending t = snd (pkts [] t)"

lemma packets_Nil [simp]: "packets [] = []" "pending [] = []"
  by (simp_all add: packets_def pending_def)

lemma pkts_append: "pkts acc (t @ u) = (fst (pkts acc t) @ fst (pkts (snd (pkts acc t)) u), snd (pkts (snd (pkts acc t)) u))"
  by (induction acc t rule: pkts.induct) auto

lemma packets_append: "pending t = [] \<Longrightarrow> packets (t @ u) = packets t @ packets u"
  by (simp add: packets_def pending_def pkts_append)

lemma pending_append: "pending t = [] \<Longrightarrow> pending (t @ u) = pending u"
  by (simp add: pending_def pkts_append)

lemma pkts_data: "pkts acc (map (Wr UEDATX) vs @ t) = pkts (acc @ vs) t"
  by (induction vs arbitrary: acc) auto

text \<open>
  How a message is cut into packets of at most \<open>E\<close> bytes: the last one is short, and empty if the length of
  the message is a multiple of \<open>E\<close>.
\<close>

function packetise :: "nat \<Rightarrow> 'a list \<Rightarrow> 'a list list" where
  "packetise E xs = (if E = 0 \<or> length xs < E then [xs] else take E xs # packetise E (drop E xs))"
  by pat_completeness auto
termination
  by (relation "measure (\<lambda>(E, xs). length xs)") auto

declare packetise.simps [simp del]

lemma concat_packetise: "concat (packetise E xs) = xs"
  by (induction E xs rule: packetise.induct) (subst packetise.simps, auto)

text \<open>The bank of the endpoint is empty whenever the last packet has been handed over.\<close>

definition empty_bank :: "usb_st \<Rightarrow> bool" where
  "empty_bank s \<longleftrightarrow> (\<forall>t. pending t = [] \<longrightarrow> hw s (trace s @ t) UEBCX = 0)"

lemma empty_bank_ev: "empty_bank s \<Longrightarrow> pending t = [] \<Longrightarrow> empty_bank (ev s t)"
  by (simp add: empty_bank_def pending_append)

section \<open>Sending a message\<close>

text \<open>The \<open>n\<close> bytes of a memory from address \<open>p\<close> on, in the order in which \<open>mv\<close> walks through it.\<close>

definition message :: "(u16 \<Rightarrow> u8) \<Rightarrow> (u16 \<Rightarrow> u16) \<Rightarrow> u16 \<Rightarrow> nat \<Rightarrow> u16 list" where
  "message mem mv p n = map (\<lambda>i. ucast (mem ((mv ^^ i) p))) [0..<n]"

lemma length_message [simp]: "length (message mem mv p n) = n"
  by (simp add: message_def)

lemma message_0 [simp]: "message mem mv p 0 = []"
  by (simp add: message_def)

lemma message_Suc: "message mem mv p (Suc n) = ucast (mem p) # message mem mv (mv p) n"
  unfolding message_def by (subst upt_conv_Cons) (simp_all add: map_Suc_upt [symmetric] funpow_swap1 del: upt_Suc)

lemma message_add: "message mem mv p (m + n) = message mem mv p m @ message mem mv ((mv ^^ m) p) n"
  by (induction m arbitrary: p) (simp_all add: message_Suc funpow_swap1)

lemma message_split:
  "take k (message mem mv p n) = message mem mv p (min k n)"
  "drop k (message mem mv p n) = message mem mv ((mv ^^ k) p) (n - k)"
proof -
  have "message mem mv p n = message mem mv p (min k n) @ message mem mv ((mv ^^ min k n) p) (n - min k n)"
    using message_add [of mem mv p "min k n" "n - min k n"] by simp
  then show "take k (message mem mv p n) = message mem mv p (min k n)"
    and "drop k (message mem mv p n) = message mem mv ((mv ^^ k) p) (n - k)"
    by (auto simp: min_def)
qed

text \<open>The status stage only polls.\<close>

definition status_post :: "usb_st \<Rightarrow> u8 \<times> usb_st \<Rightarrow> bool" where
  "status_post s = (\<lambda>(code, s'). \<exists>t. s' = ev s t \<and> t \<noteq> [] \<and> (\<forall>l v. Wr l v \<notin> set t))"

lemma status_post_leaf: "t \<noteq> [] \<Longrightarrow> \<forall>l v. Wr l v \<notin> set t \<Longrightarrow> status_post s (code, ev s t)"
  by (auto simp: status_post_def)

lemma status_post_step: "status_post (ev s t) r \<Longrightarrow> \<forall>l v. Wr l v \<notin> set t \<Longrightarrow> status_post s r"
  by (auto simp: status_post_def)

lemma cw_status_meaning: "always (status_post s) (cw_status s)"
proof -
  have "status_post s r" if ret: "cw_status s = Some r" for r
  proof (rule cw_status.raw_induct [where P = status_post, OF _ ret])
    fix F s r
    assume "\<And>s r. F s = Some r \<Longrightarrow> status_post s r"
    then have IH: "always (status_post s) (F s)" for s by (simp add: always_def)
    have again: "always (status_post s) (F (ev s [Rd a b, Rd c d, Rd e f]))" for a b c d e f
      by (rule always_mono [OF IH], erule status_post_step) simp
    let ?body = "let (out, s) = Endpoint_IsOUTReceived s
      in if out then Some (ENDPOINT_RWCSTREAM_NoError, s)
         else let (USB_DeviceState_LCL, s) = rd8 USB_DeviceState s
              in if USB_DeviceState_LCL = DEVICE_STATE_Unattached then Some (ENDPOINT_RWCSTREAM_DeviceDisconnected, s)
                 else if USB_DeviceState_LCL = DEVICE_STATE_Suspended then Some (ENDPOINT_RWCSTREAM_BusSuspended, s)
                 else let (setup, s) = Endpoint_IsSETUPReceived s
                      in if setup then Some (ENDPOINT_RWCSTREAM_HostAborted, s) else F s"
    have "always (status_post s) ?body"
      unfolding Endpoint_IsOUTReceived_def Endpoint_IsSETUPReceived_def
      by (intro io_vcg) (simp_all add: again status_post_leaf)
    then show "status_post s r" if "?body = Some r" using that by (rule alwaysD)
  qed
  then show ?thesis by (simp add: always_def)
qed

lemma pkts_reads: "\<forall>l v. Wr l v \<notin> set t \<Longrightarrow> pkts acc t = ([], acc)"
  by (induction acc t rule: pkts.induct) auto

lemma packets_reads: "\<forall>l v. Wr l v \<notin> set t \<Longrightarrow> packets t = []"
  by (simp add: packets_def pkts_reads)

text \<open>The packets that answer a request for \<open>n\<close> bytes with the given data.\<close>

definition reply :: "nat \<Rightarrow> u16 \<Rightarrow> u16 list \<Rightarrow> u16 list list" where
  "reply E n data = (if data = [] then [[]] else if n = 0 then [] else packetise E (take (unat n) data))"

text \<open>The host read less than it asked for: an OUT packet was seen before the end.\<close>

definition ended_early :: "io list \<Rightarrow> bool" where
  "ended_early t \<longleftrightarrow> (\<exists>u w v. t = u @ Rd UEINTX w # v \<and> v \<noteq> [] \<and> (ucast w :: u8) AND RXOUTI \<noteq> 0)"

definition control_post :: "u16 list list \<Rightarrow> usb_st \<Rightarrow> u8 \<times> usb_st \<Rightarrow> bool" where
  "control_post R s = (\<lambda>(code, s'). \<exists>t. s' = ev s t \<and> prefix (packets t) R \<and>
     (code = ENDPOINT_RWCSTREAM_NoError \<longrightarrow> packets t = R \<or> ended_early t))"

text \<open>
  A host that reads a reply of \<open>n\<close> packets: the device stays on the bus, no new SETUP packet arrives, an empty
  bank is always ready, and the OUT packet of the status stage comes after the \<open>n\<close>-th packet.
\<close>

definition attentive :: "nat \<Rightarrow> usb_st \<Rightarrow> bool" where
  "attentive n s \<longleftrightarrow> (\<forall>t. let d = ucast (hw s (trace s @ t) USB_DeviceState) :: u8;
       i = ucast (hw s (trace s @ t) UEINTX) :: u8
     in d \<noteq> DEVICE_STATE_Unattached \<and> d \<noteq> DEVICE_STATE_Suspended \<and> i AND RXSTPI = 0 \<and> i AND TXINI \<noteq> 0 \<and>
        (i AND RXOUTI \<noteq> 0 \<longleftrightarrow> n \<le> length (packets t)))"

lemma attentive_ev: "attentive n s \<Longrightarrow> pending t = [] \<Longrightarrow> attentive (n - length (packets t)) (ev s t)"
  by (simp add: attentive_def packets_append Let_def le_diff_conv) (simp add: add.commute)

lemma attentive_reading:
  assumes "attentive n s" "pending t = []"
  shows "reading (ev s t) USB_DeviceState w \<Longrightarrow> (ucast w :: u8) \<noteq> DEVICE_STATE_Unattached \<and> (ucast w :: u8) \<noteq> DEVICE_STATE_Suspended"
    and "reading (ev s t) UEINTX w \<Longrightarrow> (ucast w :: u8) AND RXSTPI = 0 \<and> (ucast w :: u8) AND TXINI \<noteq> 0 \<and>
      ((ucast w :: u8) AND RXOUTI \<noteq> 0 \<longleftrightarrow> n \<le> length (packets t))"
  using assms by (simp_all add: attentive_def reading_def Let_def)

definition delivered :: "u16 list list \<Rightarrow> usb_st \<Rightarrow> u8 \<times> usb_st \<Rightarrow> bool" where
  "delivered R s = (\<lambda>(code, s'). code = ENDPOINT_RWCSTREAM_NoError \<and> (\<exists>t. s' = ev s t \<and> packets t = R))"

lemma cw_status_delivers:
  assumes "attentive 0 s"
  shows "returns (delivered [] s) (cw_status s)"
  by (rule returns_eq [OF cw_status.simps], unfold Endpoint_IsOUTReceived_def Endpoint_IsSETUPReceived_def, intro io_vcg)
     (use attentive_reading [OF assms, of "[]", simplified] in \<open>auto simp: delivered_def packets_def\<close>)

text \<open>What the control write streams need of the memory they read from.\<close>

locale byte_source =
  fixes peek :: "usb_st \<Rightarrow> u16 \<Rightarrow> u8" and xfer :: transfer
  assumes xfer_ev: "xfer p s = ev s [Wr UEDATX (ucast (peek s p))]"
    and peek_ev [simp]: "peek (ev s t) = peek s"
begin

lemma cw_fill_eq:
  assumes "k = min (unat L) (unat (ucast (USB_Device_ControlEndpointSize s) :: u16) - unat n)"
  shows "cw_fill mv xfer p L n s =
    ((mv ^^ k) p, L - of_nat k, n + of_nat k, ev s (map (Wr UEDATX) (message (peek s) mv p k)))"
  using assms
proof (induction k arbitrary: p L n s)
  case 0
  then have "\<not> (L \<noteq> 0 \<and> n < ucast (USB_Device_ControlEndpointSize s))"
    by (auto simp: word_less_nat_alt min_def unat_eq_zero split: if_splits)
  then show ?case by (subst cw_fill.simps) auto
next
  case (Suc k)
  let ?E = "ucast (USB_Device_ControlEndpointSize s) :: u16"
  have go: "L \<noteq> 0" "n < ?E" using Suc.prems by (auto simp: word_less_nat_alt)
  then have u: "unat (L - 1) = unat L - 1" "unat (n + 1) = unat n + 1"
    using unat_Suc_word [of n ?E] by (simp_all add: unat_pred_word unat_gt_0 word_less_nat_alt)
  have "cw_fill mv xfer (mv p) (L - 1) (n + 1) (ev s [Wr UEDATX (ucast (peek s p))]) =
      ((mv ^^ k) (mv p), L - 1 - of_nat k, n + 1 + of_nat k,
       ev (ev s [Wr UEDATX (ucast (peek s p))]) (map (Wr UEDATX) (message (peek s) mv (mv p) k)))"
    by (subst Suc.IH) (use Suc.prems u go in \<open>auto simp: word_less_nat_alt unat_gt_0\<close>)
  then show ?case
    using go by (subst cw_fill.simps) (simp add: xfer_ev message_Suc funpow_swap1 algebra_simps)
qed

text \<open>What is left to send, and what a run of the data stage may do.\<close>

definition left_over :: "(u16 \<Rightarrow> u16) \<Rightarrow> u16 \<Rightarrow> u16 \<Rightarrow> bool \<Rightarrow> usb_st \<Rightarrow> u16 list list" where
  "left_over mv p L full s = (if L \<noteq> 0 \<or> full
     then packetise (unat (USB_Device_ControlEndpointSize s)) (message (peek s) mv p (unat L)) else [])"

definition cw_post :: "(u16 \<Rightarrow> u16) \<Rightarrow> u16 \<Rightarrow> u16 \<Rightarrow> bool \<Rightarrow> usb_st \<Rightarrow> (u8 + unit) \<times> usb_st \<Rightarrow> bool" where
  "cw_post mv p L full s = (\<lambda>(r, s'). empty_bank s \<longrightarrow> USB_Device_ControlEndpointSize s \<noteq> 0 \<longrightarrow>
     (\<exists>t. s' = ev s t \<and> pending t = [] \<and> prefix (packets t) (left_over mv p L full s) \<and>
       (\<forall>err. r = Inl err \<longrightarrow> err \<noteq> ENDPOINT_RWCSTREAM_NoError) \<and>
       (r = Inr () \<longrightarrow> packets t = left_over mv p L full s \<or>
          (\<exists>u w. t = u @ [Rd UEINTX w] \<and> (ucast w :: u8) AND RXOUTI \<noteq> 0))))"

lemma cw_post_leaf:
  assumes "pending t = []" "packets t = []" "\<And>err. r = Inl err \<Longrightarrow> err \<noteq> ENDPOINT_RWCSTREAM_NoError"
    "r = Inr () \<Longrightarrow> left_over mv p L full s = [] \<or> (\<exists>u w. t = u @ [Rd UEINTX w] \<and> (ucast w :: u8) AND RXOUTI \<noteq> 0)"
  shows "cw_post mv p L full s (r, ev s t)"
  using assms by (auto simp: cw_post_def)

lemma cw_post_error:
  "code \<noteq> ENDPOINT_RWCSTREAM_NoError \<Longrightarrow> cw_post mv p L full s (Inl code, ev s [Rd a b])"
  "code \<noteq> ENDPOINT_RWCSTREAM_NoError \<Longrightarrow> cw_post mv p L full s (Inl code, ev s [Rd a b, Rd c d])"
  by (rule cw_post_leaf; simp add: pending_def packets_def)+

lemma cw_post_out: "(ucast w :: u8) AND RXOUTI \<noteq> 0 \<Longrightarrow> cw_post mv p L full s (Inr (), ev s [Rd a b, Rd c d, Rd UEINTX w])"
  by (rule cw_post_leaf) (auto simp: pending_def packets_def)

lemma cw_post_done: "cw_post mv p 0 False s (Inr (), s)"
  using cw_post_leaf [of "[]" "Inr ()"] by (simp add: pending_def packets_def left_over_def)

lemma cw_post_step:
  assumes post: "cw_post mv p' L' full' (ev s t) r" and t: "pending t = []"
    and left: "empty_bank s \<Longrightarrow> USB_Device_ControlEndpointSize s \<noteq> 0 \<Longrightarrow>
      left_over mv p L full s = packets t @ left_over mv p' L' full' s"
  shows "cw_post mv p L full s r"
  unfolding cw_post_def
proof (clarify)
  fix c s' assume r: "r = (c, s')" and e: "empty_bank s" "USB_Device_ControlEndpointSize s \<noteq> 0"
  have same: "left_over mv p' L' full' (ev s t) = left_over mv p' L' full' s" by (simp add: left_over_def)
  obtain u where u: "s' = ev s (t @ u)" "pending u = []" "prefix (packets u) (left_over mv p' L' full' s)"
      "\<forall>err. c = Inl err \<longrightarrow> err \<noteq> ENDPOINT_RWCSTREAM_NoError" "c = Inr () \<longrightarrow> packets u = left_over mv p' L' full' s \<or>
        (\<exists>v w. u = v @ [Rd UEINTX w] \<and> (ucast w :: u8) AND RXOUTI \<noteq> 0)"
    using post e empty_bank_ev [OF e(1) t] by (auto simp: cw_post_def r same)
  show "\<exists>t. s' = ev s t \<and> pending t = [] \<and> prefix (packets t) (left_over mv p L full s) \<and>
       (\<forall>err. c = Inl err \<longrightarrow> err \<noteq> ENDPOINT_RWCSTREAM_NoError) \<and>
       (c = Inr () \<longrightarrow> packets t = left_over mv p L full s \<or>
          (\<exists>u w. t = u @ [Rd UEINTX w] \<and> (ucast w :: u8) AND RXOUTI \<noteq> 0))"
    using u left [OF e] t by (intro exI [of _ "t @ u"]) (auto simp: packets_append pending_append)
qed

lemma unat_bound: "unat (x :: u16) < 65536"
  using unsigned_less [of x] by simp

lemma cw_fill_round:
  assumes u: "pending u = []" "packets u = []" and rd: "reading (ev s u) UEBCX w" and go: "L \<noteq> 0 \<or> full"
  shows "\<exists>p' L' full' t. (\<forall>G. (case cw_fill mv xfer p L w (ev s (u @ [Rd UEBCX w])) of (p', L', n', s') \<Rightarrow>
        G p' L' (n' = ucast (USB_Device_ControlEndpointSize s')) (Endpoint_ClearIN s')) = G p' L' full' (ev s t)) \<and>
      pending t = [] \<and> length (packets t) = 1 \<and> (empty_bank s \<and> USB_Device_ControlEndpointSize s \<noteq> 0 \<longrightarrow>
        left_over mv p L full s = packets t @ left_over mv p' L' full' s)"
proof -
  let ?E = "unat (USB_Device_ControlEndpointSize s)"
  define k where "k = min (unat L) (?E - unat w)"
  let ?m = "message (peek s) mv p k"
  have fill: "cw_fill mv xfer p L w (ev s (u @ [Rd UEBCX w])) =
      ((mv ^^ k) p, L - of_nat k, w + of_nat k, ev s (u @ Rd UEBCX w # map (Wr UEDATX) ?m))"
    by (subst cw_fill_eq [of k]) (simp_all add: k_def)
  obtain x y where clr: "Endpoint_ClearIN (ev s (u @ Rd UEBCX w # map (Wr UEDATX) ?m)) =
      ev s (u @ Rd UEBCX w # map (Wr UEDATX) ?m @ [Rd UEINTX x, Wr UEINTX y])" (is "_ = ev s ?t")
    by (simp add: Endpoint_ClearIN_def io_simps)
  have t: "pending ?t = []" "packets ?t = [?m]"
    using u by (simp_all add: pending_append packets_append) (simp_all add: pending_def packets_def pkts_data)
  have left: "left_over mv p L full s = packets ?t @
      left_over mv ((mv ^^ k) p) (L - of_nat k) (w + of_nat k = ucast (USB_Device_ControlEndpointSize s)) s"
    if "empty_bank s" and E: "USB_Device_ControlEndpointSize s \<noteq> 0"
  proof -
    have w: "w = 0" using rd that(1) u by (simp add: reading_def empty_bank_def)
    have E0: "0 < ?E" using E by (simp add: unat_gt_0)
    have k: "k = min (unat L) ?E" by (simp add: k_def w)
    have kL: "unat (L - of_nat k) = unat L - k"
    proof -
      have "unat (of_nat k :: u16) = k" using k unat_bound [of L] by (subst unat_of_nat) simp
      then show ?thesis using k by (simp add: unat_sub word_le_nat_alt)
    qed
    then have L0: "L = of_nat k \<longleftrightarrow> unat L \<le> k" by (metis diff_is_0_eq right_minus_eq unat_eq_zero)
    have full: "w + of_nat k = ucast (USB_Device_ControlEndpointSize s) \<longleftrightarrow> k = ?E"
    proof -
      have "unat (of_nat k :: u16) = k" using k unat_bound [of L] by (subst unat_of_nat) simp
      then show ?thesis by (simp add: w word_unat_eq_iff)
    qed
    show ?thesis
    proof (cases "unat L < ?E")
      case True
      then have "unat L \<le> k" "k \<noteq> ?E" and m: "?m = message (peek s) mv p (unat L)" by (simp_all add: k)
      then have "left_over mv ((mv ^^ k) p) (L - of_nat k) (w + of_nat k = ucast (USB_Device_ControlEndpointSize s)) s = []"
        by (simp add: left_over_def L0 full)
      moreover have "left_over mv p L full s = [?m]"
        using True go by (simp add: left_over_def packetise.simps m)
      ultimately show ?thesis by (simp only: t append_Nil2)
    next
      case False
      then have kE: "k = ?E" by (simp add: k)
      have "packetise ?E (message (peek s) mv p (unat L)) = ?m # packetise ?E (message (peek s) mv ((mv ^^ k) p) (unat L - k))"
        using False E0 by (subst packetise.simps) (simp add: message_split kE min_absorb1)
      moreover have "left_over mv ((mv ^^ k) p) (L - of_nat k) (w + of_nat k = ucast (USB_Device_ControlEndpointSize s)) s =
          packetise ?E (message (peek s) mv ((mv ^^ k) p) (unat L - k))"
        using iffD2 [OF full kE] by (simp only: left_over_def kL simp_thms if_True)
      moreover have "left_over mv p L full s = packetise ?E (message (peek s) mv p (unat L))"
        using go by (simp add: left_over_def)
      ultimately show ?thesis by (simp only: t append_Cons append_Nil)
    qed
  qed
  then have left: "empty_bank s \<and> USB_Device_ControlEndpointSize s \<noteq> 0 \<longrightarrow> left_over mv p L full s = packets ?t @
      left_over mv ((mv ^^ k) p) (L - of_nat k) (w + of_nat k = ucast (USB_Device_ControlEndpointSize s)) s"
    by blast
  show ?thesis
    by (rule exI [of _ "(mv ^^ k) p"], rule exI [of _ "L - of_nat k"],
        rule exI [of _ "w + of_nat k = ucast (USB_Device_ControlEndpointSize s)"], rule exI [of _ ?t])
       (use left t in \<open>simp only: fill prod.case clr ev_simps list.size(3) list.size(4) One_nat_def add_0 simp_thms\<close>)
qed

lemma cw_fill_step:
  assumes IH: "\<And>p L full s. always (cw_post mv p L full s) (F p L full s)"
    and "pending u = []" "packets u = []" "reading (ev s u) UEBCX w" "L \<noteq> 0 \<or> full"
  shows "always (cw_post mv p L full s) (case cw_fill mv xfer p L w (ev s (u @ [Rd UEBCX w])) of (p', L', n', s') \<Rightarrow>
    F p' L' (n' = ucast (USB_Device_ControlEndpointSize s')) (Endpoint_ClearIN s'))"
proof -
  obtain p' L' full' t where t: "\<forall>G. (case cw_fill mv xfer p L w (ev s (u @ [Rd UEBCX w])) of (p', L', n', s') \<Rightarrow>
        G p' L' (n' = ucast (USB_Device_ControlEndpointSize s')) (Endpoint_ClearIN s')) =
        (G p' L' full' (ev s t) :: ((u8 + unit) \<times> usb_st) option)"
      "pending t = []" "empty_bank s \<and> USB_Device_ControlEndpointSize s \<noteq> 0 \<longrightarrow>
        left_over mv p L full s = packets t @ left_over mv p' L' full' s"
    using cw_fill_round [OF assms(2-5), where mv = mv and p = p] by blast
  have "always (cw_post mv p L full s) (F p' L' full' (ev s t))"
    by (rule always_mono [OF IH], erule cw_post_step) (use t in simp_all)
  with spec [OF t(1), of F] show ?thesis by simp
qed

lemma cw_data_meaning: "always (cw_post mv p L full s) (cw_data mv xfer p L full s)"
proof -
  have "xfer = xfer \<longrightarrow> cw_post mv p L full s r" if ret: "cw_data mv xfer p L full s = Some r" for r
  proof (rule cw_data.raw_induct [where P = "\<lambda>mv xf p L full s r. xf = xfer \<longrightarrow> cw_post mv p L full s r", OF _ ret], rule impI)
    fix F :: "(u16 \<Rightarrow> u16) \<Rightarrow> transfer \<Rightarrow> u16 \<Rightarrow> u16 \<Rightarrow> bool \<Rightarrow> usb_st \<Rightarrow> ((u8 + unit) \<times> usb_st) option"
      and mv :: "u16 \<Rightarrow> u16" and xf :: transfer and p L :: u16 and full s r
    assume IH: "\<And>mv xf p L full s r. F mv xf p L full s = Some r \<Longrightarrow> xf = xfer \<longrightarrow> cw_post mv p L full s r"
      and xf: "xf = xfer"
    have IH: "always (cw_post mv p L full s) (F mv xfer p L full s)" for p L full s
      using IH by (simp add: always_def)
    have again: "always (cw_post mv p L full s) (F mv xfer p L full (ev s [Rd a b, Rd c d, Rd e f, Rd g h]))" for a b c d e f g h
      by (rule always_mono [OF IH], erule cw_post_step) (simp_all add: pending_def packets_def)
    have fill: "always (cw_post mv p L full s) (case cw_fill mv xfer p L w (ev s [Rd a b, Rd c d, Rd e f, Rd g h, Rd UEBCX w]) of
        (p', L', n', s') \<Rightarrow> F mv xfer p' L' (n' = ucast (USB_Device_ControlEndpointSize s')) (Endpoint_ClearIN s'))"
      if "reading (ev s [Rd a b, Rd c d, Rd e f, Rd g h]) UEBCX w" "L \<noteq> 0 \<or> full" for a b c d e f g h w
      using cw_fill_step [OF IH _ _ that] by (simp add: pending_def packets_def)
    let ?body = "if L \<noteq> 0 \<or> full then
        let (USB_DeviceState_LCL, s) = rd8 USB_DeviceState s
        in if USB_DeviceState_LCL = DEVICE_STATE_Unattached then Some (Inl ENDPOINT_RWCSTREAM_DeviceDisconnected, s)
           else if USB_DeviceState_LCL = DEVICE_STATE_Suspended then Some (Inl ENDPOINT_RWCSTREAM_BusSuspended, s)
           else let (setup, s) = Endpoint_IsSETUPReceived s
                in if setup then Some (Inl ENDPOINT_RWCSTREAM_HostAborted, s)
                   else let (out, s) = Endpoint_IsOUTReceived s
                        in if out then Some (Inr (), s)
                           else let (rdy, s) = Endpoint_IsINReady s
                                in if rdy then
                                     let (BytesInEndpoint, s) = Endpoint_BytesInEndpoint s;
                                         (DataStream, Length, BytesInEndpoint, s) = cw_fill mv xf p L BytesInEndpoint s;
                                         LastPacketFull = (BytesInEndpoint = ucast (USB_Device_ControlEndpointSize s));
                                         s = Endpoint_ClearIN s
                                     in F mv xf DataStream Length LastPacketFull s
                                   else F mv xf p L full s
      else Some (Inr (), s)"
    have "always (cw_post mv p L full s) ?body"
      unfolding xf Endpoint_IsSETUPReceived_def Endpoint_IsOUTReceived_def Endpoint_IsINReady_def Endpoint_BytesInEndpoint_def
      by (intro io_vcg) (simp_all add: again fill Let_def cw_post_error cw_post_out cw_post_done)
    then show "cw_post mv p L full s r" if "?body = Some r" using that by (rule alwaysD)
  qed
  then show ?thesis by (simp add: always_def)
qed

definition sent :: "u16 list list \<Rightarrow> usb_st \<Rightarrow> (u8 + unit) \<times> usb_st \<Rightarrow> bool" where
  "sent R s = (\<lambda>(r, s'). r = Inr () \<and> (\<exists>t. s' = ev s t \<and> pending t = [] \<and> packets t = R))"

lemma cw_data_delivers:
  assumes "empty_bank s" "USB_Device_ControlEndpointSize s \<noteq> 0" "attentive (length (left_over mv p L full s)) s"
  shows "returns (sent (left_over mv p L full s) s) (cw_data mv xfer p L full s)"
  using assms
proof (induction "length (left_over mv p L full s)" arbitrary: p L full s rule: less_induct)
  case less
  let ?n = "length (left_over mv p L full s)"
  show ?case
  proof (cases "L \<noteq> 0 \<or> full")
    case False
    then show ?thesis
      by (subst cw_data.simps)
         (auto simp: sent_def left_over_def pending_def packets_def intro: exI [of _ "[]"])
  next
    case True
    then have n: "0 < ?n" by (simp add: left_over_def packetise.simps [of "unat (USB_Device_ControlEndpointSize s)"])
    have rds: "pending [Rd a b] = []" "pending [Rd a b, Rd c d] = []" "pending [Rd a b, Rd c d, Rd e f] = []"
        "packets [Rd a b] = []" "packets [Rd a b, Rd c d] = []" "packets [Rd a b, Rd c d, Rd e f] = []" for a b c d e f
      by (simp_all add: pending_def packets_def)
    note look = attentive_reading [OF less.prems(3), of "[]", simplified] attentive_reading [OF less.prems(3) rds(1)]
      attentive_reading [OF less.prems(3) rds(2)] attentive_reading [OF less.prems(3) rds(3)]
    have round: "returns (sent (left_over mv p L full s) s) (case cw_fill mv xfer p L w (ev s [Rd a b, Rd c d, Rd e f, Rd g h, Rd UEBCX w]) of
        (p', L', n', s') \<Rightarrow> cw_data mv xfer p' L' (n' = ucast (USB_Device_ControlEndpointSize s')) (Endpoint_ClearIN s'))"
      if rd: "reading (ev s [Rd a b, Rd c d, Rd e f, Rd g h]) UEBCX w" for a b c d e f g h w
    proof -
      have q: "pending [Rd a b, Rd c d, Rd e f, Rd g h] = []" "packets [Rd a b, Rd c d, Rd e f, Rd g h] = []"
        by (simp_all add: pending_def packets_def)
      obtain p' L' full' t where
        t: "\<forall>G. (case cw_fill mv xfer p L w (ev s ([Rd a b, Rd c d, Rd e f, Rd g h] @ [Rd UEBCX w])) of (p', L', n', s') \<Rightarrow>
          G p' L' (n' = ucast (USB_Device_ControlEndpointSize s')) (Endpoint_ClearIN s')) =
          (G p' L' full' (ev s t) :: ((u8 + unit) \<times> usb_st) option)"
        and p1: "pending t = []" "length (packets t) = 1"
        and p2: "empty_bank s \<and> USB_Device_ControlEndpointSize s \<noteq> 0 \<longrightarrow>
          left_over mv p L full s = packets t @ left_over mv p' L' full' s"
        using cw_fill_round [OF q rd True, where mv = mv and p = p] by blast
      have p: "pending t = []" "length (packets t) = 1" "left_over mv p L full s = packets t @ left_over mv p' L' full' (ev s t)"
        using p1 p2 less.prems by (simp_all add: left_over_def)
      have "returns (sent (left_over mv p' L' full' (ev s t)) (ev s t)) (cw_data mv xfer p' L' full' (ev s t))"
        using less.prems p attentive_ev [OF less.prems(3) p(1)]
        by (intro less.hyps) (simp_all add: empty_bank_ev)
      then have "returns (sent (left_over mv p L full s) s) (cw_data mv xfer p' L' full' (ev s t))"
        by (rule returns_mono) (auto simp: sent_def p packets_append pending_append intro!: exI [of _ "t @ _"])
      with spec [OF t, of "cw_data mv xfer"] show ?thesis by simp
    qed
    show ?thesis
      by (rule returns_eq [OF cw_data.simps], unfold Endpoint_IsSETUPReceived_def Endpoint_IsOUTReceived_def
          Endpoint_IsINReady_def Endpoint_BytesInEndpoint_def, intro io_vcg)
         (use True n look rds in \<open>simp_all add: round Let_def\<close>)
  qed
qed

lemma control_finish:
  assumes r: "cw_post mv p L False (ev s u) (r, s1)" and u: "pending u = []"
    and e: "empty_bank s" "USB_Device_ControlEndpointSize s \<noteq> 0"
  shows "always (control_post (packets u @ left_over mv p L False s) s)
    (case r of Inl err \<Rightarrow> Some (err, s1) | Inr _ \<Rightarrow> cw_status s1)"
proof -
  have "left_over mv p L False (ev s u) = left_over mv p L False s" by (simp add: left_over_def)
  then obtain t where t: "s1 = ev s (u @ t)" "pending t = []" "prefix (packets t) (left_over mv p L False s)"
      "r = Inr () \<longrightarrow> packets t = left_over mv p L False s \<or>
        (\<exists>v w. t = v @ [Rd UEINTX w] \<and> (ucast w :: u8) AND RXOUTI \<noteq> 0)"
    and err: "\<forall>err. r = Inl err \<longrightarrow> err \<noteq> ENDPOINT_RWCSTREAM_NoError"
    using r e empty_bank_ev [OF e(1) u] by (auto simp: cw_post_def)
  show ?thesis
  proof (cases r)
    case (Inl err')
    then show ?thesis using t u err by (auto simp: control_post_def packets_append intro!: exI [of _ "u @ t"])
  next
    case (Inr x)
    have "always (control_post (packets u @ left_over mv p L False s) s) (cw_status s1)"
    proof (rule always_mono [OF cw_status_meaning])
      fix y assume "status_post s1 y"
      then obtain code v where v: "y = (code, ev s (u @ t @ v))" "v \<noteq> []" "\<forall>l x. Wr l x \<notin> set v"
        using t(1) by (auto simp: status_post_def)
      then have "packets (u @ t @ v) = packets u @ packets t" "pending t = []"
        using t u by (simp_all add: packets_append packets_reads)
      moreover have "packets t = left_over mv p L False s \<or> ended_early (u @ t @ v)"
        using t(4) v(2) Inr unfolding ended_early_def by (metis append.assoc append_Cons append_Nil old.unit.exhaust)
      ultimately show "control_post (packets u @ left_over mv p L False s) s y"
        using v t(3) by (auto simp: control_post_def)
    qed
    with Inr show ?thesis by simp
  qed
qed

lemma control_run:
  assumes "pending u = []" "empty_bank s" "USB_Device_ControlEndpointSize s \<noteq> 0"
    "R = packets u @ left_over mv p L False s"
  shows "always (control_post R s) (do { (r, s) \<leftarrow> cw_data mv xfer p L False (ev s u);
    case r of Inl err \<Rightarrow> Some (err, s) | Inr _ \<Rightarrow> cw_status s })"
  by (rule always_bind [OF cw_data_meaning], unfold assms(4), clarify)
     (use assms in \<open>simp add: control_finish\<close>)

lemma control_run_delivers:
  assumes u: "pending u = []" and e: "empty_bank s" "USB_Device_ControlEndpointSize s \<noteq> 0"
    and R: "R = packets u @ left_over mv p L False s" and a: "attentive (length R) s"
  shows "returns (delivered R s) (do { (r, s) \<leftarrow> cw_data mv xfer p L False (ev s u);
    case r of Inl err \<Rightarrow> Some (err, s) | Inr _ \<Rightarrow> cw_status s })"
proof (rule returns_bind)
  have "left_over mv p L False (ev s u) = left_over mv p L False s" by (simp add: left_over_def)
  then show "returns (sent (left_over mv p L False s) (ev s u)) (cw_data mv xfer p L False (ev s u))"
    using cw_data_delivers [of "ev s u" mv p L False] attentive_ev [OF a u] e u R by (simp add: empty_bank_ev)
next
  fix x assume "sent (left_over mv p L False s) (ev s u) x"
  then obtain t where t: "x = (Inr (), ev s (u @ t))" "pending t = []" "packets t = left_over mv p L False s"
    by (auto simp: sent_def)
  then have p: "pending (u @ t) = []" "packets (u @ t) = R" using u R by (simp_all add: pending_append packets_append)
  have "returns (delivered [] (ev s (u @ t))) (cw_status (ev s (u @ t)))"
    using attentive_ev [OF a p(1)] p by (intro cw_status_delivers) simp
  then have "returns (delivered R s) (cw_status (ev s (u @ t)))"
    by (rule returns_mono) (use p in \<open>auto simp: delivered_def packets_append [OF p(1)] intro!: exI [of _ "u @ t @ _"]
        simp flip: append_assoc\<close>)
  with t show "returns (delivered R s) (case x of (r, s) \<Rightarrow> case r of Inl err \<Rightarrow> Some (err, s) | Inr _ \<Rightarrow> cw_status s)"
    by simp
qed

text \<open>The stream up to its data stage, with the packets sent so far and those left over.\<close>

lemma Template_Endpoint_Control_W_start:
  "\<exists>u L. Template_Endpoint_Control_W off mv xfer Buffer Length s =
      (do { (r, s) \<leftarrow> cw_data mv xfer (Buffer + off Length) L False (ev s u);
            case r of Inl err \<Rightarrow> Some (err, s) | Inr _ \<Rightarrow> cw_status s }) \<and> pending u = [] \<and>
    reply (unat (USB_Device_ControlEndpointSize s)) (wLength (USB_ControlRequest s))
      (message (peek s) mv (Buffer + off Length) (unat Length)) = packets u @ left_over mv (Buffer + off Length) L False s"
    (is "\<exists>u L. _ \<and> _ \<and> ?R = _")
proof (cases "Length = 0")
  case True
  obtain x y where clr: "Endpoint_ClearIN s = ev s [Rd UEINTX x, Wr UEINTX y]" (is "_ = ev s ?u")
    by (simp add: Endpoint_ClearIN_def io_simps)
  have "pending ?u = []" "packets ?u = [[]]" by (simp_all add: pending_def packets_def)
  with True show ?thesis
    by (intro exI [of _ ?u] exI [of _ 0]) (simp add: Template_Endpoint_Control_W_def clr reply_def left_over_def)
next
  case False
  define L where "L = (if Length > wLength (USB_ControlRequest s) then wLength (USB_ControlRequest s) else Length)"
  have "?R = left_over mv (Buffer + off Length) L False s"
    using False by (auto simp: reply_def left_over_def L_def message_split min_def word_less_nat_alt
        unat_eq_zero simp flip: length_0_conv)
  then show ?thesis
    using False by (intro exI [of _ "[]"] exI [of _ L]) (simp add: Template_Endpoint_Control_W_def L_def)
qed

lemma Template_Endpoint_Control_W_meaning:
  assumes e: "empty_bank s" "USB_Device_ControlEndpointSize s \<noteq> 0"
    and R: "R = reply (unat (USB_Device_ControlEndpointSize s)) (wLength (USB_ControlRequest s))
      (message (peek s) mv (Buffer + off Length) (unat Length))"
  shows "always (control_post R s) (Template_Endpoint_Control_W off mv xfer Buffer Length s)"
    and "attentive (length R) s \<Longrightarrow> returns (delivered R s) (Template_Endpoint_Control_W off mv xfer Buffer Length s)"
proof -
  obtain u L where run: "Template_Endpoint_Control_W off mv xfer Buffer Length s =
      (do { (r, s) \<leftarrow> cw_data mv xfer (Buffer + off Length) L False (ev s u);
            case r of Inl err \<Rightarrow> Some (err, s) | Inr _ \<Rightarrow> cw_status s })"
    and u: "pending u = []" "R = packets u @ left_over mv (Buffer + off Length) L False s"
    using Template_Endpoint_Control_W_start [of off mv Buffer Length s] unfolding R by blast
  show "always (control_post R s) (Template_Endpoint_Control_W off mv xfer Buffer Length s)"
    unfolding run by (rule control_run [OF u(1) e u(2)])
  show "returns (delivered R s) (Template_Endpoint_Control_W off mv xfer Buffer Length s)" if "attentive (length R) s"
    unfolding run by (rule control_run_delivers [OF u(1) e u(2) that])
qed

end

interpretation ram_source: byte_source ram write_ram
  by unfold_locales (simp_all add: write_ram_def Endpoint_Write_8_def io_simps)

interpretation flash_source: byte_source flash write_flash
  by unfold_locales (simp_all add: write_flash_def Endpoint_Write_8_def io_simps)

interpretation eeprom_source: byte_source eeprom write_eeprom
  by unfold_locales (simp_all add: write_eeprom_def Endpoint_Write_8_def io_simps)


lemma message_le: "message mem le_move p n = map (\<lambda>i. ucast (mem (p + of_nat i))) [0..<n]"
proof -
  have "(le_move ^^ i) p = p + of_nat i" for i by (induction i) (simp_all add: le_move_def)
  then show ?thesis by (simp add: message_def)
qed

lemma message_be:
  "message mem be_move (p + be_offset L) (unat L) = rev (map (\<lambda>i. ucast (mem (p + of_nat i))) [0..<unat L])"
proof -
  have "(be_move ^^ i) q = q - of_nat i" for i q by (induction i) (simp_all add: be_move_def)
  then have m: "message mem be_move (p + be_offset L) (unat L) =
      map (\<lambda>i. ucast (mem (p + (L - 1) - of_nat i))) [0..<unat L]"
    by (simp add: message_def be_offset_def)
  have "p + (L - 1) - of_nat i = p + of_nat (unat L - Suc i)" if "i < unat L" for i
  proof -
    have "(of_nat (unat L - Suc i) :: u16) = of_nat (unat L) - of_nat (Suc i)"
      using that by (simp only: of_nat_diff Suc_le_eq)
    then show ?thesis by simp
  qed
  then show ?thesis unfolding m by (intro nth_equalityI) (simp_all add: rev_nth algebra_simps)
qed

text \<open>The six control write streams, each with the memory it reads and whether it reads it backwards.\<close>

definition control_writers :: "((u16 \<Rightarrow> u16 \<Rightarrow> usb_st \<Rightarrow> (u8 \<times> usb_st) option) \<times> (usb_st \<Rightarrow> u16 \<Rightarrow> u8) \<times> bool) set" where
  "control_writers = {(Endpoint_Write_Control_Stream_LE, ram, False), (Endpoint_Write_Control_Stream_BE, ram, True),
     (Endpoint_Write_Control_PStream_LE, flash, False), (Endpoint_Write_Control_PStream_BE, flash, True),
     (Endpoint_Write_Control_EStream_LE, eeprom, False), (Endpoint_Write_Control_EStream_BE, eeprom, True)}"

lemmas control_write_defs =
  Endpoint_Write_Control_Stream_LE_def Endpoint_Write_Control_Stream_BE_def Endpoint_Write_Control_PStream_LE_def
  Endpoint_Write_Control_PStream_BE_def Endpoint_Write_Control_EStream_LE_def Endpoint_Write_Control_EStream_BE_def

lemmas source_meanings =
  ram_source.Template_Endpoint_Control_W_meaning flash_source.Template_Endpoint_Control_W_meaning
  eeprom_source.Template_Endpoint_Control_W_meaning

text \<open>The bytes of a buffer, from its start or from its end.\<close>

definition buffer_bytes :: "(u16 \<Rightarrow> u8) \<Rightarrow> bool \<Rightarrow> u16 \<Rightarrow> u16 \<Rightarrow> u16 list" where
  "buffer_bytes mem backwards Buffer Length =
     (let xs = map (\<lambda>i. ucast (mem (Buffer + of_nat i))) [0..<unat Length] in if backwards then rev xs else xs)"

lemma control_writers_meaning:
  assumes w: "(f, mem, be) \<in> control_writers" and e: "empty_bank s" "USB_Device_ControlEndpointSize s \<noteq> 0"
    and R: "R = reply (unat (USB_Device_ControlEndpointSize s)) (wLength (USB_ControlRequest s))
      (buffer_bytes (mem s) be Buffer Length)"
  shows "always (control_post R s) (f Buffer Length s)"
    and "attentive (length R) s \<Longrightarrow> returns (delivered R s) (f Buffer Length s)"
proof -
  have le: "buffer_bytes m False Buffer Length = message m le_move (Buffer + le_offset Length) (unat Length)" for m
    by (simp add: buffer_bytes_def message_le le_offset_def)
  have be: "buffer_bytes m True Buffer Length = message m be_move (Buffer + be_offset Length) (unat Length)" for m
    by (simp only: buffer_bytes_def message_be Let_def if_True)
  show "always (control_post R s) (f Buffer Length s)"
    using w unfolding control_writers_def R
    by (auto simp only: insert_iff empty_iff prod.inject le be control_write_defs intro: source_meanings(1,3,5) [OF e refl])
  show "returns (delivered R s) (f Buffer Length s)" if "attentive (length R) s"
    using w that unfolding control_writers_def R
    by (auto simp only: insert_iff empty_iff prod.inject le be control_write_defs intro: source_meanings(2,4,6) [OF e refl])
qed

text \<open>A machine with three bytes in flash and a host that asks for eight.\<close>

definition sample_st :: usb_st where
  "sample_st = (boot_st (\<lambda>t l. if l = USB_DeviceState then 4 else if l = UEINTX then (if packets t = [] then 1 else 5) else 0))
     \<lparr>flash := (\<lambda>a. ucast a + 1),
      USB_ControlRequest := \<lparr>bmRequestType = 0x80, bRequest = 6, wValue = 0, wIndex = 0, wLength = 8\<rparr>\<rparr>"

lemma sample_st:
  "(Endpoint_Write_Control_PStream_LE, flash, False) \<in> control_writers" "empty_bank sample_st"
  "USB_Device_ControlEndpointSize sample_st \<noteq> 0" "attentive (length [[1, 2, 3 :: u16]]) sample_st"
  "[[1, 2, 3]] = reply (unat (USB_Device_ControlEndpointSize sample_st)) (wLength (USB_ControlRequest sample_st))
    (buffer_bytes (flash sample_st) False 0 3)"
proof -
  show "(Endpoint_Write_Control_PStream_LE, flash, False) \<in> control_writers" by (simp add: control_writers_def)
  show "empty_bank sample_st" "USB_Device_ControlEndpointSize sample_st \<noteq> 0"
    by (simp_all add: empty_bank_def sample_st_def boot_st_def)
  show "attentive (length [[1, 2, 3 :: u16]]) sample_st"
    by (auto simp: attentive_def sample_st_def boot_st_def Let_def Suc_le_eq bit_1_iff)
  show "[[1, 2, 3]] = reply (unat (USB_Device_ControlEndpointSize sample_st)) (wLength (USB_ControlRequest sample_st))
      (buffer_bytes (flash sample_st) False 0 3)"
    by (simp add: reply_def packetise.simps buffer_bytes_def sample_st_def boot_st_def upt_conv_Cons)
qed

text \<open>
  C19. What a control write stream sends. Whatever the host does and whenever it does it: the packets handed to
  the controller are a prefix of the reply to the request, that is of the requested part of the buffer, cut
  into packets of the size of the control endpoint and ended by a short (perhaps empty) packet; nothing of
  the machine but the trace changes. If the stream reports success, the reply is complete unless the host
  began the status stage early. This holds for RAM, flash and EEPROM buffers in both byte orders.
\<close>

theorem Endpoint_Write_Control_Stream_packets:
  assumes "(f, mem, backwards) \<in> control_writers"
    and "empty_bank s" and "USB_Device_ControlEndpointSize s \<noteq> 0"
    and "f Buffer Length s = Some (code, s')"
  shows "let R = reply (unat (USB_Device_ControlEndpointSize s)) (wLength (USB_ControlRequest s))
             (buffer_bytes (mem s) backwards Buffer Length)
         in \<exists>t. s' = ev s t \<and> prefix (packets t) R \<and>
           (code = ENDPOINT_RWCSTREAM_NoError \<longrightarrow> packets t = R \<or> ended_early t)"
  using alwaysD [OF control_writers_meaning(1) [OF assms(1-3) refl] assms(4)]
  by (simp add: control_post_def Let_def)

theorem Endpoint_Write_Control_Stream_packets_witness:
  "\<exists>t. Endpoint_Write_Control_PStream_LE 0 3 sample_st = Some (ENDPOINT_RWCSTREAM_NoError, ev sample_st t) \<and>
     prefix (packets t) [[1, 2, 3]]"
proof -
  obtain t where t: "Endpoint_Write_Control_PStream_LE 0 3 sample_st = Some (ENDPOINT_RWCSTREAM_NoError, ev sample_st t)"
    using control_writers_meaning(2) [OF sample_st(1-3,5,4)] by (auto simp: delivered_def returns_def)
  with Endpoint_Write_Control_Stream_packets [OF sample_st(1-3) t] show ?thesis
    by (auto simp: Let_def simp flip: sample_st(5))
qed

text \<open>
  C20. A control write stream delivers: to a host that reads the reply and then starts the status stage, the
  stream returns success after exactly the packets of the reply.
\<close>

theorem Endpoint_Write_Control_Stream_delivers:
  assumes "(f, mem, backwards) \<in> control_writers"
    and "empty_bank s" and "USB_Device_ControlEndpointSize s \<noteq> 0"
    and "R = reply (unat (USB_Device_ControlEndpointSize s)) (wLength (USB_ControlRequest s))
      (buffer_bytes (mem s) backwards Buffer Length)"
    and "attentive (length R) s"
  shows "\<exists>t. f Buffer Length s = Some (ENDPOINT_RWCSTREAM_NoError, ev s t) \<and> packets t = R"
  using control_writers_meaning(2) [OF assms] by (auto simp: delivered_def returns_def)

theorem Endpoint_Write_Control_Stream_delivers_witness:
  "\<exists>t. Endpoint_Write_Control_PStream_LE 0 3 sample_st = Some (ENDPOINT_RWCSTREAM_NoError, ev sample_st t) \<and>
     packets t = [[1, 2, 3]]"
  by (rule Endpoint_Write_Control_Stream_delivers [OF sample_st(1-3,5,4)])

section \<open>Receiving a message\<close>

text \<open>A memory after the bytes have been stored from address \<open>p\<close> on, in the order in which \<open>mv\<close> walks.\<close>

fun store :: "(u16 \<Rightarrow> u16) \<Rightarrow> u16 \<Rightarrow> u16 list \<Rightarrow> (u16 \<Rightarrow> u8) \<Rightarrow> u16 \<Rightarrow> u8" where
  "store mv p [] m = m"
| "store mv p (v # vs) m = store mv (mv p) vs (m(p := ucast v))"

lemma store_append: "store mv p (xs @ ys) m = store mv ((mv ^^ length xs) p) ys (store mv p xs m)"
  by (induction xs arbitrary: p m) (simp_all add: funpow_swap1 del: fun_upd_apply)

lemma store_funs:
  "store mv p [] = (\<lambda>m. m)" "store mv p [v] = (\<lambda>m. m(p := ucast v))"
  "store mv p (xs @ ys) = (\<lambda>m. store mv ((mv ^^ length xs) p) ys (store mv p xs m))"
  by (intro ext, simp add: store_append)+

definition poll_post :: "usb_st \<Rightarrow> u8 \<times> usb_st \<Rightarrow> bool" where
  "poll_post s = (\<lambda>(code, s'). \<exists>t. s' = ev s t \<and> reads UEDATX t = [])"

lemma poll_post_step: "poll_post (ev s t) r \<Longrightarrow> reads UEDATX t = [] \<Longrightarrow> poll_post s r"
  by (auto simp: poll_post_def)

lemma cr_status_meaning: "always (poll_post s) (cr_status s)"
proof -
  have "poll_post s r" if ret: "cr_status s = Some r" for r
  proof (rule cr_status.raw_induct [where P = poll_post, OF _ ret])
    fix F s r
    assume "\<And>s r. F s = Some r \<Longrightarrow> poll_post s r"
    then have IH: "always (poll_post s) (F s)" for s by (simp add: always_def)
    have again: "always (poll_post s) (F (ev s [Rd UEINTX b, Rd USB_DeviceState d]))" for b d
      by (rule always_mono [OF IH], erule poll_post_step) simp
    let ?body = "let (rdy, s) = Endpoint_IsINReady s
      in if rdy then Some (ENDPOINT_RWCSTREAM_NoError, s)
         else let (USB_DeviceState_LCL, s) = rd8 USB_DeviceState s
              in if USB_DeviceState_LCL = DEVICE_STATE_Unattached then Some (ENDPOINT_RWCSTREAM_DeviceDisconnected, s)
                 else if USB_DeviceState_LCL = DEVICE_STATE_Suspended then Some (ENDPOINT_RWCSTREAM_BusSuspended, s)
                 else F s"
    have "always (poll_post s) ?body"
      unfolding Endpoint_IsINReady_def by (intro io_vcg) (simp_all add: again, simp_all add: poll_post_def)
    then show "poll_post s r" if "?body = Some r" using that by (rule alwaysD)
  qed
  then show ?thesis by (simp add: always_def)
qed

text \<open>What the control read streams need of the memory they write to: \<open>upd\<close> changes that memory and nothing else.\<close>

locale byte_sink =
  fixes upd :: "((u16 \<Rightarrow> u8) \<Rightarrow> u16 \<Rightarrow> u8) \<Rightarrow> usb_st \<Rightarrow> usb_st" and xfer :: transfer
  assumes xfer_upd: "xfer p s = (let (b, s) = rd8 UEDATX s in upd (\<lambda>m. m(p := b)) s)"
    and upd_ev: "upd f (ev s t) = ev (upd f s) t"
    and upd_upd: "upd f (upd g s) = upd (\<lambda>m. f (g m)) s"
    and upd_id: "upd (\<lambda>m. m) s = s"
begin

text \<open>The state after the events \<open>t\<close> if every byte read from the FIFO has been stored from \<open>p\<close> on.\<close>

definition stored :: "(u16 \<Rightarrow> u16) \<Rightarrow> u16 \<Rightarrow> io list \<Rightarrow> usb_st \<Rightarrow> usb_st" where
  "stored mv p t s = upd (store mv p (reads UEDATX t)) (ev s t)"

lemma stored_quiet: "reads UEDATX t = [] \<Longrightarrow> stored mv p t s = ev s t"
  by (simp add: stored_def upd_id store_funs)

lemma stored_stored: "stored mv ((mv ^^ length (reads UEDATX t)) p) u (stored mv p t s) = stored mv p (t @ u) s"
  by (simp add: stored_def upd_ev [symmetric] upd_upd store_funs(3))

lemma xfer_stored: "\<exists>w. xfer p s = stored mv p [Rd UEDATX w] s"
  by (simp add: xfer_upd io_simps stored_def store_funs) blast

definition drain_post :: "(u16 \<Rightarrow> u16) \<Rightarrow> u16 \<Rightarrow> u16 \<Rightarrow> usb_st \<Rightarrow> u16 \<times> u16 \<times> usb_st \<Rightarrow> bool" where
  "drain_post mv p L s = (\<lambda>(p', L', s'). \<exists>t. s' = stored mv p t s \<and> p' = (mv ^^ length (reads UEDATX t)) p \<and>
     unat L = unat L' + length (reads UEDATX t))"

lemma drain_post_leaf: "drain_post mv p L s (p, L, s)" "l \<noteq> UEDATX \<Longrightarrow> drain_post mv p L s (p, L, ev s [Rd l w])"
  by (auto simp: drain_post_def intro: exI [of _ "[]"] exI [of _ "[Rd l w]"] simp: stored_quiet)

lemma drain_post_step:
  assumes "drain_post mv (mv p) (L - 1) (xfer p (ev s [Rd l w])) r" "L \<noteq> 0" "l \<noteq> UEDATX"
  shows "drain_post mv p L s r"
proof -
  obtain v where "xfer p (ev s [Rd l w]) = stored mv p [Rd UEDATX v] (ev s [Rd l w])"
    using xfer_stored by blast
  then have x: "xfer p (ev s [Rd l w]) = stored mv p [Rd l w, Rd UEDATX v] s"
    using assms(3) stored_stored [of mv "[Rd l w]" p "[Rd UEDATX v]" s] by (simp add: stored_quiet)
  obtain p' L' s' t where t: "r = (p', L', s')" "s' = stored mv (mv p) t (xfer p (ev s [Rd l w]))"
      "p' = (mv ^^ length (reads UEDATX t)) (mv p)" "unat (L - 1) = unat L' + length (reads UEDATX t)"
    using assms(1) by (auto simp: drain_post_def)
  have "unat L = Suc (unat (L - 1))" using assms(2) unat_pred_word [of L] by (simp add: unat_gt_0)
  with t x assms(3) show ?thesis
    using stored_stored [of mv "[Rd l w, Rd UEDATX v]" p t s]
    by (auto simp: drain_post_def funpow_swap1 intro!: exI [of _ "[Rd l w, Rd UEDATX v] @ t"])
qed

lemma cr_drain_meaning: "always (drain_post mv p L s) (cr_drain mv xfer p L s)"
proof -
  have "xfer = xfer \<longrightarrow> drain_post mv p L s r" if ret: "cr_drain mv xfer p L s = Some r" for r
  proof (rule cr_drain.raw_induct [where P = "\<lambda>mv xf p L s r. xf = xfer \<longrightarrow> drain_post mv p L s r", OF _ ret], rule impI)
    fix F :: "(u16 \<Rightarrow> u16) \<Rightarrow> transfer \<Rightarrow> u16 \<Rightarrow> u16 \<Rightarrow> usb_st \<Rightarrow> (u16 \<times> u16 \<times> usb_st) option"
      and mv :: "u16 \<Rightarrow> u16" and xf :: transfer and p L :: u16 and s r
    assume "\<And>mv xf p L s r. F mv xf p L s = Some r \<Longrightarrow> xf = xfer \<longrightarrow> drain_post mv p L s r" and xf: "xf = xfer"
    then have IH: "always (drain_post mv p L s) (F mv xfer p L s)" for p L s by (simp add: always_def)
    have step: "always (drain_post mv p L s) (F mv xfer (mv p) (L - 1) (xfer p (ev s [Rd UEBCX w])))" if "L \<noteq> 0" for w
      by (rule always_mono [OF IH], erule drain_post_step) (use that in simp_all)
    let ?body = "if L \<noteq> 0 then
        let (n, s) = Endpoint_BytesInEndpoint s
        in if n \<noteq> 0 then F mv xf (mv p) (L - 1) (xf p s) else Some (p, L, s)
      else Some (p, L, s)"
    have "always (drain_post mv p L s) ?body"
      unfolding xf Endpoint_BytesInEndpoint_def by (intro io_vcg) (simp_all add: step drain_post_leaf)
    then show "drain_post mv p L s r" if "?body = Some r" using that by (rule alwaysD)
  qed
  then show ?thesis by (simp add: always_def)
qed

definition cr_post :: "(u16 \<Rightarrow> u16) \<Rightarrow> u16 \<Rightarrow> u16 \<Rightarrow> usb_st \<Rightarrow> (u8 + unit) \<times> usb_st \<Rightarrow> bool" where
  "cr_post mv p L s = (\<lambda>(r, s'). \<exists>t. s' = stored mv p t s \<and> length (reads UEDATX t) \<le> unat L \<and>
     (case r of Inl err \<Rightarrow> err \<noteq> ENDPOINT_RWCSTREAM_NoError | Inr _ \<Rightarrow> length (reads UEDATX t) = unat L))"

lemma cr_post_leaf:
  "reads UEDATX t = [] \<Longrightarrow> err \<noteq> ENDPOINT_RWCSTREAM_NoError \<Longrightarrow> cr_post mv p L s (Inl err, ev s t)"
  "cr_post mv p 0 s (Inr (), s)"
  by (auto simp: cr_post_def stored_quiet intro: exI [of _ t] exI [of _ "[]"])

lemma cr_post_step:
  assumes "cr_post mv ((mv ^^ length (reads UEDATX t)) p) L' (stored mv p t s) r" "unat L = unat L' + length (reads UEDATX t)"
  shows "cr_post mv p L s r"
proof -
  obtain c s' u where u: "r = (c, s')" "s' = stored mv ((mv ^^ length (reads UEDATX t)) p) u (stored mv p t s)"
      "length (reads UEDATX u) \<le> unat L'"
      "case c of Inl err \<Rightarrow> err \<noteq> ENDPOINT_RWCSTREAM_NoError | Inr _ \<Rightarrow> length (reads UEDATX u) = unat L'"
    using assms(1) by (auto simp: cr_post_def)
  then show ?thesis
    using assms(2) by (auto simp: cr_post_def stored_stored split: sum.splits intro!: exI [of _ "t @ u"])
qed

lemma cr_data_meaning: "always (cr_post mv p L s) (cr_data mv xfer p L s)"
proof -
  have "xfer = xfer \<longrightarrow> cr_post mv p L s r" if ret: "cr_data mv xfer p L s = Some r" for r
  proof (rule cr_data.raw_induct [where P = "\<lambda>mv xf p L s r. xf = xfer \<longrightarrow> cr_post mv p L s r", OF _ ret], rule impI)
    fix F :: "(u16 \<Rightarrow> u16) \<Rightarrow> transfer \<Rightarrow> u16 \<Rightarrow> u16 \<Rightarrow> usb_st \<Rightarrow> ((u8 + unit) \<times> usb_st) option"
      and mv :: "u16 \<Rightarrow> u16" and xf :: transfer and p L :: u16 and s r
    assume "\<And>mv xf p L s r. F mv xf p L s = Some r \<Longrightarrow> xf = xfer \<longrightarrow> cr_post mv p L s r" and xf: "xf = xfer"
    then have IH: "always (cr_post mv p L s) (F mv xfer p L s)" for p L s by (simp add: always_def)
    have again: "always (cr_post mv p L s) (F mv xfer p L (ev s t))" if "reads UEDATX t = []" for t
    proof (rule always_mono [OF IH])
      fix y assume "cr_post mv p L (ev s t) y"
      then show "cr_post mv p L s y"
        using cr_post_step [of mv t p L s y L] that by (simp add: stored_quiet)
    qed
    have packet: "always (cr_post mv p L s) (do { (p', L', s') \<leftarrow> cr_drain mv xfer p L (ev s t);
        F mv xfer p' L' (Endpoint_ClearOUT s') })" if t: "reads UEDATX t = []" for t
    proof (rule always_bind [OF cr_drain_meaning], clarify)
      fix p' L' s' assume "drain_post mv p L (ev s t) (p', L', s')"
      then obtain u where u: "s' = stored mv p u (ev s t)" "p' = (mv ^^ length (reads UEDATX u)) p"
          "unat L = unat L' + length (reads UEDATX u)"
        by (auto simp: drain_post_def)
      obtain x y where "Endpoint_ClearOUT s' = ev s' [Rd UEINTX x, Wr UEINTX y]"
        by (simp add: Endpoint_ClearOUT_def io_simps)
      then have c: "Endpoint_ClearOUT s' = stored mv p (t @ u @ [Rd UEINTX x, Wr UEINTX y]) s"
        using u(1) t stored_stored [of mv t p u s] stored_stored [of mv "t @ u" p "[Rd UEINTX x, Wr UEINTX y]" s]
        by (simp add: stored_quiet)
      show "always (cr_post mv p L s) (F mv xfer p' L' (Endpoint_ClearOUT s'))"
      proof (rule always_mono [OF IH])
        fix z assume "cr_post mv p' L' (Endpoint_ClearOUT s') z"
        then show "cr_post mv p L s z"
          using cr_post_step [of mv "t @ u @ [Rd UEINTX x, Wr UEINTX y]" p L' s z L] u t c by simp
      qed
    qed
    let ?body = "if L \<noteq> 0 then
        let (USB_DeviceState_LCL, s) = rd8 USB_DeviceState s
        in if USB_DeviceState_LCL = DEVICE_STATE_Unattached then Some (Inl ENDPOINT_RWCSTREAM_DeviceDisconnected, s)
           else if USB_DeviceState_LCL = DEVICE_STATE_Suspended then Some (Inl ENDPOINT_RWCSTREAM_BusSuspended, s)
           else let (setup, s) = Endpoint_IsSETUPReceived s
                in if setup then Some (Inl ENDPOINT_RWCSTREAM_HostAborted, s)
                   else let (out, s) = Endpoint_IsOUTReceived s
                        in if out then do {
                             (DataStream, Length, s) \<leftarrow> cr_drain mv xf p L s;
                             F mv xf DataStream Length (Endpoint_ClearOUT s) }
                           else F mv xf p L s
      else Some (Inr (), s)"
    have "always (cr_post mv p L s) ?body"
      unfolding xf Endpoint_IsSETUPReceived_def Endpoint_IsOUTReceived_def
      by (intro io_vcg) (simp_all add: again packet cr_post_leaf)
    then show "cr_post mv p L s r" if "?body = Some r" using that by (rule alwaysD)
  qed
  then show ?thesis by (simp add: always_def)
qed

definition read_post :: "(u16 \<Rightarrow> u16) \<Rightarrow> u16 \<Rightarrow> u16 \<Rightarrow> usb_st \<Rightarrow> u8 \<times> usb_st \<Rightarrow> bool" where
  "read_post mv p L s = (\<lambda>(code, s'). \<exists>t. s' = stored mv p t s \<and> length (reads UEDATX t) \<le> unat L \<and>
     (code = ENDPOINT_RWCSTREAM_NoError \<longrightarrow> length (reads UEDATX t) = unat L))"

lemma Template_Endpoint_Control_R_meaning:
  "always (read_post mv (Buffer + off Length) Length s) (Template_Endpoint_Control_R off mv xfer Buffer Length s)"
proof -
  let ?p = "Buffer + off Length"
  obtain u where u: "(if Length = 0 then Endpoint_ClearOUT s else s) = stored mv ?p u s" "reads UEDATX u = []"
  proof (cases "Length = 0")
    case True
    then show ?thesis
      using that [of "[Rd UEINTX _, Wr UEINTX _]"] by (simp add: Endpoint_ClearOUT_def io_simps stored_quiet)
  next
    case False
    then show ?thesis using that [of "[]"] by (simp add: stored_quiet)
  qed
  have fin: "always (read_post mv ?p Length s) (case x of (r, s) \<Rightarrow> case r of Inl err \<Rightarrow> Some (err, s) | Inr _ \<Rightarrow> cr_status s)"
    if post: "cr_post mv ?p Length (stored mv ?p u s) x" for x
  proof -
    obtain r s1 t where t: "x = (r, s1)" "s1 = stored mv ?p (u @ t) s" "length (reads UEDATX t) \<le> unat Length"
        "case r of Inl err \<Rightarrow> err \<noteq> ENDPOINT_RWCSTREAM_NoError | Inr _ \<Rightarrow> length (reads UEDATX t) = unat Length"
      using post u(2) stored_stored [of mv u ?p _ s] by (auto simp: cr_post_def)
    show ?thesis
    proof (cases r)
      case (Inl err)
      then show ?thesis using t u(2) by (auto simp: read_post_def intro!: exI [of _ "u @ t"])
    next
      case (Inr x)
      have "always (read_post mv ?p Length s) (cr_status s1)"
      proof (rule always_mono [OF cr_status_meaning])
        fix y assume "poll_post s1 y"
        then obtain code v where "y = (code, ev s1 v)" "reads UEDATX v = []" by (auto simp: poll_post_def)
        with t u(2) Inr show "read_post mv ?p Length s y"
          using stored_stored [of mv "u @ t" ?p v s]
          by (auto simp: read_post_def stored_quiet intro!: exI [of _ "(u @ t) @ v"])
      qed
      with Inr t show ?thesis by simp
    qed
  qed
  show ?thesis
    unfolding Template_Endpoint_Control_R_def Let_def u(1)
    by (rule always_bind [OF cr_data_meaning]) (rule fin)
qed

end

interpretation ram_sink: byte_sink ram_update read_ram
  by unfold_locales (simp_all add: read_ram_def Endpoint_Read_8_def ev_def case_prod_beta comp_def)

interpretation eeprom_sink: byte_sink eeprom_update read_eeprom
  by unfold_locales (simp_all add: read_eeprom_def Endpoint_Read_8_def ev_def case_prod_beta comp_def)

text \<open>The four control read streams, each with the memory it fills and whether it fills it backwards.\<close>

definition control_readers :: "((u16 \<Rightarrow> u16 \<Rightarrow> usb_st \<Rightarrow> (u8 \<times> usb_st) option) \<times>
    (((u16 \<Rightarrow> u8) \<Rightarrow> u16 \<Rightarrow> u8) \<Rightarrow> usb_st \<Rightarrow> usb_st) \<times> bool) set" where
  "control_readers = {(Endpoint_Read_Control_Stream_LE, ram_update, False), (Endpoint_Read_Control_Stream_BE, ram_update, True),
     (Endpoint_Read_Control_EStream_LE, eeprom_update, False), (Endpoint_Read_Control_EStream_BE, eeprom_update, True)}"

lemmas control_read_defs =
  Endpoint_Read_Control_Stream_LE_def Endpoint_Read_Control_Stream_BE_def
  Endpoint_Read_Control_EStream_LE_def Endpoint_Read_Control_EStream_BE_def

lemma control_readers_meaning:
  assumes w: "(f, upd, be) \<in> control_readers" and ret: "f Buffer Length s = Some (code, s')"
  shows "\<exists>t. s' = upd (store (if be then be_move else le_move) (Buffer + (if be then Length - 1 else 0)) (reads UEDATX t)) (ev s t) \<and>
    length (reads UEDATX t) \<le> unat Length \<and> (code = ENDPOINT_RWCSTREAM_NoError \<longrightarrow> length (reads UEDATX t) = unat Length)"
proof -
  note meaning = alwaysD [OF ram_sink.Template_Endpoint_Control_R_meaning] alwaysD [OF eeprom_sink.Template_Endpoint_Control_R_meaning]
  note posts = ram_sink.read_post_def ram_sink.stored_def eeprom_sink.read_post_def eeprom_sink.stored_def
  show ?thesis
    using w ret unfolding control_readers_def insert_iff empty_iff prod.inject
    by (elim disjE conjE) (simp_all only: control_read_defs if_True if_False, auto dest!: meaning simp: posts le_offset_def be_offset_def)
qed

text \<open>
  C21. What a control read stream stores. Whatever the host does: the bytes read from the FIFO, and only they,
  are stored in the buffer in the order they were read, from its start or (byte-reversed streams) from its
  end downwards, never more than \<open>Length\<close> of them; nothing else in memory changes. A stream that reports
  success has stored exactly \<open>Length\<close> bytes. This holds for RAM and EEPROM buffers in both byte orders.
\<close>

theorem Endpoint_Read_Control_Stream_stores:
  assumes "(f, upd, backwards) \<in> control_readers" and "f Buffer Length s = Some (code, s')"
  shows "\<exists>t. s' = upd (store (if backwards then be_move else le_move) (Buffer + (if backwards then Length - 1 else 0))
        (reads UEDATX t)) (ev s t) \<and>
    length (reads UEDATX t) \<le> unat Length \<and> (code = ENDPOINT_RWCSTREAM_NoError \<longrightarrow> length (reads UEDATX t) = unat Length)"
  using assms by (rule control_readers_meaning)

theorem Endpoint_Read_Control_Stream_stores_witness:
  "\<exists>code s' t. Endpoint_Read_Control_Stream_BE 16 2 (boot_st (\<lambda>t l. if l = USB_DeviceState then 4 else if l = UEINTX then 5 else 2)) =
     Some (code, s') \<and> ram s' = store be_move 17 (reads UEDATX t) (\<lambda>_. 0) \<and> (code = 0 \<longrightarrow> length (reads UEDATX t) = 2)"
proof -
  let ?s = "boot_st (\<lambda>t l. if l = USB_DeviceState then 4 else if l = UEINTX then 5 else 2)"
  have "Endpoint_Read_Control_Stream_BE 16 2 ?s \<noteq> None"
    by code_simp
  then obtain code s' where r: "Endpoint_Read_Control_Stream_BE 16 2 ?s = Some (code, s')" by auto
  have "(Endpoint_Read_Control_Stream_BE, ram_update, True) \<in> control_readers" by (simp add: control_readers_def)
  from Endpoint_Read_Control_Stream_stores [OF this r] r show ?thesis
    by (fastforce simp: boot_st_def)
qed

end
