(* ===== verification/Device_Standard_Requests.thy ===== *)
theory Device_Standard_Requests
  imports Endpoint_Control_Streams
begin

text \<open>
  The standard control requests of a device (\<^verbatim>\<open>Drivers/USB/Core/DeviceStandardReq.c\<close>) with the accessors of
  \<^verbatim>\<open>AVR8/Device_AVR8.h\<close> they use. What the application supplies - the event handlers, the descriptor
  callback - is a record of parameters. The descriptor callback is a function of its arguments: it returns
  the size (0 is \<open>NO_DESCRIPTOR\<close>), the address and the address space of a descriptor.
\<close>

section \<open>The application\<close>

abbreviation (input) MEMSPACE_FLASH :: u8 where "MEMSPACE_FLASH \<equiv> 0"
abbreviation (input) MEMSPACE_EEPROM :: u8 where "MEMSPACE_EEPROM \<equiv> 1"
abbreviation (input) MEMSPACE_RAM :: u8 where "MEMSPACE_RAM \<equiv> 2"
abbreviation (input) NO_DESCRIPTOR :: u16 where "NO_DESCRIPTOR \<equiv> 0"

text \<open>
  An event handler is a state transformer that may not return. \<open>sig_byte\<close> is the signature row
  (\<open>boot_signature_byte_get\<close>); \<open>sig_buffer\<close> and \<open>enum_buffer\<close> are the stack addresses of the serial number
  descriptor that \<open>USB_Device_GetInternalSerialDescriptor\<close> builds and of the buffer into which the host reads
  the start of a device descriptor. \<open>INTERRUPT_CONTROL_ENDPOINT\<close> is the compile-time option of that name.
\<close>

type_synonym event = "usb_st \<Rightarrow> usb_st option"

record usb_app =
  EVENT_USB_Device_ControlRequest :: event
  EVENT_USB_Device_ConfigurationChanged :: event
  EVENT_USB_Device_StartOfFrame :: event
  EVENT_USB_Device_Connect :: event
  EVENT_USB_Device_Disconnect :: event
  EVENT_USB_Device_Suspend :: event
  EVENT_USB_Device_WakeUp :: event
  EVENT_USB_Device_Reset :: event
  EVENT_USB_Host_StartOfFrame :: event
  EVENT_USB_Host_DeviceAttached :: event
  EVENT_USB_Host_DeviceUnattached :: event
  EVENT_USB_Host_HostError :: "u8 \<Rightarrow> event"
  EVENT_USB_Host_DeviceEnumerationFailed :: "u8 \<Rightarrow> u8 \<Rightarrow> event"
  EVENT_USB_Host_DeviceEnumerationComplete :: event
  EVENT_USB_UIDChange :: event
  CALLBACK_USB_GetDescriptor :: "u16 \<Rightarrow> u16 \<Rightarrow> u16 \<times> u16 \<times> u8"
  sig_byte :: "u8 \<Rightarrow> u8"
  sig_buffer :: u16
  enum_buffer :: u16
  INTERRUPT_CONTROL_ENDPOINT :: bool

definition mem_byte :: "u8 \<Rightarrow> u16 \<Rightarrow> usb_st \<Rightarrow> u8" where
  "mem_byte space a s = (if space = MEMSPACE_FLASH then flash s a else if space = MEMSPACE_EEPROM then eeprom s a else ram s a)"

section \<open>Device address and serial number\<close>

abbreviation (input) ADDEN :: u8 where "ADDEN \<equiv> bmask 7"

definition USB_Device_SetDeviceAddress :: "u8 \<Rightarrow> usb_st \<Rightarrow> usb_st" where
  "USB_Device_SetDeviceAddress Address s =
     (let (a, s) = rd8 UDADDR s in wr8 UDADDR ((a AND ADDEN) OR (Address AND 0x7F)) s)"

definition USB_Device_EnableDeviceAddress :: "u8 \<Rightarrow> usb_st \<Rightarrow> usb_st" where
  "USB_Device_EnableDeviceAddress Address s = set_bits UDADDR ADDEN s"

definition USB_Device_IsAddressSet :: "usb_st \<Rightarrow> bool \<times> usb_st" where
  "USB_Device_IsAddressSet s = test_bits UDADDR ADDEN s"

definition write_ram16 :: "u16 \<Rightarrow> u16 \<Rightarrow> usb_st \<Rightarrow> usb_st" where
  "write_ram16 a v s = s\<lparr>ram := (ram s)(a := ucast v, a + 1 := ucast (drop_bit 8 v))\<rparr>"

fun serial_chars :: "(u8 \<Rightarrow> u8) \<Rightarrow> nat \<Rightarrow> u8 \<Rightarrow> u8 \<Rightarrow> u16 \<Rightarrow> usb_st \<Rightarrow> usb_st" where
  "serial_chars sig 0 SerialCharNum SigReadAddress p s = s"
| "serial_chars sig (Suc n) SerialCharNum SigReadAddress p s =
     (let SerialByte = sig SigReadAddress;
          (SerialByte, SigReadAddress) =
            (if SerialCharNum AND 1 \<noteq> 0 then (drop_bit 4 SerialByte, SigReadAddress + 1) else (SerialByte, SigReadAddress));
          SerialByte = SerialByte AND 0x0F;
          c = (if SerialByte \<ge> 10 then 55 + ucast SerialByte else 48 + ucast SerialByte)
      in serial_chars sig n (SerialCharNum + 1) SigReadAddress (p + 2) (write_ram16 p c s))"

text \<open>The loop runs with interrupts off; bit 7 of \<open>SREG\<close> is the global interrupt enable that \<open>cli\<close> clears.\<close>

abbreviation (input) INTERNAL_SERIAL_START_ADDRESS :: u8 where "INTERNAL_SERIAL_START_ADDRESS \<equiv> 0x0E"

definition USB_Device_GetSerialString :: "(u8 \<Rightarrow> u8) \<Rightarrow> u16 \<Rightarrow> usb_st \<Rightarrow> usb_st" where
  "USB_Device_GetSerialString sig UnicodeString s =
     (let (CurrentGlobalInt, s) = rd8 SREG s;
          s = clear_bits SREG (bmask 7) s;
          s = serial_chars sig 20 0 INTERNAL_SERIAL_START_ADDRESS UnicodeString s
      in wr8 SREG CurrentGlobalInt s)"

section \<open>The requests\<close>

abbreviation (input) REQ_GetStatus :: u8 where "REQ_GetStatus \<equiv> 0"
abbreviation (input) REQ_ClearFeature :: u8 where "REQ_ClearFeature \<equiv> 1"
abbreviation (input) REQ_SetFeature :: u8 where "REQ_SetFeature \<equiv> 3"
abbreviation (input) REQ_SetAddress :: u8 where "REQ_SetAddress \<equiv> 5"
abbreviation (input) REQ_GetDescriptor :: u8 where "REQ_GetDescriptor \<equiv> 6"
abbreviation (input) REQ_GetConfiguration :: u8 where "REQ_GetConfiguration \<equiv> 8"
abbreviation (input) REQ_SetConfiguration :: u8 where "REQ_SetConfiguration \<equiv> 9"
abbreviation (input) CONTROL_REQTYPE_RECIPIENT :: u8 where "CONTROL_REQTYPE_RECIPIENT \<equiv> 0x1F"
abbreviation (input) REQREC_DEVICE :: u8 where "REQREC_DEVICE \<equiv> 0"
abbreviation (input) REQREC_INTERFACE :: u8 where "REQREC_INTERFACE \<equiv> 1"
abbreviation (input) REQREC_ENDPOINT :: u8 where "REQREC_ENDPOINT \<equiv> 2"
abbreviation (input) FEATURE_SEL_EndpointHalt :: u8 where "FEATURE_SEL_EndpointHalt \<equiv> 0"
abbreviation (input) FEATURE_SEL_DeviceRemoteWakeup :: u8 where "FEATURE_SEL_DeviceRemoteWakeup \<equiv> 1"
abbreviation (input) FEATURE_SELFPOWERED_ENABLED :: u8 where "FEATURE_SELFPOWERED_ENABLED \<equiv> bmask 0"
abbreviation (input) FEATURE_REMOTE_WAKEUP_ENABLED :: u8 where "FEATURE_REMOTE_WAKEUP_ENABLED \<equiv> bmask 1"
abbreviation (input) DTYPE_Device :: u16 where "DTYPE_Device \<equiv> 1"
abbreviation (input) DTYPE_String :: u16 where "DTYPE_String \<equiv> 3"
abbreviation (input) USE_INTERNAL_SERIAL :: u16 where "USE_INTERNAL_SERIAL \<equiv> 0xDC"
abbreviation (input) NumberOfConfigurations_offset :: u16 where "NumberOfConfigurations_offset \<equiv> 17"
abbreviation (input) Endpoint0Size_offset :: u16 where "Endpoint0Size_offset \<equiv> 7"

partial_function (option) wait_INReady :: "usb_st \<Rightarrow> usb_st option" where
  "wait_INReady s = (let (r, s) = Endpoint_IsINReady s in if r then Some s else wait_INReady s)"

definition USB_Device_SetAddress :: "usb_st \<Rightarrow> usb_st option" where
  "USB_Device_SetAddress s = do {
     let DeviceAddress = ucast (wValue (USB_ControlRequest s) AND 0x7F);
     let s = USB_Device_SetDeviceAddress DeviceAddress s;
     let s = Endpoint_ClearSETUP s;
     s \<leftarrow> Endpoint_ClearStatusStage s;
     s \<leftarrow> wait_INReady s;
     let s = USB_Device_EnableDeviceAddress DeviceAddress s;
     Some (wr8 USB_DeviceState (if DeviceAddress \<noteq> 0 then DEVICE_STATE_Addressed else DEVICE_STATE_Default) s) }"

definition USB_Device_SetConfiguration :: "usb_app \<Rightarrow> usb_st \<Rightarrow> usb_st option" where
  "USB_Device_SetConfiguration App s =
     (let (size, DevDescriptorPtr, MemoryAddressSpace) = CALLBACK_USB_GetDescriptor App (push_bit 8 DTYPE_Device) 0
      in if size = NO_DESCRIPTOR then Some s
         else if ucast (wValue (USB_ControlRequest s)) >
             mem_byte MemoryAddressSpace (DevDescriptorPtr + NumberOfConfigurations_offset) s then Some s
         else do {
           let s = Endpoint_ClearSETUP s;
           let s = s\<lparr>USB_Device_ConfigurationNumber := ucast (wValue (USB_ControlRequest s))\<rparr>;
           s \<leftarrow> Endpoint_ClearStatusStage s;
           let s = (if USB_Device_ConfigurationNumber s \<noteq> 0 then wr8 USB_DeviceState DEVICE_STATE_Configured s
                    else let (a, s) = USB_Device_IsAddressSet s
                         in wr8 USB_DeviceState (if a then DEVICE_STATE_Configured else DEVICE_STATE_Powered) s);
           EVENT_USB_Device_ConfigurationChanged App s })"

definition USB_Device_GetConfiguration :: "usb_st \<Rightarrow> usb_st option" where
  "USB_Device_GetConfiguration s =
     (let s = Endpoint_ClearSETUP s;
          s = Endpoint_Write_8 (USB_Device_ConfigurationNumber s) s;
          s = Endpoint_ClearIN s
      in Endpoint_ClearStatusStage s)"

definition USB_Device_GetInternalSerialDescriptor :: "usb_app \<Rightarrow> usb_st \<Rightarrow> usb_st option" where
  "USB_Device_GetInternalSerialDescriptor App s = do {
     let p = sig_buffer App;
     let s = s\<lparr>ram := (ram s)(p := 42, p + 1 := ucast DTYPE_String)\<rparr>;
     let s = USB_Device_GetSerialString (sig_byte App) (p + 2) s;
     let s = Endpoint_ClearSETUP s;
     (_, s) \<leftarrow> Endpoint_Write_Control_Stream_LE p 42 s;
     Some (Endpoint_ClearOUT s) }"

definition USB_Device_GetDescriptor :: "usb_app \<Rightarrow> usb_st \<Rightarrow> usb_st option" where
  "USB_Device_GetDescriptor App s =
     (if wValue (USB_ControlRequest s) = (push_bit 8 DTYPE_String OR USE_INTERNAL_SERIAL)
      then USB_Device_GetInternalSerialDescriptor App s
      else let (DescriptorSize, DescriptorPointer, DescriptorAddressSpace) =
             CALLBACK_USB_GetDescriptor App (wValue (USB_ControlRequest s)) (wIndex (USB_ControlRequest s))
           in if DescriptorSize = NO_DESCRIPTOR then Some s
              else do {
                let s = Endpoint_ClearSETUP s;
                (_, s) \<leftarrow> (if DescriptorAddressSpace = MEMSPACE_FLASH
                           then Endpoint_Write_Control_PStream_LE DescriptorPointer DescriptorSize s
                           else if DescriptorAddressSpace = MEMSPACE_EEPROM
                           then Endpoint_Write_Control_EStream_LE DescriptorPointer DescriptorSize s
                           else Endpoint_Write_Control_Stream_LE DescriptorPointer DescriptorSize s);
                Some (Endpoint_ClearOUT s) })"

definition get_status_reply :: "u8 \<Rightarrow> usb_st \<Rightarrow> usb_st option" where
  "get_status_reply CurrentStatus s =
     (let s = Endpoint_ClearSETUP s;
          s = Endpoint_Write_16_LE (ucast CurrentStatus) s;
          s = Endpoint_ClearIN s
      in Endpoint_ClearStatusStage s)"

definition USB_Device_GetStatus :: "usb_st \<Rightarrow> usb_st option" where
  "USB_Device_GetStatus s =
     (if bmRequestType (USB_ControlRequest s) = (REQDIR_DEVICETOHOST OR REQREC_DEVICE)
      then get_status_reply ((if USB_Device_CurrentlySelfPowered s then FEATURE_SELFPOWERED_ENABLED else 0) OR
             (if USB_Device_RemoteWakeupEnabled s then FEATURE_REMOTE_WAKEUP_ENABLED else 0)) s
      else if bmRequestType (USB_ControlRequest s) = (REQDIR_DEVICETOHOST OR REQREC_ENDPOINT)
      then let EndpointIndex = ucast (wIndex (USB_ControlRequest s)) AND ENDPOINT_EPNUM_MASK
           in if EndpointIndex \<ge> ENDPOINT_TOTAL_ENDPOINTS then Some s
              else let s = Endpoint_SelectEndpoint EndpointIndex s;
                       (stalled, s) = Endpoint_IsStalled s;
                       s = Endpoint_SelectEndpoint ENDPOINT_CONTROLEP s
                   in get_status_reply (if stalled then 1 else 0) s
      else Some s)"

definition feature_reply :: "usb_st \<Rightarrow> usb_st option" where
  "feature_reply s =
     (let s = Endpoint_SelectEndpoint ENDPOINT_CONTROLEP s;
          s = Endpoint_ClearSETUP s
      in Endpoint_ClearStatusStage s)"

definition USB_Device_ClearSetFeature :: "usb_st \<Rightarrow> usb_st option" where
  "USB_Device_ClearSetFeature s =
     (let recipient = bmRequestType (USB_ControlRequest s) AND CONTROL_REQTYPE_RECIPIENT
      in if recipient = REQREC_DEVICE then
           (if ucast (wValue (USB_ControlRequest s)) = FEATURE_SEL_DeviceRemoteWakeup
            then feature_reply (s\<lparr>USB_Device_RemoteWakeupEnabled := (bRequest (USB_ControlRequest s) = REQ_SetFeature)\<rparr>)
            else Some s)
         else if recipient = REQREC_ENDPOINT then
           (if ucast (wValue (USB_ControlRequest s)) = FEATURE_SEL_EndpointHalt
            then let EndpointIndex = ucast (wIndex (USB_ControlRequest s)) AND ENDPOINT_EPNUM_MASK
                 in if EndpointIndex = ENDPOINT_CONTROLEP \<or> EndpointIndex \<ge> ENDPOINT_TOTAL_ENDPOINTS then Some s
                    else let s = Endpoint_SelectEndpoint EndpointIndex s;
                             (enabled, s) = Endpoint_IsEnabled s;
                             s = (if enabled then
                                    (if bRequest (USB_ControlRequest s) = REQ_SetFeature then Endpoint_StallTransaction s
                                     else Endpoint_ResetDataToggle (Endpoint_ResetEndpoint EndpointIndex (Endpoint_ClearStall s)))
                                  else s)
                         in feature_reply s
            else feature_reply s)
         else Some s)"

declare wait_INReady.simps [code]

section \<open>The dispatcher\<close>

text \<open>The eight bytes of a SETUP packet, read straight into the request structure.\<close>

definition read_request_header :: "usb_st \<Rightarrow> usb_st" where
  "read_request_header s =
     (let (b0, s) = Endpoint_Read_8 s; (b1, s) = Endpoint_Read_8 s; (b2, s) = Endpoint_Read_8 s;
          (b3, s) = Endpoint_Read_8 s; (b4, s) = Endpoint_Read_8 s; (b5, s) = Endpoint_Read_8 s;
          (b6, s) = Endpoint_Read_8 s; (b7, s) = Endpoint_Read_8 s
      in s\<lparr>USB_ControlRequest := \<lparr>bmRequestType = b0, bRequest = b1, wValue = u16_of_bytes b2 b3,
           wIndex = u16_of_bytes b4 b5, wLength = u16_of_bytes b6 b7\<rparr>\<rparr>)"

definition std_request :: "usb_app \<Rightarrow> usb_st \<Rightarrow> usb_st option" where
  "std_request App s =
     (let bmRequestType = bmRequestType (USB_ControlRequest s); req = bRequest (USB_ControlRequest s)
      in if req = REQ_GetStatus then
           (if bmRequestType = (REQDIR_DEVICETOHOST OR REQREC_DEVICE) \<or> bmRequestType = (REQDIR_DEVICETOHOST OR REQREC_ENDPOINT)
            then USB_Device_GetStatus s else Some s)
         else if req = REQ_ClearFeature \<or> req = REQ_SetFeature then
           (if bmRequestType = REQREC_DEVICE \<or> bmRequestType = REQREC_ENDPOINT
            then USB_Device_ClearSetFeature s else Some s)
         else if req = REQ_SetAddress then
           (if bmRequestType = REQREC_DEVICE then USB_Device_SetAddress s else Some s)
         else if req = REQ_GetDescriptor then
           (if bmRequestType = (REQDIR_DEVICETOHOST OR REQREC_DEVICE) \<or> bmRequestType = (REQDIR_DEVICETOHOST OR REQREC_INTERFACE)
            then USB_Device_GetDescriptor App s else Some s)
         else if req = REQ_GetConfiguration then
           (if bmRequestType = (REQDIR_DEVICETOHOST OR REQREC_DEVICE) then USB_Device_GetConfiguration s else Some s)
         else if req = REQ_SetConfiguration then
           (if bmRequestType = REQREC_DEVICE then USB_Device_SetConfiguration App s else Some s)
         else Some s)"

definition USB_Device_ProcessControlRequest :: "usb_app \<Rightarrow> usb_st \<Rightarrow> usb_st option" where
  "USB_Device_ProcessControlRequest App s = do {
     s \<leftarrow> EVENT_USB_Device_ControlRequest App (read_request_header s);
     let (setup, s) = Endpoint_IsSETUPReceived s;
     s \<leftarrow> (if setup then std_request App s else Some s);
     let (setup, s) = Endpoint_IsSETUPReceived s;
     Some (if setup then Endpoint_StallTransaction (Endpoint_ClearSETUP s) else s) }"

section \<open>Requests the library does not support\<close>

text \<open>The standard requests of a device, by request type and request code.\<close>

definition standard_requests :: "(u8 \<times> u8) set" where
  "standard_requests = {(0x80, 0), (0x82, 0), (0x00, 1), (0x02, 1), (0x00, 3), (0x02, 3), (0x00, 5),
     (0x80, 6), (0x81, 6), (0x80, 8), (0x00, 9)}"

text \<open>The writes of a trace, in order.\<close>

definition all_writes :: "io list \<Rightarrow> (vloc \<times> u16) list" where
  "all_writes t = concat (map (\<lambda>e. case e of Wr l v \<Rightarrow> [(l, v)] | Rd _ _ \<Rightarrow> []) t)"

lemma all_writes_simps [simp]:
  "all_writes [] = []" "all_writes (Rd l v # t) = all_writes t" "all_writes (Wr l v # t) = (l, v) # all_writes t"
  "all_writes (t @ u) = all_writes t @ all_writes u"
  by (simp_all add: all_writes_def)

lemma std_request_unsupported:
  "(bmRequestType (USB_ControlRequest s), bRequest (USB_ControlRequest s)) \<notin> standard_requests \<Longrightarrow> std_request App s = Some s"
  by (auto simp: std_request_def standard_requests_def Let_def)

lemma read_request_header_ev:
  "\<exists>t r. read_request_header s = (ev s t)\<lparr>USB_ControlRequest := r\<rparr> \<and> all_writes t = []"
  unfolding read_request_header_def Endpoint_Read_8_def Let_def
  by (simp only: io_simps prod.case) fastforce

lemma ev_update_commute: "ev (s\<lparr>USB_ControlRequest := r\<rparr>) t = (ev s t)\<lparr>USB_ControlRequest := r\<rparr>"
  by (simp add: ev_def)

lemma ev_update_inject: "(ev s t)\<lparr>USB_ControlRequest := r\<rparr> = (ev s u)\<lparr>USB_ControlRequest := r\<rparr> \<longleftrightarrow> t = u"
proof
  assume "(ev s t)\<lparr>USB_ControlRequest := r\<rparr> = (ev s u)\<lparr>USB_ControlRequest := r\<rparr>"
  then have "trace ((ev s t)\<lparr>USB_ControlRequest := r\<rparr>) = trace ((ev s u)\<lparr>USB_ControlRequest := r\<rparr>)" by (rule arg_cong)
  then show "t = u" by simp
qed simp


text \<open>An application with one descriptor of size \<open>n\<close> at address \<open>a\<close> in flash, which ignores all events.\<close>

definition quiet_app :: "u16 \<Rightarrow> u16 \<Rightarrow> usb_app" where
  "quiet_app n a = \<lparr>EVENT_USB_Device_ControlRequest = Some, EVENT_USB_Device_ConfigurationChanged = Some,
     EVENT_USB_Device_StartOfFrame = Some, EVENT_USB_Device_Connect = Some, EVENT_USB_Device_Disconnect = Some,
     EVENT_USB_Device_Suspend = Some, EVENT_USB_Device_WakeUp = Some, EVENT_USB_Device_Reset = Some,
     EVENT_USB_Host_StartOfFrame = Some, EVENT_USB_Host_DeviceAttached = Some, EVENT_USB_Host_DeviceUnattached = Some,
     EVENT_USB_Host_HostError = (\<lambda>_. Some), EVENT_USB_Host_DeviceEnumerationFailed = (\<lambda>_ _. Some),
     EVENT_USB_Host_DeviceEnumerationComplete = Some, EVENT_USB_UIDChange = Some,
     CALLBACK_USB_GetDescriptor = (\<lambda>_ _. (n, a, MEMSPACE_FLASH)), sig_byte = (\<lambda>i. i), sig_buffer = 0x100,
     enum_buffer = 0x200, INTERRUPT_CONTROL_ENDPOINT = False\<rparr>"


section \<open>Polling\<close>

definition polled :: "usb_st \<Rightarrow> bool \<times> usb_st \<Rightarrow> bool" where
  "polled s = (\<lambda>(_, s'). \<exists>t. s' = ev s t \<and> (\<forall>l. writes l t = []))"

lemma status_stage_poll_quiet: "always (polled s) (status_stage_poll flag s)"
proof -
  have "polled s r" if ret: "status_stage_poll flag s = Some r" for r
  proof (rule status_stage_poll.raw_induct [where P = "\<lambda>_. polled", OF _ ret])
    fix F :: "u8 \<Rightarrow> usb_st \<Rightarrow> (bool \<times> usb_st) option" and flag s r
    assume "\<And>flag s r. F flag s = Some r \<Longrightarrow> polled s r"
    then have IH: "always (polled s) (F flag s)" for flag s by (simp add: always_def)
    have again: "always (polled s) (F flag (ev s [Rd a b, Rd c d]))" for a b c d
      by (rule always_mono [OF IH]) (auto simp: polled_def)
    let ?body = "let (r, s) = test_bits UEINTX flag s
      in if r then Some (True, s)
         else let (d, s) = rd8 USB_DeviceState s in if d = DEVICE_STATE_Unattached then Some (False, s) else F flag s"
    have "always (polled s) ?body"
      by (intro io_vcg) (simp_all add: again, simp_all add: polled_def)
    then show "polled s r" if "?body = Some r" using that by (rule alwaysD)
  qed
  then show ?thesis by (simp add: always_def)
qed

text \<open>The status stage of a request only reads, and perhaps hands over a bank.\<close>

definition acked :: "usb_st \<Rightarrow> usb_st \<Rightarrow> bool" where
  "acked s s' \<longleftrightarrow> (\<exists>t. s' = ev s t \<and> (\<forall>l. l \<noteq> UEINTX \<longrightarrow> writes l t = []))"

lemma acked_trans: "acked s s1 \<Longrightarrow> acked s1 s2 \<Longrightarrow> acked s s2"
  by (auto simp: acked_def)

lemma acked_clear: "acked s (Endpoint_ClearIN s)" "acked s (Endpoint_ClearOUT s)" "acked s (Endpoint_ClearSETUP s)" "acked s s"
  by (auto simp: acked_def Endpoint_ClearIN_def Endpoint_ClearOUT_def Endpoint_ClearSETUP_def io_simps intro: exI [of _ "[]"])

lemma polled_acked: "polled s (b, s') \<Longrightarrow> acked s s'"
  by (auto simp: polled_def acked_def)

lemma Endpoint_ClearStatusStage_acked: "always (acked s) (Endpoint_ClearStatusStage s)"
  unfolding Endpoint_ClearStatusStage_def
  by (intro always_if always_bind [OF status_stage_poll_quiet])
     (auto dest!: polled_acked intro: acked_trans [OF _ acked_clear(1)] acked_trans [OF _ acked_clear(2)])

definition in_ready :: "usb_st \<Rightarrow> usb_st \<Rightarrow> bool" where
  "in_ready s s' \<longleftrightarrow> (\<exists>t w. s' = ev s (t @ [Rd UEINTX w]) \<and> (\<forall>l. writes l t = []) \<and> (ucast w :: u8) AND TXINI \<noteq> 0)"

lemma wait_INReady_meaning: "always (in_ready s) (wait_INReady s)"
proof -
  have "in_ready s r" if ret: "wait_INReady s = Some r" for r
  proof (rule wait_INReady.raw_induct [where P = in_ready, OF _ ret])
    fix F s r
    assume "\<And>s r. F s = Some r \<Longrightarrow> in_ready s r"
    then have IH: "always (in_ready s) (F s)" for s by (simp add: always_def)
    have again: "always (in_ready s) (F (ev s [Rd a b]))" for a b
    proof (rule always_mono [OF IH])
      fix y assume "in_ready (ev s [Rd a b]) y"
      then obtain t w where "y = ev s ((Rd a b # t) @ [Rd UEINTX w])" "\<forall>l. writes l t = []" "(ucast w :: u8) AND TXINI \<noteq> 0"
        by (auto simp: in_ready_def)
      then show "in_ready s y" unfolding in_ready_def by (intro exI [of _ "Rd a b # t"] exI [of _ w]) simp
    qed
    let ?body = "let (r, s) = Endpoint_IsINReady s in if r then Some s else F s"
    have "always (in_ready s) ?body"
      unfolding Endpoint_IsINReady_def
      by (intro io_vcg) (simp_all add: again, auto simp: in_ready_def intro!: exI [of _ "[]"])
    then show "in_ready s r" if "?body = Some r" using that by (rule alwaysD)
  qed
  then show ?thesis by (simp add: always_def)
qed

section \<open>Addressing the device\<close>

definition addressed :: "u8 \<Rightarrow> usb_st \<Rightarrow> usb_st \<Rightarrow> bool" where
  "addressed a s s' \<longleftrightarrow> (\<exists>t w x x0. s' = ev s (t @ [Rd UEINTX w, Rd UDADDR x, Wr UDADDR (ucast ((ucast x :: u8) OR ADDEN)),
       Wr USB_DeviceState (ucast (if a \<noteq> 0 then DEVICE_STATE_Addressed else DEVICE_STATE_Default))]) \<and>
     (ucast w :: u8) AND TXINI \<noteq> 0 \<and> writes UDADDR t = [ucast ((x0 AND ADDEN) OR a)] \<and> writes USB_DeviceState t = [])"

lemma USB_Device_SetAddress_meaning:
  "always (addressed (ucast (wValue (USB_ControlRequest s) AND 0x7F)) s) (USB_Device_SetAddress s)"
proof -
  define a :: u8 where "a = ucast (wValue (USB_ControlRequest s) AND 0x7F)"
  have a7: "a AND 0x7F = a"
    by (rule bit_word_eqI) (auto simp: a_def bit_simps)
  obtain x0 where s0: "USB_Device_SetDeviceAddress a s = ev s [Rd UDADDR x0, Wr UDADDR (ucast (((ucast x0 :: u8) AND ADDEN) OR a))]"
    by (simp add: USB_Device_SetDeviceAddress_def io_simps a7)
  have "always (addressed a s) (Endpoint_ClearStatusStage s1 \<bind> (\<lambda>s. wait_INReady s \<bind> (\<lambda>s. Some
      (wr8 USB_DeviceState (if a \<noteq> 0 then DEVICE_STATE_Addressed else DEVICE_STATE_Default) (USB_Device_EnableDeviceAddress a s)))))"
    if s1: "s1 = Endpoint_ClearSETUP (USB_Device_SetDeviceAddress a s)" for s1
  proof (intro always_bind [OF Endpoint_ClearStatusStage_acked] always_bind [OF wait_INReady_meaning])
    fix s2 s3 assume s2: "acked s1 s2" and s3: "in_ready s2 s3"
    have "acked (USB_Device_SetDeviceAddress a s) s2" using s1 s2 acked_clear acked_trans by blast
    then obtain t where t: "s2 = ev s ([Rd UDADDR x0, Wr UDADDR (ucast (((ucast x0 :: u8) AND ADDEN) OR a))] @ t)"
        "\<forall>l. l \<noteq> UEINTX \<longrightarrow> writes l t = []"
      by (auto simp: acked_def s0)
    from s3 obtain u w where u: "s3 = ev s2 (u @ [Rd UEINTX w])" "\<forall>l. writes l u = []" "(ucast w :: u8) AND TXINI \<noteq> 0"
      by (auto simp: in_ready_def)
    obtain x where x: "USB_Device_EnableDeviceAddress a s3 = ev s3 [Rd UDADDR x, Wr UDADDR (ucast ((ucast x :: u8) OR ADDEN))]"
      by (simp add: USB_Device_EnableDeviceAddress_def io_simps)
    show "always (addressed a s) (Some (wr8 USB_DeviceState (if a \<noteq> 0 then DEVICE_STATE_Addressed else DEVICE_STATE_Default)
        (USB_Device_EnableDeviceAddress a s3)))"
      unfolding always_simps addressed_def x
      by (rule exI [of _ "[Rd UDADDR x0, Wr UDADDR (ucast (((ucast x0 :: u8) AND ADDEN) OR a))] @ t @ u"], rule exI [of _ w],
          rule exI [of _ x], rule exI [of _ "ucast x0"])
         (use t u in \<open>simp add: io_simps\<close>)
  qed
  then show ?thesis unfolding USB_Device_SetAddress_def Let_def a_def [symmetric] by blast
qed



section \<open>Choosing a configuration\<close>

lemma ev_config_commute: "ev (s\<lparr>USB_Device_ConfigurationNumber := n\<rparr>) t = (ev s t)\<lparr>USB_Device_ConfigurationNumber := n\<rparr>"
  by (simp add: ev_def)

definition configured :: "u8 \<Rightarrow> usb_st \<Rightarrow> usb_st \<Rightarrow> bool" where
  "configured n s s' \<longleftrightarrow> (\<exists>t a. s' = (ev s (t @ (if n \<noteq> 0 then [Wr USB_DeviceState (ucast DEVICE_STATE_Configured)]
        else [Rd UDADDR a, Wr USB_DeviceState (ucast (if (ucast a :: u8) AND ADDEN \<noteq> 0 then DEVICE_STATE_Configured
          else DEVICE_STATE_Powered))])))\<lparr>USB_Device_ConfigurationNumber := n\<rparr> \<and> (\<forall>l. l \<noteq> UEINTX \<longrightarrow> writes l t = []))"

text \<open>
  C24. A SET_CONFIGURATION request. If the application has no device descriptor, or the number is larger than the
  number of configurations in it, the request changes nothing at all and is left to be stalled. Otherwise, if
  the request completes, the configuration number is the low byte of the request value, and after nothing but
  accesses to the control endpoint the device state becomes \<open>Configured\<close>; for configuration 0 it becomes
  \<open>Configured\<close> if the device has an address and \<open>Powered\<close> if not.
\<close>

theorem USB_Device_SetConfiguration_range:
  assumes "CALLBACK_USB_GetDescriptor App (push_bit 8 DTYPE_Device) 0 = (sz, ptr, space)"
    and "n = ucast (wValue (USB_ControlRequest s))"
    and "EVENT_USB_Device_ConfigurationChanged App = Some"
  shows "if sz = NO_DESCRIPTOR \<or> mem_byte space (ptr + NumberOfConfigurations_offset) s < n
         then USB_Device_SetConfiguration App s = Some s
         else always (configured n s) (USB_Device_SetConfiguration App s)"
proof (cases "sz = NO_DESCRIPTOR \<or> mem_byte space (ptr + NumberOfConfigurations_offset) s < n")
  case True
  then show ?thesis using assms by (auto simp: USB_Device_SetConfiguration_def)
next
  case False
  let ?s1 = "(Endpoint_ClearSETUP s)\<lparr>USB_Device_ConfigurationNumber := n\<rparr>"
  let ?done = "\<lambda>s. if USB_Device_ConfigurationNumber s \<noteq> 0 then wr8 USB_DeviceState DEVICE_STATE_Configured s
    else let (a, s) = USB_Device_IsAddressSet s
         in wr8 USB_DeviceState (if a then DEVICE_STATE_Configured else DEVICE_STATE_Powered) s"
  have req: "USB_ControlRequest (Endpoint_ClearSETUP s) = USB_ControlRequest s"
    by (simp add: Endpoint_ClearSETUP_def io_simps)
  have "USB_Device_SetConfiguration App s = (Endpoint_ClearStatusStage ?s1 \<bind> (\<lambda>s. Some (?done s)))"
    using assms False by (simp add: USB_Device_SetConfiguration_def req cong: if_cong)
  moreover have "always (configured n s) (Endpoint_ClearStatusStage ?s1 \<bind> (\<lambda>s. Some (?done s)))"
  proof (rule always_bind [OF Endpoint_ClearStatusStage_acked])
    fix s2 assume "acked ?s1 s2"
    moreover have "acked s (Endpoint_ClearSETUP s)" by (rule acked_clear)
    ultimately obtain t where t: "s2 = (ev s t)\<lparr>USB_Device_ConfigurationNumber := n\<rparr>" "\<forall>l. l \<noteq> UEINTX \<longrightarrow> writes l t = []"
      by (auto simp: acked_def ev_config_commute)
    show "always (configured n s) (Some (?done s2))"
      unfolding always_simps configured_def t(1)
      by (rule exI [of _ t], rule exI [of _ "hw s (trace s @ t) UDADDR"]) (use t(2) in \<open>simp add: USB_Device_IsAddressSet_def io_simps ev_config_commute\<close>)
  qed
  ultimately show ?thesis using False by simp
qed

theorem USB_Device_SetConfiguration_range_witness:
  "\<exists>s'. USB_Device_SetConfiguration (quiet_app 18 0) ((boot_st (\<lambda>_ _. 1))\<lparr>flash := (\<lambda>_. 1), USB_ControlRequest :=
       \<lparr>bmRequestType = 0, bRequest = 9, wValue = 1, wIndex = 0, wLength = 0\<rparr>\<rparr>) = Some s' \<and>
     USB_Device_ConfigurationNumber s' = 1"
proof -
  let ?s = "(boot_st (\<lambda>_ _. 1))\<lparr>flash := (\<lambda>_. 1), USB_ControlRequest :=
       \<lparr>bmRequestType = 0, bRequest = 9, wValue = 1, wIndex = 0, wLength = 0\<rparr>\<rparr>"
  have "USB_Device_SetConfiguration (quiet_app 18 0) ?s \<noteq> None" by code_simp
  then obtain s' where "USB_Device_SetConfiguration (quiet_app 18 0) ?s = Some s'" by auto
  with USB_Device_SetConfiguration_range [of "quiet_app 18 0" 18 0 0 1 ?s] show ?thesis
    by (auto simp: quiet_app_def mem_byte_def always_def configured_def)
qed

section \<open>Descriptors\<close>

lemma mem_byte_ev [simp]: "mem_byte space a (ev s t) = mem_byte space a s"
  by (simp add: mem_byte_def)

lemma descriptor_bytes:
  assumes "reply (unat (USB_Device_ControlEndpointSize s)) (wLength (USB_ControlRequest s))
      (map (\<lambda>i. ucast (mem_byte space (ptr + of_nat i) s)) [0..<unat sz]) = R"
    and "empty_bank s" "USB_Device_ControlEndpointSize s \<noteq> 0" "attentive (length R) s"
  shows "\<exists>t. (if space = MEMSPACE_FLASH then Endpoint_Write_Control_PStream_LE ptr sz s
       else if space = MEMSPACE_EEPROM then Endpoint_Write_Control_EStream_LE ptr sz s
       else Endpoint_Write_Control_Stream_LE ptr sz s) = Some (ENDPOINT_RWCSTREAM_NoError, ev s t) \<and> packets t = R"
proof -
  have run: "\<exists>t. f ptr sz s = Some (ENDPOINT_RWCSTREAM_NoError, ev s t) \<and> packets t = R"
    if "(f, mem, False) \<in> control_writers" "\<And>a. mem s a = mem_byte space a s" for f mem
  proof -
    have "R = reply (unat (USB_Device_ControlEndpointSize s)) (wLength (USB_ControlRequest s)) (buffer_bytes (mem s) False ptr sz)"
      using assms(1) that(2) by (simp add: buffer_bytes_def)
    from control_writers_meaning(2) [OF that(1) assms(2,3) this assms(4)] show ?thesis
      by (auto simp: returns_def delivered_def)
  qed
  show ?thesis
    by (auto intro: run [of _ flash] run [of _ eeprom] run [of _ ram] simp: control_writers_def mem_byte_def)
qed


definition sample_request_st :: usb_st where
  "sample_request_st =
     (boot_st (\<lambda>t l. if l = USB_DeviceState then 4 else if l = UEINTX then (if length (packets t) \<le> 1 then 1 else 5) else 0))
     \<lparr>flash := (\<lambda>a. ucast a + 1),
      USB_ControlRequest := \<lparr>bmRequestType = 0x80, bRequest = 6, wValue = 0x100, wIndex = 0, wLength = 8\<rparr>\<rparr>"

lemma sample_request_st:
  "Endpoint_ClearSETUP sample_request_st = ev sample_request_st [Rd UEINTX 1, Wr UEINTX 1]"
  "packets (Rd UEINTX 1 # Wr UEINTX 1 # t) = [] # packets t"
  by (simp_all add: Endpoint_ClearSETUP_def io_simps sample_request_st_def packets_def bmask_def)


section \<open>Halting an endpoint\<close>

text \<open>The writes of a trace made while endpoint \<open>e\<close> is selected; \<open>c\<close> is the endpoint selected before.\<close>

fun ep_writes :: "u16 \<Rightarrow> u16 \<Rightarrow> io list \<Rightarrow> (vloc \<times> u16) list" where
  "ep_writes c e [] = []"
| "ep_writes c e (Rd l v # t) = ep_writes c e t"
| "ep_writes c e (Wr l v # t) = (if l = UENUM then ep_writes v e t else if c = e then (l, v) # ep_writes c e t else ep_writes c e t)"

lemma ep_writes_ack:
  assumes "\<forall>l. l \<noteq> UEINTX \<longrightarrow> writes l t = []"
  shows "k \<noteq> c \<Longrightarrow> ep_writes c k t = []" "fst ` set (ep_writes c c t) \<subseteq> {UEINTX}"
  using assms
proof (induction t)
  case (Cons x t)
  { case 1 with Cons show ?case by (cases x) (auto split: if_splits) }
  { case 2 with Cons show ?case by (cases x) (auto split: if_splits) }
qed simp_all

definition feature_acked :: "usb_st \<Rightarrow> usb_st \<Rightarrow> bool" where
  "feature_acked s s' \<longleftrightarrow> (\<exists>t. s' = ev s (Wr UENUM 0 # t) \<and> (\<forall>l. l \<noteq> UEINTX \<longrightarrow> writes l t = []))"

lemma feature_reply_meaning: "always (feature_acked s) (feature_reply s)"
  unfolding feature_reply_def Let_def
proof (rule always_mono [OF Endpoint_ClearStatusStage_acked])
  fix s' assume "acked (Endpoint_ClearSETUP (Endpoint_SelectEndpoint ENDPOINT_CONTROLEP s)) s'"
  then have "acked (Endpoint_SelectEndpoint ENDPOINT_CONTROLEP s) s'" using acked_clear(3) acked_trans by blast
  then show "feature_acked s s'" by (auto simp: acked_def feature_acked_def Endpoint_SelectEndpoint_def io_simps)
qed

text \<open>What the addressed endpoint is written, from the configuration register \<open>c\<close> read first.\<close>

definition halted :: "u8 \<Rightarrow> bool \<Rightarrow> usb_st \<Rightarrow> usb_st \<Rightarrow> bool" where
  "halted e stall s s' \<longleftrightarrow> (\<exists>t c. s' = ev s (Wr UENUM (ucast e) # Rd UECONX c # t) \<and>
     (\<forall>k. k \<noteq> 0 \<longrightarrow> k \<noteq> ucast e \<longrightarrow> ep_writes (ucast e) k t = []) \<and>
     fst ` set (ep_writes (ucast e) 0 t) \<subseteq> {UEINTX} \<and>
     (if (ucast c :: u8) AND EPEN = 0 then ep_writes (ucast e) (ucast e) t = []
      else if stall then \<exists>x. ep_writes (ucast e) (ucast e) t = [(UECONX, ucast ((x :: u8) OR STALLRQ))]
      else \<exists>x y. ep_writes (ucast e) (ucast e) t = [(UECONX, ucast ((x :: u8) OR STALLRQC)),
        (UERST, ucast (bmask (unat e) :: u8)), (UERST, 0), (UECONX, ucast ((y :: u8) OR RSTDT))]))"

lemma halted_reply:
  assumes "feature_acked (ev s (Wr UENUM (ucast e) # Rd UECONX c # u)) s'" and e: "e \<noteq> 0" "writes UENUM u = []"
    and "if (ucast c :: u8) AND EPEN = 0 then u = []
      else if stall then \<exists>x. u = [Rd UECONX x, Wr UECONX (ucast ((ucast x :: u8) OR STALLRQ))]
      else \<exists>x y. u = [Rd UECONX x, Wr UECONX (ucast ((ucast x :: u8) OR STALLRQC)),
        Wr UERST (ucast (bmask (unat e) :: u8)), Wr UERST 0, Rd UECONX y, Wr UECONX (ucast ((ucast y :: u8) OR RSTDT))]"
  shows "halted e stall s s'"
proof -
  obtain t where t: "s' = ev s (Wr UENUM (ucast e) # Rd UECONX c # u @ Wr UENUM 0 # t)"
      "\<forall>l. l \<noteq> UEINTX \<longrightarrow> writes l t = []"
    using assms(1) by (auto simp: feature_acked_def)
  have e': "(ucast e :: u16) \<noteq> 0" using e(1) by (metis unat_ucast_u8 unat_eq_zero)
  have ack: "\<And>k. k \<noteq> 0 \<Longrightarrow> ep_writes 0 k t = []" "\<And>a b. (a, b) \<in> set (ep_writes 0 0 t) \<Longrightarrow> a = UEINTX"
    using ep_writes_ack [OF t(2), where c = 0] by auto
  show ?thesis
    unfolding halted_def
    by (rule exI [of _ "u @ Wr UENUM 0 # t"], rule exI [of _ c])
       (use assms(4) t e' ack(1) in \<open>auto split: if_splits dest: ack(2)\<close>)
qed

text \<open>
  CLEAR_FEATURE and SET_FEATURE of an endpoint halt. The control endpoint and endpoints that do not exist are
  refused without any effect. Otherwise, if the request completes, only the addressed endpoint is changed, and
  only if it is enabled: it is stalled by SET_FEATURE; CLEAR_FEATURE ends the stall, resets its bank and its
  data toggle. No other endpoint is written to but the control endpoint, which acknowledges the request.
\<close>

lemma USB_Device_ClearSetFeature_halt:
  assumes "bmRequestType (USB_ControlRequest s) AND CONTROL_REQTYPE_RECIPIENT = REQREC_ENDPOINT"
    and "(ucast (wValue (USB_ControlRequest s)) :: u8) = FEATURE_SEL_EndpointHalt"
    and "e = ucast (wIndex (USB_ControlRequest s)) AND ENDPOINT_EPNUM_MASK"
  shows "if e = ENDPOINT_CONTROLEP \<or> ENDPOINT_TOTAL_ENDPOINTS \<le> e then USB_Device_ClearSetFeature s = Some s
    else always (halted e (bRequest (USB_ControlRequest s) = REQ_SetFeature) s) (USB_Device_ClearSetFeature s)"
proof (cases "e = ENDPOINT_CONTROLEP \<or> ENDPOINT_TOTAL_ENDPOINTS \<le> e")
  case True
  then show ?thesis using assms by (auto simp: USB_Device_ClearSetFeature_def Let_def)
next
  case False
  have mask: "e AND ENDPOINT_EPNUM_MASK = e" by (simp add: assms(3) and.assoc)
  have ack: "always (halted e stall s) (feature_reply (ev s (Wr UENUM (ucast e) # Rd UECONX c # u)))"
    if "writes UENUM u = []" "if (ucast c :: u8) AND EPEN = 0 then u = []
      else if stall then \<exists>x. u = [Rd UECONX x, Wr UECONX (ucast ((ucast x :: u8) OR STALLRQ))]
      else \<exists>x y. u = [Rd UECONX x, Wr UECONX (ucast ((ucast x :: u8) OR STALLRQC)),
        Wr UERST (ucast (bmask (unat e) :: u8)), Wr UERST 0, Rd UECONX y, Wr UECONX (ucast ((ucast y :: u8) OR RSTDT))]" for c u stall
    by (rule always_mono [OF feature_reply_meaning], erule halted_reply) (use that False in auto)
  have "always (halted e (bRequest (USB_ControlRequest s) = REQ_SetFeature) s) (USB_Device_ClearSetFeature s)"
    using assms(1,2) False
    by (simp add: USB_Device_ClearSetFeature_def Let_def mask assms(3) [symmetric] Endpoint_SelectEndpoint_def
        Endpoint_IsEnabled_def Endpoint_StallTransaction_def Endpoint_ClearStall_def Endpoint_ResetEndpoint_def
        Endpoint_ResetDataToggle_def io_simps ack)
  with False show ?thesis by simp
qed

lemma USB_Device_ClearSetFeature_halt_example:
  "\<exists>s'. USB_Device_ClearSetFeature ((boot_st (\<lambda>_ _. 1))\<lparr>USB_ControlRequest :=
       \<lparr>bmRequestType = 2, bRequest = 3, wValue = 0, wIndex = 0x82, wLength = 0\<rparr>\<rparr>) = Some s' \<and>
     (\<exists>t. trace s' = Wr UENUM 2 # t \<and> (\<forall>k. k \<noteq> 0 \<longrightarrow> k \<noteq> 2 \<longrightarrow> ep_writes 2 k t = []))"
proof -
  let ?s = "(boot_st (\<lambda>_ _. 1))\<lparr>USB_ControlRequest :=
       \<lparr>bmRequestType = 2, bRequest = 3, wValue = 0, wIndex = 0x82, wLength = 0\<rparr>\<rparr>"
  have "USB_Device_ClearSetFeature ?s \<noteq> None" by code_simp
  then obtain s' where "USB_Device_ClearSetFeature ?s = Some s'" by auto
  with USB_Device_ClearSetFeature_halt [of ?s 2] show ?thesis
    by (auto simp: always_def halted_def)
qed

section \<open>The serial number\<close>

text \<open>The character codes of a hexadecimal digit, and the nibbles of the signature row in the order they are sent.\<close>

definition hex_digit :: "u8 \<Rightarrow> u16" where
  "hex_digit n = of_char (''0123456789ABCDEF'' ! unat n)"

definition nibble :: "(u8 \<Rightarrow> u8) \<Rightarrow> nat \<Rightarrow> u8" where
  "nibble sig i = (let b = sig (INTERNAL_SERIAL_START_ADDRESS + of_nat (i div 2)) in if even i then b AND 0x0F else drop_bit 4 b)"

fun utf16 :: "u16 \<Rightarrow> u16 list \<Rightarrow> (u16 \<Rightarrow> u8) \<Rightarrow> u16 \<Rightarrow> u8" where
  "utf16 p [] m = m"
| "utf16 p (c # cs) m = utf16 (p + 2) cs (m(p := ucast c, p + 1 := ucast (drop_bit 8 c)))"

lemma low_nibble: "(0x0F :: u8) = mask 4"
  by (simp add: mask_eq_exp_minus_1)

lemma high_nibble: "drop_bit 4 b AND 0x0F = drop_bit 4 (b :: u8)"
  unfolding low_nibble by (rule bit_word_eqI) (auto simp: bit_simps dest: bit_imp_le_length)

lemma nibble_small: "nibble sig i AND 0x0F = nibble sig i"
  by (simp add: nibble_def Let_def high_nibble and.assoc)

lemma hex_digit_char:
  assumes "n AND 0x0F = n"
  shows "(if 10 \<le> n then 55 + ucast n else 48 + ucast n) = hex_digit n"
proof -
  have w: "of_nat (unat n) = n" by simp
  have "n \<le> 15" using assms by (metis word_and_le1)
  then have "unat n \<in> set [0..<16]" by (simp add: word_le_nat_alt)
  moreover have "\<forall>k\<in>set [0..<16]. (if 10 \<le> (of_nat k :: u8) then 55 + ucast (of_nat k :: u8)
      else 48 + ucast (of_nat k :: u8)) = hex_digit (of_nat k)"
    by code_simp
  ultimately have "(if 10 \<le> (of_nat (unat n) :: u8) then 55 + ucast (of_nat (unat n) :: u8)
      else 48 + ucast (of_nat (unat n) :: u8)) = hex_digit (of_nat (unat n))"
    by (rule bspec [rotated])
  then show ?thesis unfolding w .
qed

lemma ev_ram_commute: "ev (s\<lparr>ram := m\<rparr>) t = (ev s t)\<lparr>ram := m\<rparr>"
  by (simp add: ev_def)

lemma serial_chars_eq:
  "serial_chars sig n (of_nat m) (INTERNAL_SERIAL_START_ADDRESS + of_nat (m div 2)) p s =
     s\<lparr>ram := utf16 p (map (\<lambda>i. hex_digit (nibble sig i)) [m..<m + n]) (ram s)\<rparr>"
proof (induction n arbitrary: m p s)
  case (Suc n)
  let ?b = "sig (INTERNAL_SERIAL_START_ADDRESS + of_nat (m div 2))"
  have par: "((of_nat m :: u8) AND 1 = 0) \<longleftrightarrow> even m"
    by (simp add: and_one_eq mod_2_eq_odd even_of_nat)
  have nib: "(if even m then ?b else drop_bit 4 ?b) AND 0x0F = nibble sig m"
    by (simp add: nibble_def Let_def high_nibble)
  have "serial_chars sig (Suc n) (of_nat m) (INTERNAL_SERIAL_START_ADDRESS + of_nat (m div 2)) p s =
      serial_chars sig n (of_nat (Suc m)) (INTERNAL_SERIAL_START_ADDRESS + of_nat (Suc m div 2)) (p + 2)
        (write_ram16 p (hex_digit (nibble sig m)) s)"
    using nib hex_digit_char [OF nibble_small, of sig m]
    by (cases "even m"; cases "10 \<le> nibble sig m") (simp_all add: par Let_def algebra_simps)
  also have "\<dots> = s\<lparr>ram := utf16 p (map (\<lambda>i. hex_digit (nibble sig i)) (m # [Suc m..<Suc m + n])) (ram s)\<rparr>"
    unfolding Suc.IH by (simp add: write_ram16_def del: fun_upd_apply upt_Suc)
  also have "m # [Suc m..<Suc m + n] = [m..<m + Suc n]" by (simp add: upt_conv_Cons del: upt_Suc)
  finally show ?case .
qed simp

text \<open>
  C26. The serial number string is the signature row in hexadecimal: twenty UTF-16 characters, the digits of the
  ten bytes from the start address on, low nibble first. Nothing else in memory changes, and the interrupt
  mask ends as it was found.
\<close>

theorem USB_Device_GetSerialString_hex:
  "\<exists>i x. USB_Device_GetSerialString sig p s =
     (ev s [Rd SREG i, Rd SREG x, Wr SREG (ucast ((ucast x :: u8) AND NOT (bmask 7))), Wr SREG (ucast (ucast i :: u8))])
     \<lparr>ram := utf16 p (map (\<lambda>i. hex_digit (nibble sig i)) [0..<20]) (ram s)\<rparr>"
proof -
  have "serial_chars sig 20 0 INTERNAL_SERIAL_START_ADDRESS p s1 =
      s1\<lparr>ram := utf16 p (map (\<lambda>i. hex_digit (nibble sig i)) [0..<20]) (ram s1)\<rparr>" for s1
    using serial_chars_eq [of sig 20 0 p s1] by (simp del: upt_rec_numeral)
  then have "USB_Device_GetSerialString sig p s =
      (let (i, s) = rd8 SREG s; s = clear_bits SREG (bmask 7) s
       in wr8 SREG i (s\<lparr>ram := utf16 p (map (\<lambda>i. hex_digit (nibble sig i)) [0..<20]) (ram s)\<rparr>))"
    by (simp only: USB_Device_GetSerialString_def Let_def)
  then show ?thesis
    by (simp only: io_simps Let_def prod.case ev_simps ev_ram_commute append.simps) blast
qed

end
