(* ===== verification/USB_Controller.thy ===== *)
theory USB_Controller
  imports USB_Interrupts Pipe_AVR8 Device_Standard_Requests
begin

text \<open>
  The controller as a whole: the inline functions of \<^verbatim>\<open>AVR8/USBController_AVR8.h\<close>, \<^verbatim>\<open>AVR8/Device_AVR8.h\<close>,
  \<^verbatim>\<open>AVR8/Host_AVR8.h\<close> and \<^verbatim>\<open>AVR8/OTG_AVR8.h\<close>, and initialisation, shutdown and reset
  (\<^verbatim>\<open>AVR8/USBController_AVR8.c\<close>, \<^verbatim>\<open>AVR8/Device_AVR8.c\<close>). The clock prescaler is that of a 16 MHz crystal.
\<close>

section \<open>Register bits and constants\<close>

abbreviation (input) USBE :: u8 where "USBE \<equiv> bmask 7"
abbreviation (input) HOST :: u8 where "HOST \<equiv> bmask 6"
abbreviation (input) FRZCLK :: u8 where "FRZCLK \<equiv> bmask 5"
abbreviation (input) OTGPADE :: u8 where "OTGPADE \<equiv> bmask 4"
abbreviation (input) SPEED :: u8 where "SPEED \<equiv> bmask 3"
abbreviation (input) ID_pin :: u8 where "ID_pin \<equiv> bmask 1"
abbreviation (input) VBUS :: u8 where "VBUS \<equiv> bmask 0"
abbreviation (input) LSM :: u8 where "LSM \<equiv> bmask 2"
abbreviation (input) RMWKUP :: u8 where "RMWKUP \<equiv> bmask 1"
abbreviation (input) DETACH :: u8 where "DETACH \<equiv> bmask 0"
abbreviation (input) UIMOD :: u8 where "UIMOD \<equiv> bmask 7"
abbreviation (input) UIDE :: u8 where "UIDE \<equiv> bmask 6"
abbreviation (input) UVCONE :: u8 where "UVCONE \<equiv> bmask 4"
abbreviation (input) UVREGE :: u8 where "UVREGE \<equiv> bmask 0"
abbreviation (input) HNPREQ :: u8 where "HNPREQ \<equiv> bmask 5"
abbreviation (input) SRPREQ :: u8 where "SRPREQ \<equiv> bmask 4"
abbreviation (input) SRPSEL :: u8 where "SRPSEL \<equiv> bmask 3"
abbreviation (input) VBUSHWC :: u8 where "VBUSHWC \<equiv> bmask 2"
abbreviation (input) VBUSREQ :: u8 where "VBUSREQ \<equiv> bmask 1"
abbreviation (input) VBUSRQC :: u8 where "VBUSRQC \<equiv> bmask 0"
abbreviation (input) RESUME :: u8 where "RESUME \<equiv> bmask 2"
abbreviation (input) RESET :: u8 where "RESET \<equiv> bmask 1"
abbreviation (input) SOFEN :: u8 where "SOFEN \<equiv> bmask 0"
abbreviation (input) RXRSMI :: u8 where "RXRSMI \<equiv> bmask 4"
abbreviation (input) PLLE :: u8 where "PLLE \<equiv> bmask 1"
abbreviation (input) PLOCK :: u8 where "PLOCK \<equiv> bmask 0"
abbreviation (input) USB_PLL_PSC :: u8 where "USB_PLL_PSC \<equiv> bmask 4 OR bmask 2"

abbreviation (input) USB_DEVICE_OPT_LOWSPEED :: u8 where "USB_DEVICE_OPT_LOWSPEED \<equiv> bmask 0"
abbreviation (input) USB_OPT_REG_DISABLED :: u8 where "USB_OPT_REG_DISABLED \<equiv> bmask 1"
abbreviation (input) USB_OPT_MANUAL_PLL :: u8 where "USB_OPT_MANUAL_PLL \<equiv> bmask 2"
abbreviation (input) USB_OPT_REG_KEEP_ENABLED :: u8 where "USB_OPT_REG_KEEP_ENABLED \<equiv> bmask 3"
abbreviation (input) USB_MODE_None :: u8 where "USB_MODE_None \<equiv> 0"
abbreviation (input) USB_MODE_Device :: u8 where "USB_MODE_Device \<equiv> 1"
abbreviation (input) USB_MODE_Host :: u8 where "USB_MODE_Host \<equiv> 2"
abbreviation (input) USB_MODE_UID :: u8 where "USB_MODE_UID \<equiv> 3"

section \<open>Controller accessors\<close>

definition USB_VBUS_GetStatus :: "usb_st \<Rightarrow> bool \<times> usb_st" where
  "USB_VBUS_GetStatus s = test_bits USBSTA VBUS s"

definition USB_Detach :: "usb_st \<Rightarrow> usb_st" where "USB_Detach s = set_bits UDCON DETACH s"

definition USB_Attach :: "usb_st \<Rightarrow> usb_st" where "USB_Attach s = clear_bits UDCON DETACH s"

definition USB_PLL_On :: "usb_st \<Rightarrow> usb_st" where
  "USB_PLL_On s = wr8 PLLCSR (USB_PLL_PSC OR PLLE) (wr8 PLLCSR USB_PLL_PSC s)"

definition USB_PLL_Off :: "usb_st \<Rightarrow> usb_st" where "USB_PLL_Off s = wr8 PLLCSR 0 s"

definition USB_PLL_IsReady :: "usb_st \<Rightarrow> bool \<times> usb_st" where "USB_PLL_IsReady s = test_bits PLLCSR PLOCK s"

definition USB_REG_On :: "usb_st \<Rightarrow> usb_st" where "USB_REG_On s = set_bits UHWCON UVREGE s"

definition USB_REG_Off :: "usb_st \<Rightarrow> usb_st" where "USB_REG_Off s = clear_bits UHWCON UVREGE s"

definition USB_OTGPAD_On :: "usb_st \<Rightarrow> usb_st" where "USB_OTGPAD_On s = set_bits USBCON OTGPADE s"

definition USB_OTGPAD_Off :: "usb_st \<Rightarrow> usb_st" where "USB_OTGPAD_Off s = clear_bits USBCON OTGPADE s"

definition USB_CLK_Freeze :: "usb_st \<Rightarrow> usb_st" where "USB_CLK_Freeze s = set_bits USBCON FRZCLK s"

definition USB_CLK_Unfreeze :: "usb_st \<Rightarrow> usb_st" where "USB_CLK_Unfreeze s = clear_bits USBCON FRZCLK s"

definition USB_Controller_Enable :: "usb_st \<Rightarrow> usb_st" where "USB_Controller_Enable s = set_bits USBCON USBE s"

definition USB_Controller_Disable :: "usb_st \<Rightarrow> usb_st" where "USB_Controller_Disable s = clear_bits USBCON USBE s"

definition USB_Controller_Reset :: "usb_st \<Rightarrow> usb_st" where
  "USB_Controller_Reset s = set_bits USBCON USBE (clear_bits USBCON USBE s)"

definition USB_GetUSBModeFromUID :: "usb_st \<Rightarrow> u8 \<times> usb_st" where
  "USB_GetUSBModeFromUID s =
     (let (d, s) = test_bits USBSTA ID_pin s in (if d then USB_MODE_Device else USB_MODE_Host, s))"

section \<open>Device accessors\<close>

definition USB_Device_EnableSOFEvents :: "usb_st \<Rightarrow> usb_st" where
  "USB_Device_EnableSOFEvents s = USB_INT_Enable USB_INT_SOFI s"

definition USB_Device_DisableSOFEvents :: "usb_st \<Rightarrow> usb_st" where
  "USB_Device_DisableSOFEvents s = USB_INT_Disable USB_INT_SOFI s"

definition USB_Device_SetLowSpeed :: "usb_st \<Rightarrow> usb_st" where "USB_Device_SetLowSpeed s = set_bits UDCON LSM s"

definition USB_Device_SetFullSpeed :: "usb_st \<Rightarrow> usb_st" where "USB_Device_SetFullSpeed s = clear_bits UDCON LSM s"

section \<open>Host accessors\<close>

definition USB_Host_EnableSOFEvents :: "usb_st \<Rightarrow> usb_st" where
  "USB_Host_EnableSOFEvents s = USB_INT_Enable USB_INT_HSOFI s"

definition USB_Host_DisableSOFEvents :: "usb_st \<Rightarrow> usb_st" where
  "USB_Host_DisableSOFEvents s = USB_INT_Disable USB_INT_HSOFI s"

definition USB_Host_ResetBus :: "usb_st \<Rightarrow> usb_st" where "USB_Host_ResetBus s = set_bits UHCON RESET s"

definition USB_Host_IsBusResetComplete :: "usb_st \<Rightarrow> bool \<times> usb_st" where
  "USB_Host_IsBusResetComplete s = apfst Not (test_bits UHCON RESET s)"

definition USB_Host_ResumeBus :: "usb_st \<Rightarrow> usb_st" where "USB_Host_ResumeBus s = set_bits UHCON SOFEN s"

definition USB_Host_SuspendBus :: "usb_st \<Rightarrow> usb_st" where "USB_Host_SuspendBus s = clear_bits UHCON SOFEN s"

definition USB_Host_IsBusSuspended :: "usb_st \<Rightarrow> bool \<times> usb_st" where
  "USB_Host_IsBusSuspended s = apfst Not (test_bits UHCON SOFEN s)"

definition USB_Host_IsDeviceFullSpeed :: "usb_st \<Rightarrow> bool \<times> usb_st" where
  "USB_Host_IsDeviceFullSpeed s = test_bits USBSTA SPEED s"

definition USB_Host_IsRemoteWakeupSent :: "usb_st \<Rightarrow> bool \<times> usb_st" where
  "USB_Host_IsRemoteWakeupSent s = test_bits UHINT RXRSMI s"

definition USB_Host_ClearRemoteWakeupSent :: "usb_st \<Rightarrow> usb_st" where
  "USB_Host_ClearRemoteWakeupSent s = clear_bits UHINT RXRSMI s"

definition USB_Host_ResumeFromWakeupRequest :: "usb_st \<Rightarrow> usb_st" where
  "USB_Host_ResumeFromWakeupRequest s = set_bits UHCON RESUME s"

definition USB_Host_IsResumeFromWakeupRequestSent :: "usb_st \<Rightarrow> bool \<times> usb_st" where
  "USB_Host_IsResumeFromWakeupRequestSent s = apfst Not (test_bits UHCON RESUME s)"

definition USB_Host_HostMode_On :: "usb_st \<Rightarrow> usb_st" where "USB_Host_HostMode_On s = set_bits USBCON HOST s"

definition USB_Host_HostMode_Off :: "usb_st \<Rightarrow> usb_st" where "USB_Host_HostMode_Off s = clear_bits USBCON HOST s"

definition USB_Host_VBUS_Auto_Enable :: "usb_st \<Rightarrow> usb_st" where
  "USB_Host_VBUS_Auto_Enable s = set_bits UHWCON UVCONE (clear_bits OTGCON VBUSHWC s)"

definition USB_Host_VBUS_Manual_Enable :: "usb_st \<Rightarrow> usb_st" where
  "USB_Host_VBUS_Manual_Enable s = set_bits DDRE (bmask 7) (clear_bits UHWCON UVCONE (set_bits OTGCON VBUSHWC s))"

definition USB_Host_VBUS_Auto_On :: "usb_st \<Rightarrow> usb_st" where "USB_Host_VBUS_Auto_On s = set_bits OTGCON VBUSREQ s"

definition USB_Host_VBUS_Manual_On :: "usb_st \<Rightarrow> usb_st" where "USB_Host_VBUS_Manual_On s = set_bits PORTE (bmask 7) s"

definition USB_Host_VBUS_Auto_Off :: "usb_st \<Rightarrow> usb_st" where "USB_Host_VBUS_Auto_Off s = set_bits OTGCON VBUSRQC s"

definition USB_Host_VBUS_Manual_Off :: "usb_st \<Rightarrow> usb_st" where
  "USB_Host_VBUS_Manual_Off s = clear_bits PORTE (bmask 7) s"

definition USB_Host_SetDeviceAddress :: "u8 \<Rightarrow> usb_st \<Rightarrow> usb_st" where
  "USB_Host_SetDeviceAddress Address s = wr8 UHADDR (Address AND 0x7F) s"

section \<open>On-the-go accessors\<close>

definition USB_OTG_Device_RequestHNP :: "usb_st \<Rightarrow> usb_st" where "USB_OTG_Device_RequestHNP s = set_bits OTGCON HNPREQ s"

definition USB_OTG_Device_CancelHNPRequest :: "usb_st \<Rightarrow> usb_st" where
  "USB_OTG_Device_CancelHNPRequest s = clear_bits OTGCON HNPREQ s"

definition USB_OTG_Device_IsSendingHNP :: "usb_st \<Rightarrow> bool \<times> usb_st" where
  "USB_OTG_Device_IsSendingHNP s = test_bits OTGCON HNPREQ s"

definition USB_OTG_Device_InitiateSRP :: "u8 \<Rightarrow> usb_st \<Rightarrow> usb_st" where
  "USB_OTG_Device_InitiateSRP SRPTypeMask s =
     (let (v, s) = rd8 OTGCON s in wr8 OTGCON ((v AND NOT SRPSEL) OR (SRPTypeMask OR SRPREQ)) s)"

definition USB_OTG_Host_AcceptHNP :: "usb_st \<Rightarrow> usb_st" where "USB_OTG_Host_AcceptHNP s = set_bits OTGCON HNPREQ s"

definition USB_OTG_Host_RejectHNP :: "usb_st \<Rightarrow> usb_st" where "USB_OTG_Host_RejectHNP s = clear_bits OTGCON HNPREQ s"

definition USB_OTG_Host_IsHNPReceived :: "usb_st \<Rightarrow> bool \<times> usb_st" where
  "USB_OTG_Host_IsHNPReceived s = test_bits OTGCON HNPREQ s"

section \<open>Initialisation, shutdown and reset\<close>

partial_function (option) wait_PLL :: "usb_st \<Rightarrow> usb_st option" where
  "wait_PLL s = (let (r, s) = USB_PLL_IsReady s in if r then Some s else wait_PLL s)"

text \<open>\<open>if (!(USB_Options & USB_OPT_MANUAL_PLL)) { USB_PLL_On(); while (!(USB_PLL_IsReady())); }\<close>\<close>

definition auto_PLL_On :: "usb_st \<Rightarrow> usb_st option" where
  "auto_PLL_On s =
     (let (manual, s) = test_bits USB_Options USB_OPT_MANUAL_PLL s
      in if \<not> manual then wait_PLL (USB_PLL_On s) else Some s)"

definition auto_PLL_Off :: "usb_st \<Rightarrow> usb_st" where
  "auto_PLL_Off s =
     (let (manual, s) = test_bits USB_Options USB_OPT_MANUAL_PLL s in if \<not> manual then USB_PLL_Off s else s)"

definition USB_Init_Device :: "usb_app \<Rightarrow> usb_st \<Rightarrow> usb_st option" where
  "USB_Init_Device App s = do {
     let s = wr8 USB_DeviceState DEVICE_STATE_Unattached s;
     let s = s\<lparr>USB_Device_ConfigurationNumber := 0, USB_Device_RemoteWakeupEnabled := False,
               USB_Device_CurrentlySelfPowered := False\<rparr>;
     let (size, DeviceDescriptorPtr, DescriptorAddressSpace) = CALLBACK_USB_GetDescriptor App (push_bit 8 DTYPE_Device) 0;
     let s = (if size \<noteq> NO_DESCRIPTOR
              then s\<lparr>USB_Device_ControlEndpointSize :=
                     mem_byte DescriptorAddressSpace (DeviceDescriptorPtr + Endpoint0Size_offset) s\<rparr>
              else s);
     let (low, s) = test_bits USB_Options USB_DEVICE_OPT_LOWSPEED s;
     let s = (if low then USB_Device_SetLowSpeed s else USB_Device_SetFullSpeed s);
     let s = USB_INT_Enable USB_INT_VBUSTI s;
     (_, s) \<leftarrow> Endpoint_ConfigureEndpoint ENDPOINT_CONTROLEP EP_TYPE_CONTROL (ucast (USB_Device_ControlEndpointSize s)) 1 s;
     let s = USB_INT_Clear USB_INT_SUSPI s;
     let s = USB_INT_Enable USB_INT_SUSPI s;
     let s = USB_INT_Enable USB_INT_EORSTI s;
     Some (USB_Attach s) }"

definition USB_Init_Host :: "usb_st \<Rightarrow> usb_st" where
  "USB_Init_Host s =
     (let s = wr8 USB_HostState HOST_STATE_Unattached s;
          s = s\<lparr>USB_Host_ConfigurationNumber := 0, USB_Host_ControlPipeSize := PIPE_CONTROLPIPE_DEFAULT_SIZE\<rparr>;
          s = USB_Host_HostMode_On s;
          s = USB_Host_VBUS_Auto_Off s;
          s = USB_Host_VBUS_Manual_Enable s;
          s = USB_Host_VBUS_Manual_On s;
          s = USB_INT_Enable USB_INT_SRPI s;
          s = USB_INT_Enable USB_INT_BCERRI s
      in USB_Attach s)"

definition USB_ResetInterface :: "usb_app \<Rightarrow> usb_st \<Rightarrow> usb_st option" where
  "USB_ResetInterface App s = do {
     let (UIDModeSelectEnabled, s) = test_bits UHWCON UIDE s;
     let s = USB_INT_DisableAllInterrupts s;
     let s = USB_INT_ClearAllInterrupts s;
     let s = USB_Controller_Reset s;
     let s = (if UIDModeSelectEnabled then USB_INT_Enable USB_INT_IDTI s else s);
     let s = USB_CLK_Unfreeze s;
     let (mode, s) = rd8 USB_CurrentMode s;
     s \<leftarrow> (if mode = USB_MODE_Device
           then USB_Init_Device App (auto_PLL_Off (set_bits UHWCON UIMOD s))
           else let (mode, s) = rd8 USB_CurrentMode s
                in if mode = USB_MODE_Host
                   then do { s \<leftarrow> auto_PLL_On (clear_bits UHWCON UIMOD s); Some (USB_Init_Host s) }
                   else Some s);
     Some (USB_OTGPAD_On s) }"

definition USB_Init :: "usb_app \<Rightarrow> u8 \<Rightarrow> u8 \<Rightarrow> usb_st \<Rightarrow> usb_st option" where
  "USB_Init App Mode Options s =
     (let s = wr8 USB_Options Options s;
          s = USB_OTGPAD_Off s;
          (reg_disabled, s) = test_bits USB_Options USB_OPT_REG_DISABLED s;
          s = (if \<not> reg_disabled then USB_REG_On s else USB_REG_Off s);
          (_, s) = test_bits USB_Options USB_OPT_MANUAL_PLL s;
          s = (if Mode = USB_MODE_UID
               then let s = set_bits UHWCON UIDE s;
                        s = USB_INT_Enable USB_INT_IDTI s;
                        (m, s) = USB_GetUSBModeFromUID s
                    in wr8 USB_CurrentMode m s
               else wr8 USB_CurrentMode Mode (clear_bits UHWCON UIDE s));
          s = wr8 USB_IsInitialized 1 s
      in USB_ResetInterface App s)"

definition USB_Disable :: "usb_st \<Rightarrow> usb_st" where
  "USB_Disable s =
     (let s = USB_INT_DisableAllInterrupts s;
          s = USB_INT_ClearAllInterrupts s;
          s = USB_Detach s;
          s = USB_Controller_Disable s;
          s = auto_PLL_Off s;
          (keep, s) = test_bits USB_Options USB_OPT_REG_KEEP_ENABLED s;
          s = (if \<not> keep then USB_REG_Off s else s);
          s = USB_OTGPAD_Off s;
          s = wr8 USB_CurrentMode USB_MODE_None s
      in wr8 USB_IsInitialized 0 s)"

partial_function (option) wait_RMWKUP :: "usb_st \<Rightarrow> usb_st option" where
  "wait_RMWKUP s = (let (r, s) = test_bits UDCON RMWKUP s in if r then wait_RMWKUP s else Some s)"

definition USB_Device_SendRemoteWakeup :: "usb_st \<Rightarrow> usb_st option" where
  "USB_Device_SendRemoteWakeup s = do {
     s \<leftarrow> auto_PLL_On s;
     let s = USB_CLK_Unfreeze s;
     wait_RMWKUP (set_bits UDCON RMWKUP s) }"

end
