(* ===== verification/Byte_Transfers.thy ===== *)
theory Byte_Transfers
  imports Endpoint_Control_Streams Pipe_AVR8
begin

text \<open>
  What the transfers of the host and the data streams share: the FIFO of an endpoint or pipe is a location, a transfer
  moves one byte between it and a memory, and everything else a run does to the hardware leaves the FIFO alone.
\<close>

section \<open>Single bytes\<close>

text \<open>\<open>TEMPLATE_TRANSFER_BYTE\<close> of the pipe streams.\<close>

definition pipe_write_ram :: transfer where "pipe_write_ram BufferPtr s = Pipe_Write_8 (ram s BufferPtr) s"
definition pipe_write_flash :: transfer where "pipe_write_flash BufferPtr s = Pipe_Write_8 (flash s BufferPtr) s"
definition pipe_write_eeprom :: transfer where "pipe_write_eeprom BufferPtr s = Pipe_Write_8 (eeprom s BufferPtr) s"

definition pipe_read_ram :: transfer where
  "pipe_read_ram BufferPtr s = (let (b, s) = Pipe_Read_8 s in s\<lparr>ram := (ram s)(BufferPtr := b)\<rparr>)"

definition pipe_read_eeprom :: transfer where
  "pipe_read_eeprom BufferPtr s = (let (b, s) = Pipe_Read_8 s in s\<lparr>eeprom := (eeprom s)(BufferPtr := b)\<rparr>)"

section \<open>Moving bytes\<close>

text \<open>Events that leave the FIFO alone.\<close>

definition quiet :: "vloc \<Rightarrow> io list \<Rightarrow> bool" where
  "quiet fifo t \<longleftrightarrow> reads fifo t = [] \<and> writes fifo t = []"

lemma quiet_simps [simp]:
  "quiet fifo []" "quiet fifo (t @ u) \<longleftrightarrow> quiet fifo t \<and> quiet fifo u"
  "quiet fifo (Rd l v # t) \<longleftrightarrow> l \<noteq> fifo \<and> quiet fifo t" "quiet fifo (Wr l v # t) \<longleftrightarrow> l \<noteq> fifo \<and> quiet fifo t"
  by (auto simp: quiet_def)

lemma quiet_reads: "\<forall>l x. Wr l x \<notin> set t \<Longrightarrow> \<forall>x. Rd fifo x \<notin> set t \<Longrightarrow> quiet fifo t"
  by (auto simp: quiet_def reads_def writes_def split: io.splits)

text \<open>\<open>moved fifo mv xfer k p s s'\<close>: \<open>k\<close> bytes were transferred, from \<open>p\<close> on, between events that leave the FIFO alone.\<close>

inductive moved :: "vloc \<Rightarrow> (u16 \<Rightarrow> u16) \<Rightarrow> transfer \<Rightarrow> nat \<Rightarrow> u16 \<Rightarrow> usb_st \<Rightarrow> usb_st \<Rightarrow> bool"
  for fifo mv xfer where
  none: "moved fifo mv xfer 0 p s s"
| other: "quiet fifo t \<Longrightarrow> moved fifo mv xfer k p (ev s t) s' \<Longrightarrow> moved fifo mv xfer k p s s'"
| byte: "moved fifo mv xfer k (mv p) (xfer p s) s' \<Longrightarrow> moved fifo mv xfer (Suc k) p s s'"

lemma moved_quiet: "quiet fifo t \<Longrightarrow> moved fifo mv xfer 0 p s (ev s t)"
  by (blast intro: moved.intros)

lemma moved_trans:
  "moved fifo mv xfer k p s s1 \<Longrightarrow> moved fifo mv xfer j ((mv ^^ k) p) s1 s2 \<Longrightarrow> moved fifo mv xfer (k + j) p s s2"
  by (induction rule: moved.induct) (auto intro: moved.intros simp: funpow_swap1)

text \<open>Moving bytes out of a memory writes them to the FIFO; moving bytes into one stores what the FIFO gives.\<close>

lemma moved_writes:
  assumes "moved fifo mv xfer k p s s'"
    and "\<And>p s. xfer p s = ev s [Wr fifo (ucast (peek s p))]" "\<And>s t. peek (ev s t) = peek s"
  shows "\<exists>t. s' = ev s t \<and> writes fifo t = message (peek s) mv p k \<and> reads fifo t = []"
  using assms(1)
proof (induction rule: moved.induct)
  case (other t k p s s')
  then show ?case by (force simp: assms(3) quiet_def)
next
  case (byte k p s s')
  then show ?case by (force simp: assms(2,3) message_Suc)
qed (auto intro: exI [of _ "[]"])

text \<open>\<open>upd\<close> changes one memory and nothing else.\<close>

definition memory_update :: "(((u16 \<Rightarrow> u8) \<Rightarrow> u16 \<Rightarrow> u8) \<Rightarrow> usb_st \<Rightarrow> usb_st) \<Rightarrow> bool" where
  "memory_update upd \<longleftrightarrow> (\<forall>f s t. upd f (ev s t) = ev (upd f s) t) \<and> (\<forall>f g s. upd f (upd g s) = upd (\<lambda>m. f (g m)) s) \<and>
     (\<forall>s. upd (\<lambda>m. m) s = s)"

lemma moved_stores:
  assumes "moved fifo mv xfer k p s s'"
    and xf: "\<forall>p s. xfer p s = (let (b, s) = rd8 fifo s in upd (\<lambda>m. m(p := b)) s)" and "memory_update upd"
  shows "\<exists>t. s' = upd (store mv p (reads fifo t)) (ev s t) \<and> length (reads fifo t) = k \<and> writes fifo t = []"
proof -
  have upd: "\<And>f s t. upd f (ev s t) = ev (upd f s) t" "\<And>f g s. upd f (upd g s) = upd (\<lambda>m. f (g m)) s" "\<And>s. upd (\<lambda>m. m) s = s"
    using assms(3) by (simp_all add: memory_update_def)
  show ?thesis
    using assms(1)
  proof (induction rule: moved.induct)
    case (none p s)
    then show ?case by (intro exI [of _ "[]"]) (simp add: store_funs upd)
  next
    case (other u k p s s')
    then obtain t where "s' = upd (store mv p (reads fifo t)) (ev (ev s u) t)" "length (reads fifo t) = k" "writes fifo t = []" by blast
    with other(1) show ?case by (intro exI [of _ "u @ t"]) (simp add: quiet_def)
  next
    case (byte k p s s')
    let ?w = "hw s (trace s) fifo"
    obtain t where t: "s' = upd (store mv (mv p) (reads fifo t)) (ev (xfer p s) t)" "length (reads fifo t) = k" "writes fifo t = []"
      using byte.IH by blast
    have "store mv p (?w # reads fifo t) = (\<lambda>m. store mv (mv p) (reads fifo t) (m(p := ucast ?w)))" by (intro ext) simp
    with t show ?case
      by (intro exI [of _ "Rd fifo ?w # t"]) (simp add: xf io_simps upd(1) [symmetric] upd(2))
  qed
qed

lemma moved_after: "moved fifo mv xfer k p s s' \<Longrightarrow> quiet fifo t \<Longrightarrow> moved fifo mv xfer k p s (ev s' t)"
  using moved_trans [of fifo mv xfer k p s s' 0, OF _ moved_quiet] by simp

end
