(* ===== verification/Host_Standard_Requests.thy ===== *)
theory Host_Standard_Requests
  imports USB_Controller Byte_Transfers
begin

text \<open>
  Control requests sent by the host (\<^verbatim>\<open>Drivers/USB/Core/HostStandardReq.c\<close> and \<^verbatim>\<open>.h\<close>) with the bounded waits of
  \<^verbatim>\<open>AVR8/Host_AVR8.c\<close>. A null buffer is \<open>None\<close>.
\<close>

abbreviation (input) HOST_WAITERROR_Successful :: u8 where "HOST_WAITERROR_Successful \<equiv> 0"
abbreviation (input) HOST_WAITERROR_DeviceDisconnect :: u8 where "HOST_WAITERROR_DeviceDisconnect \<equiv> 1"
abbreviation (input) HOST_WAITERROR_PipeError :: u8 where "HOST_WAITERROR_PipeError \<equiv> 2"
abbreviation (input) HOST_WAITERROR_SetupStalled :: u8 where "HOST_WAITERROR_SetupStalled \<equiv> 3"
abbreviation (input) HOST_SENDCONTROL_Successful :: u8 where "HOST_SENDCONTROL_Successful \<equiv> 0"
abbreviation (input) HOST_SENDCONTROL_SoftwareTimeOut :: u8 where "HOST_SENDCONTROL_SoftwareTimeOut \<equiv> 4"
abbreviation (input) USB_HOST_TIMEOUT_MS :: u16 where "USB_HOST_TIMEOUT_MS \<equiv> 1000"
abbreviation (input) HOST_STATE_Addressed :: u8 where "HOST_STATE_Addressed \<equiv> 10"
abbreviation (input) HOST_STATE_Configured :: u8 where "HOST_STATE_Configured \<equiv> 11"
abbreviation (input) REQ_GetInterface :: u8 where "REQ_GetInterface \<equiv> 10"
abbreviation (input) REQ_SetInterface :: u8 where "REQ_SetInterface \<equiv> 11"
abbreviation (input) REQDIR_HOSTTODEVICE :: u8 where "REQDIR_HOSTTODEVICE \<equiv> 0"
abbreviation (input) CONTROL_REQTYPE_DIRECTION :: u8 where "CONTROL_REQTYPE_DIRECTION \<equiv> 0x80"

section \<open>Waiting\<close>

partial_function (option) waitms_loop :: "u8 \<Rightarrow> usb_st \<Rightarrow> (u8 \<times> usb_st) option" where
  "waitms_loop MS s =
     (if MS \<noteq> 0 then
        let (sof, s) = USB_INT_HasOccurred USB_INT_HSOFI s;
            (MS, s) = (if sof then (MS - 1, USB_INT_Clear USB_INT_HSOFI s) else (MS, s));
            (st, s) = rd8 USB_HostState s
        in if st = HOST_STATE_Unattached then Some (HOST_WAITERROR_DeviceDisconnect, s)
           else let (mode, s) = rd8 USB_CurrentMode s
                in if mode \<noteq> USB_MODE_Host then Some (HOST_WAITERROR_DeviceDisconnect, s)
                   else let (err, s) = Pipe_IsError s
                        in if err then Some (HOST_WAITERROR_PipeError, Pipe_ClearError s)
                           else let (stalled, s) = Pipe_IsStalled s
                                in if stalled then Some (HOST_WAITERROR_SetupStalled, Pipe_ClearStall s)
                                   else waitms_loop MS s
      else Some (HOST_WAITERROR_Successful, s))"

definition USB_Host_WaitMS :: "u8 \<Rightarrow> usb_st \<Rightarrow> (u8 \<times> usb_st) option" where
  "USB_Host_WaitMS MS s = do {
     let (BusSuspended, s) = USB_Host_IsBusSuspended s;
     let (HSOFIEnabled, s) = USB_INT_IsEnabled USB_INT_HSOFI s;
     let s = USB_INT_Disable USB_INT_HSOFI s;
     let s = USB_INT_Clear USB_INT_HSOFI s;
     let s = USB_Host_ResumeBus s;
     (ErrorCode, s) \<leftarrow> waitms_loop MS s;
     let s = (if BusSuspended then USB_Host_SuspendBus s else s);
     let s = (if HSOFIEnabled then USB_INT_Enable USB_INT_HSOFI s else s);
     Some (ErrorCode, s) }"

datatype USB_WaitForTypes_t = USB_HOST_WAITFOR_SetupSent | USB_HOST_WAITFOR_InReceived | USB_HOST_WAITFOR_OutReady

definition ios_ready :: "USB_WaitForTypes_t \<Rightarrow> usb_st \<Rightarrow> bool \<times> usb_st" where
  "ios_ready WaitType s = (case WaitType of
       USB_HOST_WAITFOR_SetupSent \<Rightarrow> Pipe_IsSETUPSent s
     | USB_HOST_WAITFOR_InReceived \<Rightarrow> Pipe_IsINReceived s
     | USB_HOST_WAITFOR_OutReady \<Rightarrow> Pipe_IsOUTReady s)"

partial_function (option) ios_loop :: "USB_WaitForTypes_t \<Rightarrow> u16 \<Rightarrow> usb_st \<Rightarrow> (u8 \<times> usb_st) option" where
  "ios_loop WaitType TimeoutCounter s =
     (let (r, s) = ios_ready WaitType s
      in if r then Some (HOST_SENDCONTROL_Successful, s)
         else do {
           (ErrorCode, s) \<leftarrow> USB_Host_WaitMS 1 s;
           if ErrorCode \<noteq> HOST_WAITERROR_Successful then Some (ErrorCode, s)
           else if TimeoutCounter = 0 then Some (HOST_SENDCONTROL_SoftwareTimeOut, s)
           else ios_loop WaitType (TimeoutCounter - 1) s })"

definition USB_Host_WaitForIOS :: "USB_WaitForTypes_t \<Rightarrow> usb_st \<Rightarrow> (u8 \<times> usb_st) option" where
  "USB_Host_WaitForIOS WaitType s = ios_loop WaitType USB_HOST_TIMEOUT_MS s"

section \<open>A control transfer\<close>

text \<open>\<open>if ((ReturnStatus = m) != HOST_SENDCONTROL_Successful) return ReturnStatus;\<close>\<close>

definition on_success :: "(u8 \<times> usb_st) option \<Rightarrow> (usb_st \<Rightarrow> (u8 \<times> usb_st) option) \<Rightarrow> (u8 \<times> usb_st) option" where
  "on_success m f = do { (ReturnStatus, s) \<leftarrow> m; if ReturnStatus \<noteq> HOST_SENDCONTROL_Successful then Some (ReturnStatus, s) else f s }"

text \<open>The eight bytes of the request structure in memory.\<close>

definition request_bytes :: "USB_Request_Header_t \<Rightarrow> u8 list" where
  "request_bytes r = [bmRequestType r, bRequest r, ucast (wValue r), ucast (drop_bit 8 (wValue r)),
     ucast (wIndex r), ucast (drop_bit 8 (wIndex r)), ucast (wLength r), ucast (drop_bit 8 (wLength r))]"

function host_in_packet :: "u16 \<Rightarrow> u16 \<Rightarrow> usb_st \<Rightarrow> u16 \<times> u16 \<times> usb_st" where
  "host_in_packet DataStream DataLen s =
     (let (n, s) = Pipe_BytesInPipe s
      in if DataLen = 0 then (DataStream, DataLen, s)
         else if n = 0 then (DataStream, DataLen, s)
         else let (b, s) = Pipe_Read_8 s
              in host_in_packet (DataStream + 1) (DataLen - 1) (s\<lparr>ram := (ram s)(DataStream := b)\<rparr>))"
  by pat_completeness auto
termination
  by (relation "measure (\<lambda>(_, DataLen, _). unat DataLen)") (simp_all add: unat_pred_word unat_gt_0)

declare host_in_packet.simps [simp del]

partial_function (option) host_in_data :: "u16 \<Rightarrow> u16 \<Rightarrow> usb_st \<Rightarrow> (u8 \<times> usb_st) option" where
  "host_in_data DataStream DataLen s =
     (if DataLen \<noteq> 0 then do {
        (ReturnStatus, s) \<leftarrow> USB_Host_WaitForIOS USB_HOST_WAITFOR_InReceived (Pipe_Unfreeze s);
        if ReturnStatus \<noteq> HOST_SENDCONTROL_Successful then Some (ReturnStatus, s)
        else let (n, s) = Pipe_BytesInPipe s;
                 DataLen = (if n = 0 then 0 else DataLen);
                 (DataStream, DataLen, s) = host_in_packet DataStream DataLen s;
                 s = Pipe_ClearIN (Pipe_Freeze s)
             in host_in_data DataStream DataLen s }
      else Some (HOST_SENDCONTROL_Successful, s))"

function host_out_packet :: "u16 \<Rightarrow> u16 \<Rightarrow> usb_st \<Rightarrow> u16 \<times> u16 \<times> usb_st" where
  "host_out_packet DataStream DataLen s =
     (if DataLen = 0 then (DataStream, DataLen, s)
      else let (n, s) = Pipe_BytesInPipe s
           in if n < ucast (USB_Host_ControlPipeSize s)
              then host_out_packet (DataStream + 1) (DataLen - 1) (Pipe_Write_8 (ram s DataStream) s)
              else (DataStream, DataLen, s))"
  by pat_completeness auto
termination
  by (relation "measure (\<lambda>(_, DataLen, _). unat DataLen)") (simp_all add: unat_pred_word unat_gt_0)

declare host_out_packet.simps [simp del]

partial_function (option) host_out_data :: "u16 \<Rightarrow> u16 \<Rightarrow> usb_st \<Rightarrow> (u8 \<times> usb_st) option" where
  "host_out_data DataStream DataLen s =
     (if DataLen \<noteq> 0 then do {
        (ReturnStatus, s) \<leftarrow> USB_Host_WaitForIOS USB_HOST_WAITFOR_OutReady s;
        if ReturnStatus \<noteq> HOST_SENDCONTROL_Successful then Some (ReturnStatus, s)
        else let (DataStream, DataLen, s) = host_out_packet DataStream DataLen s
             in host_out_data DataStream DataLen (Pipe_ClearOUT s) }
      else Some (HOST_SENDCONTROL_Successful, s))"

definition send_setup :: "usb_st \<Rightarrow> (u8 \<times> usb_st) option" where
  "send_setup s =
     on_success (USB_Host_WaitMS 1 (USB_Host_ResumeBus s)) (\<lambda>s.
       let s = Pipe_SetPipeToken PIPE_TOKEN_SETUP s;
           s = Pipe_ClearError s;
           s = Pipe_Unfreeze s;
           s = fold Pipe_Write_8 (request_bytes (USB_ControlRequest s)) s;
           s = Pipe_ClearSETUP s
       in on_success (USB_Host_WaitForIOS USB_HOST_WAITFOR_SetupSent s) (\<lambda>s. USB_Host_WaitMS 1 (Pipe_Freeze s)))"

definition control_in :: "u16 option \<Rightarrow> u16 \<Rightarrow> usb_st \<Rightarrow> (u8 \<times> usb_st) option" where
  "control_in BufferPtr DataLen s =
     (let s = Pipe_SetPipeToken PIPE_TOKEN_IN s
      in on_success (case BufferPtr of None \<Rightarrow> Some (HOST_SENDCONTROL_Successful, s) | Some p \<Rightarrow> host_in_data p DataLen s) (\<lambda>s.
           let s = Pipe_Unfreeze (Pipe_SetPipeToken PIPE_TOKEN_OUT s)
           in on_success (USB_Host_WaitForIOS USB_HOST_WAITFOR_OutReady s) (\<lambda>s.
                USB_Host_WaitForIOS USB_HOST_WAITFOR_OutReady (Pipe_ClearOUT s))))"

definition control_out_data :: "u16 \<Rightarrow> u16 \<Rightarrow> usb_st \<Rightarrow> (u8 \<times> usb_st) option" where
  "control_out_data DataStream DataLen s =
     (let s = Pipe_Unfreeze (Pipe_SetPipeToken PIPE_TOKEN_OUT s)
      in on_success (host_out_data DataStream DataLen s) (\<lambda>s.
           on_success (USB_Host_WaitForIOS USB_HOST_WAITFOR_OutReady s) (\<lambda>s.
             Some (HOST_SENDCONTROL_Successful, Pipe_Freeze s))))"

definition control_out :: "u16 option \<Rightarrow> u16 \<Rightarrow> usb_st \<Rightarrow> (u8 \<times> usb_st) option" where
  "control_out BufferPtr DataLen s =
     on_success (case BufferPtr of None \<Rightarrow> Some (HOST_SENDCONTROL_Successful, s) | Some p \<Rightarrow> control_out_data p DataLen s) (\<lambda>s.
       let s = Pipe_Unfreeze (Pipe_SetPipeToken PIPE_TOKEN_IN s)
       in on_success (USB_Host_WaitForIOS USB_HOST_WAITFOR_InReceived s) (\<lambda>s.
            Some (HOST_SENDCONTROL_Successful, Pipe_ClearIN s)))"

definition USB_Host_SendControlRequest_PRV :: "u16 option \<Rightarrow> usb_st \<Rightarrow> (u8 \<times> usb_st) option" where
  "USB_Host_SendControlRequest_PRV BufferPtr s =
     (let DataLen = wLength (USB_ControlRequest s)
      in on_success (send_setup s) (\<lambda>s.
           if bmRequestType (USB_ControlRequest s) AND CONTROL_REQTYPE_DIRECTION = REQDIR_DEVICETOHOST
           then control_in BufferPtr DataLen s else control_out BufferPtr DataLen s))"

definition USB_Host_SendControlRequest :: "u16 option \<Rightarrow> usb_st \<Rightarrow> (u8 \<times> usb_st) option" where
  "USB_Host_SendControlRequest BufferPtr s = do {
     let (BusSuspended, s) = USB_Host_IsBusSuspended s;
     (ReturnStatus, s) \<leftarrow> USB_Host_SendControlRequest_PRV BufferPtr s;
     let s = Pipe_Freeze s;
     let s = (if BusSuspended then USB_Host_SuspendBus s else s);
     Some (ReturnStatus, Pipe_ResetPipe PIPE_CONTROLPIPE s) }"

section \<open>Standard requests\<close>

definition host_request :: "u8 \<Rightarrow> u8 \<Rightarrow> u16 \<Rightarrow> u16 \<Rightarrow> u16 \<Rightarrow> usb_st \<Rightarrow> usb_st" where
  "host_request rt req v i n s =
     s\<lparr>USB_ControlRequest := \<lparr>bmRequestType = rt, bRequest = req, wValue = v, wIndex = i, wLength = n\<rparr>\<rparr>"

definition USB_Host_SetDeviceConfiguration :: "u8 \<Rightarrow> usb_st \<Rightarrow> (u8 \<times> usb_st) option" where
  "USB_Host_SetDeviceConfiguration ConfigNumber s = do {
     let s = host_request (REQDIR_HOSTTODEVICE OR REQREC_DEVICE) REQ_SetConfiguration (ucast ConfigNumber) 0 0 s;
     let s = Pipe_SelectPipe PIPE_CONTROLPIPE s;
     (ErrorCode, s) \<leftarrow> USB_Host_SendControlRequest None s;
     Some (if ErrorCode = HOST_SENDCONTROL_Successful
           then (ErrorCode, wr8 USB_HostState (if ConfigNumber \<noteq> 0 then HOST_STATE_Configured else HOST_STATE_Addressed)
                   (s\<lparr>USB_Host_ConfigurationNumber := ConfigNumber\<rparr>))
           else (ErrorCode, s)) }"

definition USB_Host_GetDeviceConfiguration :: "u16 \<Rightarrow> usb_st \<Rightarrow> (u8 \<times> usb_st) option" where
  "USB_Host_GetDeviceConfiguration ConfigNumber s =
     USB_Host_SendControlRequest (Some ConfigNumber) (Pipe_SelectPipe PIPE_CONTROLPIPE
       (host_request (REQDIR_DEVICETOHOST OR REQREC_DEVICE) REQ_GetConfiguration 0 0 1 s))"

definition USB_Host_GetDescriptor :: "u8 \<Rightarrow> u8 \<Rightarrow> u16 \<Rightarrow> u8 \<Rightarrow> usb_st \<Rightarrow> (u8 \<times> usb_st) option" where
  "USB_Host_GetDescriptor Type Index Buffer BufferLength s =
     USB_Host_SendControlRequest (Some Buffer) (Pipe_SelectPipe PIPE_CONTROLPIPE
       (host_request (REQDIR_DEVICETOHOST OR REQREC_DEVICE) REQ_GetDescriptor
         (push_bit 8 (ucast Type) OR ucast Index) 0 (ucast BufferLength) s))"

definition USB_Host_GetDeviceStatus :: "u16 \<Rightarrow> usb_st \<Rightarrow> (u8 \<times> usb_st) option" where
  "USB_Host_GetDeviceStatus FeatureStatus s =
     USB_Host_SendControlRequest (Some FeatureStatus) (Pipe_SelectPipe PIPE_CONTROLPIPE
       (host_request (REQDIR_DEVICETOHOST OR REQREC_DEVICE) REQ_GetStatus 0 0 0 s))"

definition USB_Host_ClearEndpointStall :: "u8 \<Rightarrow> usb_st \<Rightarrow> (u8 \<times> usb_st) option" where
  "USB_Host_ClearEndpointStall EndpointAddress s =
     USB_Host_SendControlRequest None (Pipe_SelectPipe PIPE_CONTROLPIPE
       (host_request (REQDIR_HOSTTODEVICE OR REQREC_ENDPOINT) REQ_ClearFeature (ucast FEATURE_SEL_EndpointHalt)
         (ucast EndpointAddress) 0 s))"

definition USB_Host_SetInterfaceAltSetting :: "u8 \<Rightarrow> u8 \<Rightarrow> usb_st \<Rightarrow> (u8 \<times> usb_st) option" where
  "USB_Host_SetInterfaceAltSetting InterfaceIndex AltSetting s =
     USB_Host_SendControlRequest None (Pipe_SelectPipe PIPE_CONTROLPIPE
       (host_request (REQDIR_HOSTTODEVICE OR REQREC_INTERFACE) REQ_SetInterface (ucast AltSetting) (ucast InterfaceIndex) 0 s))"

definition USB_Host_GetInterfaceAltSetting :: "u8 \<Rightarrow> u16 \<Rightarrow> usb_st \<Rightarrow> (u8 \<times> usb_st) option" where
  "USB_Host_GetInterfaceAltSetting InterfaceIndex AltSetting s =
     USB_Host_SendControlRequest (Some AltSetting) (Pipe_SelectPipe PIPE_CONTROLPIPE
       (host_request (REQDIR_DEVICETOHOST OR REQREC_INTERFACE) REQ_GetInterface 0 (ucast InterfaceIndex) 1 s))"

definition USB_Host_GetDeviceDescriptor :: "u16 \<Rightarrow> usb_st \<Rightarrow> (u8 \<times> usb_st) option" where
  "USB_Host_GetDeviceDescriptor DeviceDescriptorPtr s = USB_Host_GetDescriptor 1 0 DeviceDescriptorPtr 18 s"

definition USB_Host_GetDeviceStringDescriptor :: "u8 \<Rightarrow> u16 \<Rightarrow> u8 \<Rightarrow> usb_st \<Rightarrow> (u8 \<times> usb_st) option" where
  "USB_Host_GetDeviceStringDescriptor Index Buffer BufferLength s = USB_Host_GetDescriptor 3 Index Buffer BufferLength s"

declare waitms_loop.simps [code] ios_loop.simps [code] host_in_data.simps [code] host_out_data.simps [code]

section \<open>The waits leave the FIFO alone\<close>

definition idle :: "usb_st \<Rightarrow> u8 \<times> usb_st \<Rightarrow> bool" where
  "idle s = (\<lambda>(code, s'). \<exists>t. s' = ev s t \<and> quiet UPDATX t)"

lemma idle_leaf [simp]: "idle s (code, ev s t) \<longleftrightarrow> quiet UPDATX t"
  by (simp add: idle_def)

lemma idle_same [simp]: "idle s (code, s)"
  using idle_leaf [of s code "[]"] by simp

lemma idle_step: "idle (ev s t) r \<Longrightarrow> quiet UPDATX t \<Longrightarrow> idle s r"
  by (auto simp: idle_def)

lemmas host_wait_defs = USB_INT_HasOccurred_def USB_INT_Clear_def USB_INT_IsEnabled_def USB_INT_Disable_def USB_INT_Enable_def
  USB_Interrupts_t.case Pipe_IsError_def Pipe_ClearError_def Pipe_IsStalled_def Pipe_ClearStall_def

lemma waitms_loop_idle: "always (idle s) (waitms_loop MS s)"
proof -
  have "idle s r" if ret: "waitms_loop MS s = Some r" for r
  proof (rule waitms_loop.raw_induct [where P = "\<lambda>_. idle", OF _ ret])
    fix F :: "u8 \<Rightarrow> usb_st \<Rightarrow> (u8 \<times> usb_st) option" and MS s r
    assume "\<And>MS s r. F MS s = Some r \<Longrightarrow> idle s r"
    then have IH: "always (idle s) (F MS s)" for MS s by (simp add: always_def)
    have again: "always (idle s) (F MS (ev s t))" if "quiet UPDATX t" for MS t
      by (rule always_mono [OF IH], erule idle_step) (rule that)
    let ?body = "if MS \<noteq> 0 then
        let (sof, s) = USB_INT_HasOccurred USB_INT_HSOFI s;
            (MS, s) = (if sof then (MS - 1, USB_INT_Clear USB_INT_HSOFI s) else (MS, s));
            (st, s) = rd8 USB_HostState s
        in if st = HOST_STATE_Unattached then Some (HOST_WAITERROR_DeviceDisconnect, s)
           else let (mode, s) = rd8 USB_CurrentMode s
                in if mode \<noteq> USB_MODE_Host then Some (HOST_WAITERROR_DeviceDisconnect, s)
                   else let (err, s) = Pipe_IsError s
                        in if err then Some (HOST_WAITERROR_PipeError, Pipe_ClearError s)
                           else let (stalled, s) = Pipe_IsStalled s
                                in if stalled then Some (HOST_WAITERROR_SetupStalled, Pipe_ClearStall s)
                                   else F MS s
      else Some (HOST_WAITERROR_Successful, s)"
    have "always (idle s) ?body"
      unfolding host_wait_defs
      by (intro io_vcg) (simp_all add: io_simps again)
    then show "idle s r" if "?body = Some r" using that by (rule alwaysD)
  qed
  then show ?thesis by (simp add: always_def)
qed

lemma USB_Host_WaitMS_idle: "always (idle s) (USB_Host_WaitMS MS s)"
  unfolding USB_Host_WaitMS_def USB_Host_IsBusSuspended_def USB_INT_IsEnabled_def USB_INT_Disable_def USB_INT_Clear_def
    USB_Interrupts_t.case USB_Host_ResumeBus_def
  by (simp only: io_simps Let_def prod.case apfst_conv ev_simps append.simps, rule always_bind [OF waitms_loop_idle])
     (auto simp: idle_def io_simps USB_Host_SuspendBus_def USB_INT_Enable_def)

lemma ios_loop_idle: "always (idle s) (ios_loop w T s)"
proof -
  have "idle s r" if ret: "ios_loop w T s = Some r" for r
  proof (rule ios_loop.raw_induct [where P = "\<lambda>_ _. idle", OF _ ret])
    fix F :: "USB_WaitForTypes_t \<Rightarrow> u16 \<Rightarrow> usb_st \<Rightarrow> (u8 \<times> usb_st) option" and w T s r
    assume "\<And>w T s r. F w T s = Some r \<Longrightarrow> idle s r"
    then have IH: "always (idle s) (F w T s)" for w T s by (simp add: always_def)
    have again: "always (idle s) (F w T (ev s t))" if "quiet UPDATX t" for w T t
      by (rule always_mono [OF IH], erule idle_step) (rule that)
    let ?wait = "\<lambda>s. USB_Host_WaitMS 1 s \<bind> (\<lambda>(ErrorCode, s). if ErrorCode \<noteq> HOST_WAITERROR_Successful then Some (ErrorCode, s)
        else if T = 0 then Some (HOST_SENDCONTROL_SoftwareTimeOut, s) else F w (T - 1) s)"
    have wait: "always (idle s) (?wait (ev s u))" if "quiet UPDATX u" for u
      by (rule always_bind [OF USB_Host_WaitMS_idle]) (use that again in \<open>auto simp: idle_def\<close>)
    let ?body = "let (r, s) = ios_ready w s in if r then Some (HOST_SENDCONTROL_Successful, s) else ?wait s"
    have "always (idle s) ?body"
      by (cases w) (simp_all add: ios_ready_def Pipe_IsSETUPSent_def Pipe_IsINReceived_def Pipe_IsOUTReady_def io_simps wait)
    then show "idle s r" if "?body = Some r" using that by (rule alwaysD)
  qed
  then show ?thesis by (simp add: always_def)
qed

lemma USB_Host_WaitForIOS_idle: "always (idle s) (USB_Host_WaitForIOS w s)"
  unfolding USB_Host_WaitForIOS_def by (rule ios_loop_idle)

lemma on_success_always:
  "always (\<lambda>(code, s'). if code = 0 then P s' else Q (code, s')) m \<Longrightarrow> (\<And>s. P s \<Longrightarrow> always Q (f s)) \<Longrightarrow> always Q (on_success m f)"
  unfolding on_success_def by (erule always_bind) (auto split: if_splits)

section \<open>The data stage\<close>

lemma le_move_next: "p + 1 = le_move p"
  by (simp add: le_move_def)

lemma host_in_packet_moved:
  "\<exists>k p' L' s'. host_in_packet p L s = (p', L', s') \<and> moved UPDATX le_move pipe_read_ram k p s s' \<and> p' = (le_move ^^ k) p \<and> unat L = unat L' + k"
proof (induction "unat L" arbitrary: p L s)
  case 0
  then have "L = 0" by (simp add: unat_eq_zero)
  then have "host_in_packet p L s = (p, 0, ev s [Rd UPBCX (hw s (trace s) UPBCX)])"
    by (subst host_in_packet.simps) (simp add: Pipe_BytesInPipe_def io_simps)
  with \<open>L = 0\<close> show ?case by - (rule exI [of _ 0], simp add: moved_quiet)
next
  case (Suc j)
  then have L: "L \<noteq> 0" "unat (L - 1) = j" using unat_pred_word [of L] by auto
  let ?n = "hw s (trace s) UPBCX" and ?s = "ev s [Rd UPBCX (hw s (trace s) UPBCX)]"
  have eq: "host_in_packet p L s = (if ?n = 0 then (p, L, ?s) else host_in_packet (le_move p) (L - 1) (pipe_read_ram p ?s))"
    using L(1) by (subst host_in_packet.simps) (simp add: Pipe_BytesInPipe_def pipe_read_ram_def Pipe_Read_8_def io_simps le_move_def)
  show ?case
  proof (cases "?n = 0")
    case True
    with eq show ?thesis by - (rule exI [of _ 0], simp add: moved_quiet)
  next
    case False
    obtain k p' L' s' where k: "host_in_packet (le_move p) (L - 1) (pipe_read_ram p ?s) = (p', L', s')"
        "moved UPDATX le_move pipe_read_ram k (le_move p) (pipe_read_ram p ?s) s'" "p' = (le_move ^^ k) (le_move p)" "j = unat L' + k"
      using Suc.hyps(1) [of "L - 1" "le_move p" "pipe_read_ram p ?s"] L(2) by auto
    have "moved UPDATX le_move pipe_read_ram (Suc k) p s s'"
      by (rule moved.other [OF _ moved.byte [OF k(2)]]) simp
    with k eq False Suc.hyps(2) show ?thesis
      by (intro exI [of _ "Suc k"]) (simp add: funpow_swap1)
  qed
qed

lemma host_out_packet_moved:
  "\<exists>k p' L' s'. host_out_packet p L s = (p', L', s') \<and> moved UPDATX le_move pipe_write_ram k p s s' \<and> p' = (le_move ^^ k) p \<and> unat L = unat L' + k"
proof (induction "unat L" arbitrary: p L s)
  case 0
  then have "L = 0" by (simp add: unat_eq_zero)
  then have "host_out_packet p L s = (p, 0, s)" by (subst host_out_packet.simps) simp
  with \<open>L = 0\<close> show ?case by - (rule exI [of _ 0], simp add: moved.none)
next
  case (Suc j)
  then have L: "L \<noteq> 0" "unat (L - 1) = j" using unat_pred_word [of L] by auto
  let ?n = "hw s (trace s) UPBCX" and ?s = "ev s [Rd UPBCX (hw s (trace s) UPBCX)]"
  have eq: "host_out_packet p L s = (if ?n < ucast (USB_Host_ControlPipeSize s)
      then host_out_packet (le_move p) (L - 1) (pipe_write_ram p ?s) else (p, L, ?s))"
    using L(1) by (subst host_out_packet.simps) (simp add: Pipe_BytesInPipe_def pipe_write_ram_def io_simps le_move_def)
  show ?case
  proof (cases "?n < ucast (USB_Host_ControlPipeSize s)")
    case False
    with eq show ?thesis by - (rule exI [of _ 0], simp add: moved_quiet)
  next
    case True
    obtain k p' L' s' where k: "host_out_packet (le_move p) (L - 1) (pipe_write_ram p ?s) = (p', L', s')"
        "moved UPDATX le_move pipe_write_ram k (le_move p) (pipe_write_ram p ?s) s'" "p' = (le_move ^^ k) (le_move p)" "j = unat L' + k"
      using Suc.hyps(1) [of "L - 1" "le_move p" "pipe_write_ram p ?s"] L(2) by auto
    have "moved UPDATX le_move pipe_write_ram (Suc k) p s s'"
      by (rule moved.other [OF _ moved.byte [OF k(2)]]) simp
    with k eq True Suc.hyps(2) show ?thesis
      by (intro exI [of _ "Suc k"]) (simp add: funpow_swap1)
  qed
qed

text \<open>What the data stages do; an IN stage may end early, with a packet that is empty.\<close>

definition took :: "u16 \<Rightarrow> u16 \<Rightarrow> usb_st \<Rightarrow> u8 \<times> usb_st \<Rightarrow> bool" where
  "took p L s = (\<lambda>(code, s'). \<exists>k. moved UPDATX le_move pipe_read_ram k p s s' \<and> k \<le> unat L)"

definition gave :: "u16 \<Rightarrow> u16 \<Rightarrow> usb_st \<Rightarrow> u8 \<times> usb_st \<Rightarrow> bool" where
  "gave p L s = (\<lambda>(code, s'). \<exists>k. moved UPDATX le_move pipe_write_ram k p s s' \<and> k \<le> unat L \<and> (code = 0 \<longrightarrow> k = unat L))"

lemma took_step:
  assumes "moved UPDATX le_move pipe_read_ram k p s s1" "took ((le_move ^^ k) p) L' s1 r" "unat L = unat L' + k"
  shows "took p L s r"
  using assms moved_trans [OF assms(1)] by (fastforce simp: took_def)

lemma gave_step:
  assumes "moved UPDATX le_move pipe_write_ram k p s s1" "gave ((le_move ^^ k) p) L' s1 r" "unat L = unat L' + k"
  shows "gave p L s r"
proof -
  obtain code s' j where "r = (code, s')" "moved UPDATX le_move pipe_write_ram j ((le_move ^^ k) p) s1 s'" "j \<le> unat L'"
      "code = 0 \<longrightarrow> j = unat L'"
    using assms(2) by (auto simp: gave_def)
  with assms(3) moved_trans [OF assms(1)] show ?thesis by (auto simp: gave_def intro!: exI [of _ "k + j"])
qed

lemma took_idle: "idle s r \<Longrightarrow> took p L s r"
  by (fastforce simp: idle_def took_def intro: moved_quiet)

lemma gave_idle: "idle s (code, s') \<Longrightarrow> code \<noteq> 0 \<Longrightarrow> gave p L s (code, s')"
  by (fastforce simp: idle_def gave_def intro: moved_quiet)

lemma host_in_data_meaning: "always (took p L s) (host_in_data p L s)"
proof -
  have "took p L s r" if ret: "host_in_data p L s = Some r" for r
  proof (rule host_in_data.raw_induct [where P = took, OF _ ret])
    fix F :: "u16 \<Rightarrow> u16 \<Rightarrow> usb_st \<Rightarrow> (u8 \<times> usb_st) option" and p L s r
    assume "\<And>p L s r. F p L s = Some r \<Longrightarrow> took p L s r"
    then have IH: "always (took p L s) (F p L s)" for p L s by (simp add: always_def)
    let ?round = "\<lambda>(ReturnStatus, s). if ReturnStatus \<noteq> HOST_SENDCONTROL_Successful then Some (ReturnStatus, s)
        else let (n, s) = Pipe_BytesInPipe s;
                 DataLen = (if n = 0 then 0 else L);
                 (DataStream, DataLen, s) = host_in_packet p DataLen s;
                 s = Pipe_ClearIN (Pipe_Freeze s)
             in F DataStream DataLen s"
    let ?body = "if L \<noteq> 0 then USB_Host_WaitForIOS USB_HOST_WAITFOR_InReceived (Pipe_Unfreeze s) \<bind> ?round
      else Some (HOST_SENDCONTROL_Successful, s)"
    have round: "always (took p L s) (?round (code, ev s u))" if u: "quiet UPDATX u" for code u
    proof -
      let ?n = "hw s (trace s @ u) UPBCX"
      let ?s = "ev s (u @ [Rd UPBCX ?n])" and ?L = "if ?n = 0 then 0 else L"
      obtain k p' L' s' where k: "host_in_packet p ?L ?s = (p', L', s')" "moved UPDATX le_move pipe_read_ram k p ?s s'"
          "p' = (le_move ^^ k) p" "unat ?L = unat L' + k"
        using host_in_packet_moved by blast
      obtain v where v: "Pipe_ClearIN (Pipe_Freeze s') = ev s' v" "quiet UPDATX v"
        by (simp add: Pipe_ClearIN_def Pipe_Freeze_def io_simps)
      have "moved UPDATX le_move pipe_read_ram k p s (ev s' v)"
        using u v(2) by (intro moved_after moved.other [OF _ k(2)]) simp_all
      then have "took p ?L s r" if "took ((le_move ^^ k) p) L' (ev s' v) r" for r
        using that k(4) by (rule took_step)
      moreover have "took p L s r" if "took p ?L s r" for r
        using that by (fastforce simp: took_def split: if_splits)
      ultimately have "always (took p L s) (F p' L' (ev s' v))"
        unfolding k(3) by (intro always_mono [OF IH]) blast
      then show ?thesis
        using u k(1) by (simp add: Pipe_BytesInPipe_def io_simps v(1) Let_def took_idle)
    qed
    have "always (took p L s) (USB_Host_WaitForIOS USB_HOST_WAITFOR_InReceived (Pipe_Unfreeze s) \<bind> ?round)"
    proof (rule always_bind [OF USB_Host_WaitForIOS_idle])
      fix r assume "idle (Pipe_Unfreeze s) r"
      then obtain code u where "r = (code, ev s u)" "quiet UPDATX u"
        by (auto simp: idle_def Pipe_Unfreeze_def io_simps)
      then show "always (took p L s) (?round r)" using round by simp
    qed
    then have "always (took p L s) ?body" by (auto simp: took_idle)
    then show "took p L s r" if "?body = Some r" using that by (rule alwaysD)
  qed
  then show ?thesis by (simp add: always_def)
qed

lemma host_out_data_meaning: "always (gave p L s) (host_out_data p L s)"
proof -
  have "gave p L s r" if ret: "host_out_data p L s = Some r" for r
  proof (rule host_out_data.raw_induct [where P = gave, OF _ ret])
    fix F :: "u16 \<Rightarrow> u16 \<Rightarrow> usb_st \<Rightarrow> (u8 \<times> usb_st) option" and p L s r
    assume "\<And>p L s r. F p L s = Some r \<Longrightarrow> gave p L s r"
    then have IH: "always (gave p L s) (F p L s)" for p L s by (simp add: always_def)
    let ?round = "\<lambda>(ReturnStatus, s). if ReturnStatus \<noteq> HOST_SENDCONTROL_Successful then Some (ReturnStatus, s)
        else let (DataStream, DataLen, s) = host_out_packet p L s in F DataStream DataLen (Pipe_ClearOUT s)"
    let ?body = "if L \<noteq> 0 then USB_Host_WaitForIOS USB_HOST_WAITFOR_OutReady s \<bind> ?round
      else Some (HOST_SENDCONTROL_Successful, s)"
    have round: "always (gave p L s) (?round (code, ev s u))" if u: "quiet UPDATX u" for code u
    proof -
      obtain k p' L' s' where k: "host_out_packet p L (ev s u) = (p', L', s')"
          "moved UPDATX le_move pipe_write_ram k p (ev s u) s'" "p' = (le_move ^^ k) p" "unat L = unat L' + k"
        using host_out_packet_moved by blast
      obtain v where v: "Pipe_ClearOUT s' = ev s' v" "quiet UPDATX v"
        by (simp add: Pipe_ClearOUT_def io_simps)
      have "moved UPDATX le_move pipe_write_ram k p s (ev s' v)"
        using u v(2) by (intro moved_after moved.other [OF _ k(2)]) simp_all
      then have "gave p L s r" if "gave ((le_move ^^ k) p) L' (ev s' v) r" for r
        using that k(4) by (rule gave_step)
      then have "always (gave p L s) (F p' L' (ev s' v))"
        unfolding k(3) by (intro always_mono [OF IH]) blast
      then show ?thesis
        using u k(1) by (simp add: v(1) Let_def gave_idle)
    qed
    have "always (gave p L s) (USB_Host_WaitForIOS USB_HOST_WAITFOR_OutReady s \<bind> ?round)"
    proof (rule always_bind [OF USB_Host_WaitForIOS_idle])
      fix r assume "idle s r"
      then show "always (gave p L s) (?round r)" using round by (auto simp: idle_def)
    qed
    moreover have "gave p 0 s (0, s)" by (auto simp: gave_def intro: moved.none)
    ultimately have "always (gave p L s) ?body" by simp
    then show "gave p L s r" if "?body = Some r" using that by (rule alwaysD)
  qed
  then show ?thesis by (simp add: always_def)
qed

section \<open>The stages of a transfer put together\<close>

text \<open>
  \<open>sent W B n s\<close>: on success the bytes \<open>W\<close> were written to the FIFO, otherwise a prefix of them; at most \<open>n\<close> bytes were read from
  it, and stored at the buffer \<open>B\<close>. Nothing else of the state changed.
\<close>

definition stored_at :: "u16 option \<Rightarrow> u16 list \<Rightarrow> (u16 \<Rightarrow> u8) \<Rightarrow> u16 \<Rightarrow> u8" where
  "stored_at B vs m = (case B of None \<Rightarrow> m | Some p \<Rightarrow> store le_move p vs m)"

lemma stored_at_simps [simp]: "stored_at B [] m = m" "stored_at None vs m = m" "stored_at (Some p) vs m = store le_move p vs m"
  by (simp_all add: stored_at_def split: option.splits)

definition sent :: "u16 list \<Rightarrow> u16 option \<Rightarrow> nat \<Rightarrow> usb_st \<Rightarrow> u8 \<times> usb_st \<Rightarrow> bool" where
  "sent W B n s = (\<lambda>(code, s'). \<exists>t. s' = ev (s\<lparr>ram := stored_at B (reads UPDATX t) (ram s)\<rparr>) t \<and> length (reads UPDATX t) \<le> n \<and>
     (\<exists>k. writes UPDATX t = take k W) \<and> (code = 0 \<longrightarrow> writes UPDATX t = W))"

lemma sentI:
  assumes "s' = ev (s\<lparr>ram := stored_at B (reads UPDATX t) (ram s)\<rparr>) t" "length (reads UPDATX t) \<le> n"
    "writes UPDATX t = take k W" "code = 0 \<Longrightarrow> writes UPDATX t = W"
  shows "sent W B n s (code, s')"
  using assms by (auto simp: sent_def)

lemma sentE:
  assumes "sent W B n s (code, s')"
  obtains t k where "s' = ev (s\<lparr>ram := stored_at B (reads UPDATX t) (ram s)\<rparr>) t" "length (reads UPDATX t) \<le> n"
    "writes UPDATX t = take k W" "code = 0 \<longrightarrow> writes UPDATX t = W"
  using assms unfolding sent_def prod.case by (elim exE conjE) (rule that)

lemma ram_same [simp]: "(s :: usb_st)\<lparr>ram := ram s\<rparr> = s"
  by simp

lemma sent_idle: "idle s r \<Longrightarrow> sent [] B n s r"
proof -
  assume "idle s r"
  then obtain code t where "r = (code, ev s t)" "quiet UPDATX t" by (auto simp: idle_def)
  then show ?thesis using sentI [where s = s and s' = "ev s t" and t = t and W = "[]"] by (simp add: quiet_def)
qed

lemma sent_took: "took p L s r \<Longrightarrow> sent [] (Some p) (unat L) s r"
proof -
  have mu: "memory_update ram_update" by (simp add: memory_update_def ev_def)
  assume "took p L s r"
  then obtain code s' k where k: "r = (code, s')" "moved UPDATX le_move pipe_read_ram k p s s'" "k \<le> unat L"
    by (auto simp: took_def)
  have "\<exists>t. s' = ram_update (store le_move p (reads UPDATX t)) (ev s t) \<and> length (reads UPDATX t) = k \<and> writes UPDATX t = []"
    by (rule moved_stores [OF k(2) _ mu]) (simp add: pipe_read_ram_def Pipe_Read_8_def split: prod.splits)
  with k show ?thesis by (auto simp: ev_def intro!: sentI [where k = 0])
qed

lemma sent_gave: "gave p L s r \<Longrightarrow> sent (message (ram s) le_move p (unat L)) B 0 s r"
proof -
  assume "gave p L s r"
  then obtain code s' k where k: "r = (code, s')" "moved UPDATX le_move pipe_write_ram k p s s'" "k \<le> unat L"
      "code = 0 \<longrightarrow> k = unat L"
    by (auto simp: gave_def)
  obtain t where "s' = ev s t" "writes UPDATX t = message (ram s) le_move p k" "reads UPDATX t = []"
    using moved_writes [OF k(2), where peek = ram] by (auto simp: pipe_write_ram_def Pipe_Write_8_def io_simps)
  with k show ?thesis
    by (auto simp: message_split intro!: sentI [where t = t and k = k])
qed

lemma sent_then:
  assumes "sent W B m s (0, s1)" "sent V B n s1 (code, s')" "m = 0 \<or> n = 0"
  shows "sent (W @ V) B (m + n) s (code, s')"
  using assms(1)
proof (rule sentE)
  fix t i
  assume t: "s1 = ev (s\<lparr>ram := stored_at B (reads UPDATX t) (ram s)\<rparr>) t" "length (reads UPDATX t) \<le> m" "0 = (0::u8) \<longrightarrow> writes UPDATX t = W"
  show ?thesis
    using assms(2)
  proof (rule sentE)
    fix u k
    assume u: "s' = ev (s1\<lparr>ram := stored_at B (reads UPDATX u) (ram s1)\<rparr>) u" "length (reads UPDATX u) \<le> n"
      "writes UPDATX u = take k V" "code = 0 \<longrightarrow> writes UPDATX u = V"
    have "s' = ev (s\<lparr>ram := stored_at B (reads UPDATX (t @ u)) (ram s)\<rparr>) (t @ u)"
      using assms(3) t(1,2) u(1,2) by (auto simp: ev_def)
    then show ?thesis
      by (rule sentI [where k = "length W + k"]) (use t u in simp_all)
  qed
qed

lemma sent_stopped: "sent W B m s (code, s1) \<Longrightarrow> code \<noteq> 0 \<Longrightarrow> sent (W @ V) B (m + n) s (code, s1)"
proof (erule sentE)
  fix t k
  assume t: "s1 = ev (s\<lparr>ram := stored_at B (reads UPDATX t) (ram s)\<rparr>) t" "length (reads UPDATX t) \<le> m"
    "writes UPDATX t = take k W" "code \<noteq> 0"
  show ?thesis by (rule sentI [OF t(1), where k = "min k (length W)"]) (use t in \<open>auto simp: min_def\<close>)
qed

lemma sent_on_success:
  assumes m: "always (sent W B m s) c" and f: "\<And>s1. sent W B m s (0, s1) \<Longrightarrow> always (sent V B n s1) (f s1)" and "m = 0 \<or> n = 0"
  shows "always (sent (W @ V) B (m + n) s) (on_success c f)"
  using m unfolding on_success_def
proof (rule always_bind)
  fix r assume r: "sent W B m s r"
  show "always (sent (W @ V) B (m + n) s) (case r of (c, s1) \<Rightarrow> if c \<noteq> HOST_SENDCONTROL_Successful then Some (c, s1) else f s1)"
  proof (cases r)
    case (Pair c s1)
    show ?thesis
    proof (cases "c = 0")
      case True
      have "sent (W @ V) B (m + n) s q" if "sent V B n s1 q" for q
        using sent_then [of W B m s s1 V n "fst q" "snd q"] r that assms(3) Pair True by simp
      then show ?thesis using f [of s1] r Pair True by (auto intro: always_mono)
    qed (use r Pair sent_stopped in auto)
  qed
qed

text \<open>Simple steps before and after a stage.\<close>

lemma sent_quiet: "quiet UPDATX t \<Longrightarrow> sent [] B n s (code, ev s t)"
  by (rule sent_idle) simp

lemma sent_start: "quiet UPDATX t \<Longrightarrow> always (sent W B n (ev s t)) c \<Longrightarrow> always (sent W B n s) c"
  using sent_then [OF sent_quiet [of t B 0]] by (fastforce simp: always_def)

lemma sent_finish: "sent W B n s (code, s') \<Longrightarrow> quiet UPDATX t \<Longrightarrow> sent W B n s (code, ev s' t)"
proof (erule sentE)
  fix u k
  assume u: "s' = ev (s\<lparr>ram := stored_at B (reads UPDATX u) (ram s)\<rparr>) u" "length (reads UPDATX u) \<le> n"
    "writes UPDATX u = take k W" "code = 0 \<longrightarrow> writes UPDATX u = W" "quiet UPDATX t"
  show ?thesis by (rule sentI [where t = "u @ t" and k = k]) (use u in \<open>simp_all add: quiet_def\<close>)
qed

lemma sent_on_success_quiet:
  assumes "always (sent W B n s) c" "\<And>s1. always (sent [] B 0 s1) (f s1)"
  shows "always (sent W B n s) (on_success c f)"
  using sent_on_success [OF assms(1), of "[]" 0 f] assms(2) by simp

lemma on_success_sent_quiet:
  assumes "always (sent [] B 0 s) c" "\<And>t. quiet UPDATX t \<Longrightarrow> always (sent W B n (ev s t)) (f (ev s t))"
  shows "always (sent W B n s) (on_success c f)"
proof -
  have "always (sent W B n s1) (f s1)" if "sent [] B 0 s (0, s1)" for s1
    using that
  proof (rule sentE)
    fix t k
    assume "s1 = ev (s\<lparr>ram := stored_at B (reads UPDATX t) (ram s)\<rparr>) t" "length (reads UPDATX t) \<le> 0" "writes UPDATX t = take k []"
    then show ?thesis using assms(2) [of t] by (simp add: quiet_def)
  qed
  from sent_on_success [OF assms(1) this] show ?thesis by simp
qed

lemma always_idle: "always (sent [] B n s) (USB_Host_WaitForIOS w s)" "always (sent [] B n s) (USB_Host_WaitMS MS s)"
  by (rule always_mono [OF USB_Host_WaitForIOS_idle], erule sent_idle)
     (rule always_mono [OF USB_Host_WaitMS_idle], erule sent_idle)

lemma fold_Pipe_Write_8: "fold Pipe_Write_8 bs s = ev s (map (\<lambda>b. Wr UPDATX (ucast b)) bs)"
  by (induction bs arbitrary: s) (simp_all add: Pipe_Write_8_def io_simps)

lemma fifo_writes: "reads UPDATX (map (\<lambda>b. Wr UPDATX (f b)) bs) = []" "writes UPDATX (map (\<lambda>b. Wr UPDATX (f b)) bs) = map f bs"
  by (induction bs) simp_all

text \<open>Accesses that leave the FIFO and the memory alone.\<close>

definition quietly :: "(usb_st \<Rightarrow> usb_st) \<Rightarrow> bool" where
  "quietly f \<longleftrightarrow> (\<forall>s. \<exists>t. f s = ev s t \<and> quiet UPDATX t)"

lemma quietly_accessors:
  "quietly (Pipe_SetPipeToken tok)" "quietly Pipe_ClearError" "quietly Pipe_Unfreeze" "quietly Pipe_Freeze" "quietly Pipe_ClearSETUP"
  "quietly Pipe_ClearIN" "quietly Pipe_ClearOUT" "quietly USB_Host_ResumeBus" "quietly USB_Host_SuspendBus" "quietly (Pipe_ResetPipe a)"
  "quietly (Pipe_SelectPipe a)"
  by (simp_all add: quietly_def io_simps Pipe_SetPipeToken_def Pipe_ClearError_def Pipe_Unfreeze_def Pipe_Freeze_def Pipe_ClearSETUP_def
      Pipe_ClearIN_def Pipe_ClearOUT_def USB_Host_ResumeBus_def USB_Host_SuspendBus_def Pipe_ResetPipe_def Pipe_SelectPipe_def)

lemma quietlyE: "quietly f \<Longrightarrow> (\<And>t. f s = ev s t \<Longrightarrow> quiet UPDATX t \<Longrightarrow> P) \<Longrightarrow> P"
  unfolding quietly_def by (elim allE [of _ s] exE conjE) assumption

lemma quietly_kept:
  assumes "quietly f"
  shows "ram (f s) = ram s" "USB_ControlRequest (f s) = USB_ControlRequest s"
  by (rule quietlyE [OF assms, of s], simp)+

lemma sent_after: "quietly f \<Longrightarrow> always (sent W B n (f s)) c \<Longrightarrow> always (sent W B n s) c"
  by (erule quietlyE [of _ s]) (simp add: sent_start)

lemma sent_before: "quietly f \<Longrightarrow> sent W B n s (code, s') \<Longrightarrow> sent W B n s (code, f s')"
  by (erule quietlyE [of _ s']) (simp add: sent_finish)

lemmas sent_steps = quietly_accessors [THEN sent_after]
lemmas sent_last = quietly_accessors [THEN sent_before]

lemma length_request_bytes: "length (request_bytes r) = 8"
  by (simp add: request_bytes_def)

lemma send_setup_sent: "always (sent (map ucast (request_bytes (USB_ControlRequest s))) B 0 s) (send_setup s)"
proof -
  let ?W = "\<lambda>s. map ucast (request_bytes (USB_ControlRequest s)) :: u16 list"
  have body: "always (sent (?W s) B 0 s) (on_success (USB_Host_WaitForIOS USB_HOST_WAITFOR_SetupSent
      (Pipe_ClearSETUP (fold Pipe_Write_8 (request_bytes (USB_ControlRequest s)) s))) (\<lambda>s. USB_Host_WaitMS 1 (Pipe_Freeze s)))" for s
  proof -
    have "sent (?W s) B 0 s (0, fold Pipe_Write_8 (request_bytes (USB_ControlRequest s)) s)"
      by (rule sentI [where t = "map (\<lambda>b. Wr UPDATX (ucast b)) (request_bytes (USB_ControlRequest s))" and k = 8])
         (simp_all add: fold_Pipe_Write_8 fifo_writes length_request_bytes)
    note written = sent_before [OF quietly_accessors(5) this]
    have "always (sent [] B 0 s1) (on_success (USB_Host_WaitForIOS USB_HOST_WAITFOR_SetupSent s1) (\<lambda>s. USB_Host_WaitMS 1 (Pipe_Freeze s)))" for s1
      by (rule sent_on_success_quiet [OF always_idle(1)], rule sent_steps(4), rule always_idle(2))
    then show ?thesis
    proof (rule always_mono)
      fix r
      assume "sent [] B 0 (Pipe_ClearSETUP (fold Pipe_Write_8 (request_bytes (USB_ControlRequest s)) s)) r"
      then show "sent (?W s) B 0 s r" using sent_then [OF written, of "[]" 0 "fst r" "snd r"] by simp
    qed
  qed
  show ?thesis
    unfolding send_setup_def Let_def
  proof (rule sent_steps(8), rule on_success_sent_quiet [OF always_idle(2)])
    fix t
    let ?s = "ev (USB_Host_ResumeBus s) t"
    let ?f = "\<lambda>s. Pipe_Unfreeze (Pipe_ClearError (Pipe_SetPipeToken PIPE_TOKEN_SETUP s))"
    have "USB_ControlRequest (?f ?s) = USB_ControlRequest s"
      by (simp add: quietly_accessors [THEN quietly_kept(2)])
    then show "always (sent (?W s) B 0 ?s) (on_success (USB_Host_WaitForIOS USB_HOST_WAITFOR_SetupSent
        (Pipe_ClearSETUP (fold Pipe_Write_8 (request_bytes (USB_ControlRequest (?f ?s))) (?f ?s)))) (\<lambda>s. USB_Host_WaitMS 1 (Pipe_Freeze s)))"
      using body [of "?f ?s"]
      by - (rule sent_steps(1) [of _ _ _ PIPE_TOKEN_SETUP], rule sent_steps(2), rule sent_steps(3), simp)
  qed
qed

lemma host_in_data_sent: "always (sent [] (Some p) (unat L) s) (host_in_data p L s)"
  by (rule always_mono [OF host_in_data_meaning sent_took])

lemma host_out_data_sent: "ram s = m \<Longrightarrow> always (sent (message m le_move p (unat L)) B 0 s) (host_out_data p L s)"
  by (rule always_mono [OF host_out_data_meaning]) (use sent_gave in blast)

lemma sent_success: "always (sent [] B n s) (Some (code, s))"
  using sent_quiet [of "[]"] by simp

lemma control_in_sent: "always (sent [] B (case B of None \<Rightarrow> 0 | Some p \<Rightarrow> unat L) s) (control_in B L s)"
proof -
  let ?n = "case B of None \<Rightarrow> 0 | Some p \<Rightarrow> unat L"
  have data: "always (sent [] B ?n s) (case B of None \<Rightarrow> Some (0, s) | Some p \<Rightarrow> host_in_data p L s)" for s
    by (cases B) (simp_all only: option.case host_in_data_sent sent_success)
  show ?thesis
    unfolding control_in_def Let_def
    by (rule sent_steps(1), rule sent_on_success_quiet [OF data], rule sent_steps(1), rule sent_steps(3),
        rule sent_on_success_quiet [OF always_idle(1)], rule sent_steps(7), rule always_idle(1))
qed

lemma control_out_sent:
  assumes "ram s = m"
  shows "always (sent (case B of None \<Rightarrow> [] | Some p \<Rightarrow> message m le_move p (unat L)) B 0 s) (control_out B L s)"
proof -
  let ?W = "case B of None \<Rightarrow> [] | Some p \<Rightarrow> message m le_move p (unat L)"
  have "always (sent (message m le_move p (unat L)) B 0 s) (control_out_data p L s)" for p
    unfolding control_out_data_def Let_def
    by (rule sent_steps(1), rule sent_steps(3), rule sent_on_success_quiet [OF host_out_data_sent],
        simp add: assms quietly_accessors [THEN quietly_kept(1)],
        rule sent_on_success_quiet [OF always_idle(1)], rule sent_steps(4), rule sent_success)
  then have data: "always (sent ?W B 0 s) (case B of None \<Rightarrow> Some (0, s) | Some p \<Rightarrow> control_out_data p L s)"
    by (cases B) (simp_all only: option.case sent_success)
  show ?thesis
    unfolding control_out_def Let_def
    by (rule sent_on_success_quiet [OF data], rule sent_steps(1), rule sent_steps(3),
        rule sent_on_success_quiet [OF always_idle(1)], rule sent_steps(6), rule sent_success)
qed

text \<open>The bytes a request puts on the bus, and the number of bytes it accepts from it.\<close>

definition device_to_host :: "USB_Request_Header_t \<Rightarrow> bool" where
  "device_to_host r \<longleftrightarrow> bit (bmRequestType r) 7"

definition request_out :: "USB_Request_Header_t \<Rightarrow> u16 option \<Rightarrow> (u16 \<Rightarrow> u8) \<Rightarrow> u16 list" where
  "request_out r B m = map ucast (request_bytes r) @ (case B of
       Some p \<Rightarrow> if device_to_host r then [] else map (\<lambda>i. ucast (m (p + of_nat i))) [0..<unat (wLength r)]
     | None \<Rightarrow> [])"

definition request_in_max :: "USB_Request_Header_t \<Rightarrow> u16 option \<Rightarrow> nat" where
  "request_in_max r B = (if device_to_host r \<and> B \<noteq> None then unat (wLength r) else 0)"

lemma direction_bit: "bmRequestType r AND CONTROL_REQTYPE_DIRECTION = REQDIR_DEVICETOHOST \<longleftrightarrow> device_to_host r"
proof -
  have "x AND 0x80 = 0x80 \<longleftrightarrow> bit x 7" for x :: u8
  proof
    assume "x AND 0x80 = 0x80"
    then have "bit (x AND 0x80) 7" by simp
    then show "bit x 7" by (simp only: bit_and_iff)
  next
    assume "bit x 7"
    moreover have "(0x80 :: u8) = push_bit 7 1" by simp
    ultimately show "x AND 0x80 = 0x80"
      by (intro bit_word_eqI) (auto simp only: bit_and_iff bit_push_bit_iff bit_1_iff, metis diff_is_0_eq le_antisym)
  qed
  then show ?thesis by (simp add: device_to_host_def)
qed

lemma USB_Host_SendControlRequest_PRV_sent:
  "always (sent (request_out (USB_ControlRequest s) B (ram s)) B (request_in_max (USB_ControlRequest s) B) s)
     (USB_Host_SendControlRequest_PRV B s)"
proof -
  let ?r = "USB_ControlRequest s" and ?L = "wLength (USB_ControlRequest s)"
  let ?V = "case B of Some p \<Rightarrow> if device_to_host ?r then [] else message (ram s) le_move p (unat ?L) | None \<Rightarrow> []"
  have stage: "always (sent ?V B (request_in_max ?r B) s1)
      (if bmRequestType (USB_ControlRequest s1) AND CONTROL_REQTYPE_DIRECTION = REQDIR_DEVICETOHOST then control_in B ?L s1 else control_out B ?L s1)"
    if "sent (map ucast (request_bytes ?r)) B 0 s (0, s1)" for s1
  proof -
    have same: "ram s1 = ram s" "USB_ControlRequest s1 = ?r" using that by (auto elim!: sentE)
    show ?thesis
      unfolding same(2) direction_bit
      using control_in_sent [where B = B and L = ?L and s = s1] control_out_sent [OF same(1), where B = B and L = ?L]
      by (cases "device_to_host ?r"; cases B) (simp_all add: request_in_max_def)
  qed
  have "request_out ?r B (ram s) = map ucast (request_bytes ?r) @ ?V"
    by (simp add: request_out_def message_le split: option.splits)
  then show ?thesis
    using sent_on_success [OF send_setup_sent stage] unfolding USB_Host_SendControlRequest_PRV_def Let_def by simp
qed

lemma USB_Host_SendControlRequest_sent:
  assumes "USB_Host_SendControlRequest B s = Some (code, s')"
  shows "\<exists>s1. s' = ev s1 [Wr UPRST 1, Wr UPRST 0] \<and>
    sent (request_out (USB_ControlRequest s) B (ram s)) B (request_in_max (USB_ControlRequest s) B) s (code, s1)"
proof -
  obtain b s0 where b: "USB_Host_IsBusSuspended s = (b, ev s s0)" "quiet UPDATX s0"
    by (simp add: USB_Host_IsBusSuspended_def io_simps)
  let ?Q = "\<lambda>(code, s'). \<exists>s1. s' = ev s1 [Wr UPRST 1, Wr UPRST 0] \<and>
    sent (request_out (USB_ControlRequest s) B (ram s)) B (request_in_max (USB_ControlRequest s) B) s (code, s1)"
  have "always (sent (request_out (USB_ControlRequest s) B (ram s)) B (request_in_max (USB_ControlRequest s) B) s)
      (USB_Host_SendControlRequest_PRV B (ev s s0))"
    using sent_start [OF b(2)] USB_Host_SendControlRequest_PRV_sent [of "ev s s0" B] by simp
  then have "always ?Q (USB_Host_SendControlRequest B s)"
    unfolding USB_Host_SendControlRequest_def b(1) Let_def prod.case
  proof (rule always_bind)
    fix r
    assume "sent (request_out (USB_ControlRequest s) B (ram s)) B (request_in_max (USB_ControlRequest s) B) s r"
    moreover obtain c s2 where "r = (c, s2)" by fastforce
    ultimately have "sent (request_out (USB_ControlRequest s) B (ram s)) B (request_in_max (USB_ControlRequest s) B) s
        (c, if b then USB_Host_SuspendBus (Pipe_Freeze s2) else Pipe_Freeze s2)"
      by (simp add: sent_last)
    then show "always ?Q (case r of (ReturnStatus, s) \<Rightarrow> Some (ReturnStatus, Pipe_ResetPipe PIPE_CONTROLPIPE
        (if b then USB_Host_SuspendBus (Pipe_Freeze s) else Pipe_Freeze s)))"
      using \<open>r = (c, s2)\<close> by (auto simp: Pipe_ResetPipe_def io_simps bmask_def intro!: exI)
  qed
  with assms show ?thesis using alwaysD [of ?Q _ "(code, s')"] by simp
qed

text \<open>A device that is always ready, with one byte to give, and a state in which a request is about to be sent to it.\<close>

definition ready_device :: "USB_Request_Header_t \<Rightarrow> usb_st" where
  "ready_device r = (boot_st (\<lambda>t l. if l = UPINTX then 0x8D else if l = UPBCX then 1 else if l = USB_CurrentMode then 2 else 0x35))\<lparr>
     USB_ControlRequest := r, ram := (\<lambda>a. ucast a + 1)\<rparr>"

lemma ready_device_hw: "hw (ready_device r) t l = (if l = UPINTX then 0x8D else if l = UPBCX then 1 else if l = USB_CurrentMode then 2 else 0x35)"
  by (simp add: ready_device_def boot_st_def)

lemma ready_device_bits [simp]: "(0x8D :: u8) AND bmask 0 \<noteq> 0" "(0x8D :: u8) AND bmask (Suc 0) = 0" "(0x8D :: u8) AND bmask 2 \<noteq> 0"
  "(0x8D :: u8) AND bmask 3 \<noteq> 0" "(0x8D :: u8) AND bmask 4 = 0" "(0x35 :: u8) AND bmask 5 \<noteq> 0" "(0x35 :: u8) AND bmask 0 \<noteq> 0"
  by code_simp+

lemma ready_WaitMS: "\<exists>u. USB_Host_WaitMS 1 (ev (ready_device r) t) = Some (0, ev (ready_device r) u)"
  by (simp add: USB_Host_WaitMS_def waitms_loop.simps [of 1] waitms_loop.simps [of 0] host_wait_defs USB_Host_IsBusSuspended_def USB_Host_ResumeBus_def
      USB_Host_SuspendBus_def ready_device_hw io_simps)

lemma ready_IOS: "\<exists>u. USB_Host_WaitForIOS w (ev (ready_device r) t) = Some (0, ev (ready_device r) u)"
  by (cases w) (simp_all add: USB_Host_WaitForIOS_def ios_loop.simps [of _ 1000] ios_ready_def Pipe_IsSETUPSent_def Pipe_IsINReceived_def Pipe_IsOUTReady_def
      ready_device_hw io_simps)

definition succeeds :: "usb_st \<Rightarrow> (u8 \<times> usb_st) option \<Rightarrow> bool" where
  "succeeds D c \<longleftrightarrow> (\<exists>u. c = Some (0, ev D u))"

lemma succeeds_on_success: "succeeds D c \<Longrightarrow> (\<And>u. succeeds D (f (ev D u))) \<Longrightarrow> succeeds D (on_success c f)"
  by (auto simp: succeeds_def on_success_def)

lemma succeeds_step: "quietly f \<Longrightarrow> (\<And>u. succeeds D (g (ev D u))) \<Longrightarrow> succeeds D (g (f (ev D t)))"
  by (erule quietlyE [of _ "ev D t"]) simp

lemmas succeeds_steps = quietly_accessors [THEN succeeds_step]

lemma ready_wait: "succeeds (ready_device r) (USB_Host_WaitMS 1 (ev (ready_device r) t))"
    "succeeds (ready_device r) (USB_Host_WaitForIOS w (ev (ready_device r) t))"
  using ready_WaitMS ready_IOS by (simp_all add: succeeds_def)

lemma ready_setup: "succeeds (ready_device r) (send_setup (ev (ready_device r) t))"
  unfolding send_setup_def Let_def
  by (rule succeeds_steps(8), rule succeeds_on_success [OF ready_wait(1)], rule succeeds_steps(1), rule succeeds_steps(2),
      rule succeeds_steps(3), simp only: fold_Pipe_Write_8 ev_simps, rule succeeds_steps(5), rule succeeds_on_success [OF ready_wait(2)],
      rule succeeds_steps(4), rule ready_wait(1))

lemma ready_out_data: "succeeds (ready_device r) (host_out_data p 2 (ev (ready_device r) t))"
proof -
  obtain u where u: "USB_Host_WaitForIOS USB_HOST_WAITFOR_OutReady (ev (ready_device r) t) = Some (0, ev (ready_device r) u)"
    using ready_IOS by blast
  show ?thesis
    by (simp add: host_out_data.simps [of _ 2] host_out_data.simps [of _ 0] u host_out_packet.simps [of _ 2] host_out_packet.simps [of _ 1]
        host_out_packet.simps [of _ 0] Pipe_BytesInPipe_def Pipe_Write_8_def Pipe_ClearOUT_def ready_device_hw io_simps succeeds_def)
       (simp add: ready_device_def boot_st_def)
qed

lemma ready_out: "succeeds (ready_device r) (control_out (Some p) 2 (ev (ready_device r) t))"
  unfolding control_out_def control_out_data_def Let_def option.case
  by (rule succeeds_on_success, rule succeeds_steps(1), rule succeeds_steps(3), rule succeeds_on_success [OF ready_out_data],
      rule succeeds_on_success [OF ready_wait(2)], rule succeeds_steps(4))
     (simp add: succeeds_def, rule succeeds_steps(1), rule succeeds_steps(3), rule succeeds_on_success [OF ready_wait(2)],
      rule succeeds_steps(6), simp add: succeeds_def)

lemma ready_in: "succeeds (ready_device r) (control_in (Some p) 0 (ev (ready_device r) t))"
proof -
  have "succeeds (ready_device r) (host_in_data p 0 (ev (ready_device r) t))" for t
    by (simp add: host_in_data.simps [of _ 0] succeeds_def)
  then show ?thesis
    unfolding control_in_def Let_def option.case
    by - (rule succeeds_steps(1), rule succeeds_on_success, assumption, rule succeeds_steps(1), rule succeeds_steps(3),
        rule succeeds_on_success [OF ready_wait(2)], rule succeeds_steps(7), rule ready_wait(2))
qed

lemma ready_request:
  assumes "if device_to_host r then wLength r = 0 else wLength r = 2"
  shows "succeeds (ready_device r) (USB_Host_SendControlRequest (Some p) (ev (ready_device r) t))"
proof -
  have "USB_ControlRequest (ready_device r) = r" by (simp add: ready_device_def)
  then have "succeeds (ready_device r) (USB_Host_SendControlRequest_PRV (Some p) (ev (ready_device r) t))" for t
    using assms unfolding USB_Host_SendControlRequest_PRV_def Let_def
    by (intro succeeds_on_success [OF ready_setup]) (auto simp: direction_bit ready_out ready_in split: if_splits)
  then obtain u where "USB_Host_SendControlRequest_PRV (Some p) (ev (ready_device r) (t @ [Rd UHCON 0x35])) = Some (0, ev (ready_device r) u)"
    by (auto simp: succeeds_def)
  then show ?thesis
    by (simp add: USB_Host_SendControlRequest_def USB_Host_IsBusSuspended_def Pipe_Freeze_def USB_Host_SuspendBus_def Pipe_ResetPipe_def
        ready_device_hw io_simps succeeds_def)
qed

definition sample_request :: USB_Request_Header_t where
  "sample_request = \<lparr>bmRequestType = 0, bRequest = 9, wValue = 0x102, wIndex = 3, wLength = 2\<rparr>"

text \<open>C33. A control request of the host: whatever the outcome, what has been written to the FIFO of the control pipe is a prefix of
  the eight bytes of the request followed, for a request to the device with a buffer, by the \<open>wLength\<close> bytes of the buffer, and all of
  it when the request succeeds; the bytes read from the FIFO, at most \<open>wLength\<close> and none unless the request is from the device, are
  stored one after the other from the start of the buffer; the pipe is reset at the end, and nothing else of the state changes.\<close>

theorem USB_Host_SendControlRequest_on_bus:
  assumes "USB_Host_SendControlRequest BufferPtr s = Some (code, s')"
  shows "\<exists>t. s' = ev (s\<lparr>ram := stored_at BufferPtr (reads UPDATX t) (ram s)\<rparr>) (t @ [Wr UPRST 1, Wr UPRST 0]) \<and>
    length (reads UPDATX t) \<le> request_in_max (USB_ControlRequest s) BufferPtr \<and>
    (\<exists>k. writes UPDATX t = take k (request_out (USB_ControlRequest s) BufferPtr (ram s))) \<and>
    (code = HOST_SENDCONTROL_Successful \<longrightarrow> writes UPDATX t = request_out (USB_ControlRequest s) BufferPtr (ram s))"
proof -
  obtain s1 where s1: "s' = ev s1 [Wr UPRST 1, Wr UPRST 0]"
      "sent (request_out (USB_ControlRequest s) BufferPtr (ram s)) BufferPtr (request_in_max (USB_ControlRequest s) BufferPtr) s (code, s1)"
    using USB_Host_SendControlRequest_sent [OF assms] by blast
  from s1(2) show ?thesis unfolding s1(1) by (elim sentE) (auto intro!: exI)
qed

theorem USB_Host_SendControlRequest_on_bus_witness:
  "\<exists>s' t. USB_Host_SendControlRequest (Some 16) (ready_device sample_request) = Some (0, s') \<and>
     s' = ev (ready_device sample_request) (t @ [Wr UPRST 1, Wr UPRST 0]) \<and> writes UPDATX t = [0, 9, 2, 1, 3, 0, 2, 0, 17, 18]"
proof -
  obtain s' where r: "USB_Host_SendControlRequest (Some 16) (ready_device sample_request) = Some (0, s')"
    using ready_request [of sample_request 16 "[]"] by (auto simp: succeeds_def sample_request_def device_to_host_def)
  have "request_out (USB_ControlRequest (ready_device sample_request)) (Some 16) (ram (ready_device sample_request)) = [0, 9, 2, 1, 3, 0, 2, 0, 17, 18]"
    "request_in_max (USB_ControlRequest (ready_device sample_request)) (Some 16) = 0"
    by code_simp+
  with r show ?thesis using USB_Host_SendControlRequest_on_bus [OF r] by auto
qed

text \<open>C34. \<open>USB_Host_GetDeviceStatus\<close> never stores the status it asks for: its request has a data stage of length zero, so the memory
  is the same after the call, whatever the device answers and whatever error code is returned.\<close>

theorem USB_Host_GetDeviceStatus_stores_nothing:
  assumes "USB_Host_GetDeviceStatus FeatureStatus s = Some (code, s')"
  shows "ram s' = ram s"
proof -
  let ?s = "Pipe_SelectPipe PIPE_CONTROLPIPE (host_request (REQDIR_DEVICETOHOST OR REQREC_DEVICE) REQ_GetStatus 0 0 0 s)"
  obtain s1 where s1: "s' = ev s1 [Wr UPRST 1, Wr UPRST 0]"
      "sent (request_out (USB_ControlRequest ?s) (Some FeatureStatus) (ram ?s)) (Some FeatureStatus)
         (request_in_max (USB_ControlRequest ?s) (Some FeatureStatus)) ?s (code, s1)"
    using USB_Host_SendControlRequest_sent assms unfolding USB_Host_GetDeviceStatus_def by blast
  have "request_in_max (USB_ControlRequest ?s) (Some FeatureStatus) = 0" "ram ?s = ram s"
    by (simp_all add: quietly_accessors [THEN quietly_kept(1)] quietly_accessors [THEN quietly_kept(2)] host_request_def request_in_max_def)
  with s1 show ?thesis by (auto elim!: sentE)
qed

theorem USB_Host_GetDeviceStatus_stores_nothing_witness:
  "\<exists>s'. USB_Host_GetDeviceStatus 16 (ready_device sample_request) = Some (0, s') \<and> ram s' 16 = 17"
proof -
  let ?r = "\<lparr>bmRequestType = 0x80, bRequest = 0, wValue = 0, wIndex = 0, wLength = 0\<rparr> :: USB_Request_Header_t"
  have "Pipe_SelectPipe 0 (host_request 0x80 0 0 0 0 (ready_device sample_request)) = ev (ready_device ?r) [Wr UPNUM 0]"
    by (simp add: host_request_def ready_device_def Pipe_SelectPipe_def io_simps)
  moreover have "device_to_host ?r" by (simp add: device_to_host_def)
  ultimately obtain s' where r: "USB_Host_GetDeviceStatus 16 (ready_device sample_request) = Some (0, s')"
    using ready_request [of ?r 16 "[Wr UPNUM 0]"] by (auto simp: succeeds_def USB_Host_GetDeviceStatus_def)
  then show ?thesis using USB_Host_GetDeviceStatus_stores_nothing [OF r] by (simp add: ready_device_def)
qed

end
