(* ===== verification/Host_State_Machine.thy ===== *)
theory Host_State_Machine
  imports Host_Standard_Requests
begin

text \<open>
  Enumeration of an attached device (\<^verbatim>\<open>AVR8/Host_AVR8.c\<close>): the bus reset and the state machine that
  \<open>USB_HostTask\<close> drives. The two \<open>static\<close> locals of the state machine are fields of the machine state.
  \<open>Delay_MS\<close> only passes time.
\<close>

abbreviation (input) HOST_STATE_WaitForDevice :: u8 where "HOST_STATE_WaitForDevice \<equiv> 0"
abbreviation (input) HOST_STATE_Powered :: u8 where "HOST_STATE_Powered \<equiv> 2"
abbreviation (input) HOST_STATE_Powered_WaitForDeviceSettle :: u8 where "HOST_STATE_Powered_WaitForDeviceSettle \<equiv> 3"
abbreviation (input) HOST_STATE_Powered_WaitForConnect :: u8 where "HOST_STATE_Powered_WaitForConnect \<equiv> 4"
abbreviation (input) HOST_STATE_Powered_DoReset :: u8 where "HOST_STATE_Powered_DoReset \<equiv> 5"
abbreviation (input) HOST_STATE_Powered_ConfigPipe :: u8 where "HOST_STATE_Powered_ConfigPipe \<equiv> 6"
abbreviation (input) HOST_STATE_Default :: u8 where "HOST_STATE_Default \<equiv> 7"
abbreviation (input) HOST_STATE_Default_PostReset :: u8 where "HOST_STATE_Default_PostReset \<equiv> 8"
abbreviation (input) HOST_STATE_Default_PostAddressSet :: u8 where "HOST_STATE_Default_PostAddressSet \<equiv> 9"
abbreviation (input) HOST_ENUMERROR_NoError :: u8 where "HOST_ENUMERROR_NoError \<equiv> 0"
abbreviation (input) HOST_ENUMERROR_WaitStage :: u8 where "HOST_ENUMERROR_WaitStage \<equiv> 1"
abbreviation (input) HOST_ENUMERROR_NoDeviceDetected :: u8 where "HOST_ENUMERROR_NoDeviceDetected \<equiv> 2"
abbreviation (input) HOST_ENUMERROR_ControlError :: u8 where "HOST_ENUMERROR_ControlError \<equiv> 3"
abbreviation (input) HOST_ENUMERROR_PipeConfigError :: u8 where "HOST_ENUMERROR_PipeConfigError \<equiv> 4"
abbreviation (input) HOST_ERROR_VBusVoltageDip :: u8 where "HOST_ERROR_VBusVoltageDip \<equiv> 0"
abbreviation (input) HOST_DEVICE_SETTLE_DELAY_MS :: u16 where "HOST_DEVICE_SETTLE_DELAY_MS \<equiv> 1000"
abbreviation (input) USB_HOST_DEVICEADDRESS :: u8 where "USB_HOST_DEVICEADDRESS \<equiv> 1"

definition HOST_TASK_NONBLOCK_WAIT :: "u16 \<Rightarrow> u8 \<Rightarrow> usb_st \<Rightarrow> usb_st" where
  "HOST_TASK_NONBLOCK_WAIT Duration NextState s =
     (wr8 USB_HostState HOST_STATE_WaitForDevice s)\<lparr>WaitMSRemaining := Duration, PostWaitState := NextState\<rparr>"

section \<open>Bus reset\<close>

partial_function (option) wait_bus_reset :: "usb_st \<Rightarrow> usb_st option" where
  "wait_bus_reset s = (let (c, s) = USB_Host_IsBusResetComplete s in if c then Some s else wait_bus_reset s)"

fun sof_search :: "nat \<Rightarrow> usb_st \<Rightarrow> usb_st" where
  "sof_search 0 s = s"
| "sof_search (Suc MSRem) s =
     (let (sof, s) = USB_INT_HasOccurred USB_INT_HSOFI s
      in if sof then USB_INT_Clear USB_INT_DDISCI (USB_INT_Clear USB_INT_HSOFI s) else sof_search MSRem s)"

definition USB_Host_ResetDevice :: "usb_st \<Rightarrow> usb_st option" where
  "USB_Host_ResetDevice s = do {
     let (BusSuspended, s) = USB_Host_IsBusSuspended s;
     let s = USB_INT_Disable USB_INT_DDISCI s;
     s \<leftarrow> wait_bus_reset (USB_Host_ResetBus s);
     let s = USB_Host_ResumeBus s;
     let s = s\<lparr>USB_Host_ConfigurationNumber := 0\<rparr>;
     let (HSOFIEnabled, s) = USB_INT_IsEnabled USB_INT_HSOFI s;
     let s = USB_INT_Disable USB_INT_HSOFI s;
     let s = USB_INT_Clear USB_INT_HSOFI s;
     let s = sof_search 10 s;
     let s = (if HSOFIEnabled then USB_INT_Enable USB_INT_HSOFI s else s);
     let s = (if BusSuspended then USB_Host_SuspendBus s else s);
     Some (USB_INT_Enable USB_INT_DDISCI s) }"

section \<open>The states\<close>

text \<open>Each handler returns \<open>ErrorCode\<close> and \<open>SubErrorCode\<close> with the state; \<open>stay\<close> is a \<open>break\<close> without error.\<close>

type_synonym host_outcome = "(u8 \<times> u8 \<times> usb_st) option"

definition stay :: "usb_st \<Rightarrow> host_outcome" where
  "stay s = Some (HOST_ENUMERROR_NoError, HOST_ENUMERROR_NoError, s)"

definition host_wait :: "usb_st \<Rightarrow> host_outcome" where
  "host_wait s =
     (if WaitMSRemaining s \<noteq> 0 then do {
        (SubErrorCode, s) \<leftarrow> USB_Host_WaitMS 1 s;
        if SubErrorCode \<noteq> HOST_WAITERROR_Successful
        then Some (HOST_ENUMERROR_WaitStage, SubErrorCode, wr8 USB_HostState (PostWaitState s) s)
        else let s = s\<lparr>WaitMSRemaining := WaitMSRemaining s - 1\<rparr>
             in stay (if WaitMSRemaining s = 0 then wr8 USB_HostState (PostWaitState s) s else s) }
      else stay s)"

definition host_powered :: "usb_st \<Rightarrow> host_outcome" where
  "host_powered s =
     stay (wr8 USB_HostState HOST_STATE_Powered_WaitForDeviceSettle (s\<lparr>WaitMSRemaining := HOST_DEVICE_SETTLE_DELAY_MS\<rparr>))"

definition host_settle :: "usb_st \<Rightarrow> host_outcome" where
  "host_settle s =
     (let n = WaitMSRemaining s; s = s\<lparr>WaitMSRemaining := n - 1\<rparr>
      in if n \<noteq> 0 then stay s
         else let s = USB_Host_VBUS_Manual_Off s;
                  s = USB_OTGPAD_On s;
                  s = USB_Host_VBUS_Auto_Enable s;
                  s = USB_Host_VBUS_Auto_On s
              in stay (wr8 USB_HostState HOST_STATE_Powered_WaitForConnect s))"

definition host_connect :: "usb_st \<Rightarrow> host_outcome" where
  "host_connect s =
     (let (conn, s) = USB_INT_HasOccurred USB_INT_DCONNI s
      in if conn then
           let s = USB_INT_Clear USB_INT_DCONNI s;
               s = USB_INT_Clear USB_INT_DDISCI s;
               s = USB_INT_Clear USB_INT_VBERRI s;
               s = USB_INT_Enable USB_INT_VBERRI s;
               s = USB_Host_ResumeBus s;
               s = Pipe_ClearPipes s
           in stay (HOST_TASK_NONBLOCK_WAIT 100 HOST_STATE_Powered_DoReset s)
         else stay s)"

definition host_do_reset :: "usb_st \<Rightarrow> host_outcome" where
  "host_do_reset s = do {
     s \<leftarrow> USB_Host_ResetDevice s;
     stay (HOST_TASK_NONBLOCK_WAIT 200 HOST_STATE_Powered_ConfigPipe s) }"

definition host_config_pipe :: "usb_st \<Rightarrow> host_outcome" where
  "host_config_pipe s = do {
     (ok, s) \<leftarrow> Pipe_ConfigurePipe PIPE_CONTROLPIPE EP_TYPE_CONTROL ENDPOINT_CONTROLEP (ucast PIPE_CONTROLPIPE_DEFAULT_SIZE) 1 s;
     if \<not> ok then Some (HOST_ENUMERROR_PipeConfigError, 0, s)
     else stay (wr8 USB_HostState HOST_STATE_Default s) }"

definition host_default :: "u16 \<Rightarrow> usb_st \<Rightarrow> host_outcome" where
  "host_default DataBuffer s = do {
     let s = host_request (REQDIR_DEVICETOHOST OR REQREC_DEVICE) REQ_GetDescriptor (push_bit 8 DTYPE_Device) 0 8 s;
     let s = Pipe_SelectPipe PIPE_CONTROLPIPE s;
     (SubErrorCode, s) \<leftarrow> USB_Host_SendControlRequest (Some DataBuffer) s;
     if SubErrorCode \<noteq> HOST_SENDCONTROL_Successful then Some (HOST_ENUMERROR_ControlError, SubErrorCode, s)
     else do {
       let s = s\<lparr>USB_Host_ControlPipeSize := ram s (DataBuffer + Endpoint0Size_offset)\<rparr>;
       s \<leftarrow> USB_Host_ResetDevice s;
       stay (HOST_TASK_NONBLOCK_WAIT 200 HOST_STATE_Default_PostReset s) } }"

definition host_post_reset :: "usb_st \<Rightarrow> host_outcome" where
  "host_post_reset s = do {
     (ok, s) \<leftarrow> Pipe_ConfigurePipe PIPE_CONTROLPIPE EP_TYPE_CONTROL ENDPOINT_CONTROLEP (ucast (USB_Host_ControlPipeSize s)) 1 s;
     if \<not> ok then Some (HOST_ENUMERROR_PipeConfigError, 0, s)
     else do {
       let s = host_request (REQDIR_HOSTTODEVICE OR REQREC_DEVICE) REQ_SetAddress (ucast USB_HOST_DEVICEADDRESS) 0 0 s;
       (SubErrorCode, s) \<leftarrow> USB_Host_SendControlRequest None s;
       if SubErrorCode \<noteq> HOST_SENDCONTROL_Successful then Some (HOST_ENUMERROR_ControlError, SubErrorCode, s)
       else stay (HOST_TASK_NONBLOCK_WAIT 100 HOST_STATE_Default_PostAddressSet s) } }"

definition host_post_address :: "usb_app \<Rightarrow> usb_st \<Rightarrow> host_outcome" where
  "host_post_address App s = do {
     let s = USB_Host_SetDeviceAddress USB_HOST_DEVICEADDRESS s;
     let s = wr8 USB_HostState HOST_STATE_Addressed s;
     s \<leftarrow> EVENT_USB_Host_DeviceEnumerationComplete App s;
     stay s }"

definition host_switch :: "usb_app \<Rightarrow> u8 \<Rightarrow> usb_st \<Rightarrow> host_outcome" where
  "host_switch App st s =
     (if st = HOST_STATE_WaitForDevice then host_wait s
      else if st = HOST_STATE_Powered then host_powered s
      else if st = HOST_STATE_Powered_WaitForDeviceSettle then host_settle s
      else if st = HOST_STATE_Powered_WaitForConnect then host_connect s
      else if st = HOST_STATE_Powered_DoReset then host_do_reset s
      else if st = HOST_STATE_Powered_ConfigPipe then host_config_pipe s
      else if st = HOST_STATE_Default then host_default (enum_buffer App) s
      else if st = HOST_STATE_Default_PostReset then host_post_reset s
      else if st = HOST_STATE_Default_PostAddressSet then host_post_address App s
      else stay s)"

definition USB_Host_ProcessNextHostState :: "usb_app \<Rightarrow> usb_st \<Rightarrow> usb_st option" where
  "USB_Host_ProcessNextHostState App s = do {
     let (st, s) = rd8 USB_HostState s;
     (ErrorCode, SubErrorCode, s) \<leftarrow> host_switch App st s;
     if ErrorCode \<noteq> HOST_ENUMERROR_NoError then do {
       let (st, s) = rd8 USB_HostState s;
       if st \<noteq> HOST_STATE_Unattached then do {
         s \<leftarrow> EVENT_USB_Host_DeviceEnumerationFailed App ErrorCode SubErrorCode s;
         let s = USB_Host_VBUS_Auto_Off s;
         s \<leftarrow> EVENT_USB_Host_DeviceUnattached App s;
         USB_ResetInterface App s }
       else Some s }
     else Some s }"

section \<open>What the operations of the handlers leave alone\<close>

text \<open>\<open>undisturbed s0 s\<close>: since \<open>s0\<close> the state of the host was not written, nor the two static variables of the state machine.\<close>

definition undisturbed :: "usb_st \<Rightarrow> usb_st \<Rightarrow> bool" where
  "undisturbed s0 s \<longleftrightarrow> (\<exists>t. trace s = trace s0 @ t \<and> writes USB_HostState t = []) \<and>
     WaitMSRemaining s = WaitMSRemaining s0 \<and> PostWaitState s = PostWaitState s0"

lemma undisturbed_refl [simp]: "undisturbed s s"
  by (simp add: undisturbed_def)

lemma undisturbed_ev: "undisturbed s0 s \<Longrightarrow> writes USB_HostState t = [] \<Longrightarrow> undisturbed s0 (ev s t)"
  by (auto simp: undisturbed_def)

lemma undisturbed_fields [simp]:
  "undisturbed s0 (s\<lparr>ram := m\<rparr>) \<longleftrightarrow> undisturbed s0 s"
  "undisturbed s0 (s\<lparr>USB_ControlRequest := r\<rparr>) \<longleftrightarrow> undisturbed s0 s"
  "undisturbed s0 (s\<lparr>USB_Host_ConfigurationNumber := n\<rparr>) \<longleftrightarrow> undisturbed s0 s"
  "undisturbed s0 (s\<lparr>USB_Host_ControlPipeSize := n\<rparr>) \<longleftrightarrow> undisturbed s0 s"
  by (simp_all add: undisturbed_def)

named_theorems frame

lemma undisturbed_io [frame]:
  assumes "undisturbed s0 s"
  shows "undisturbed s0 (snd (rd8 l s))" "undisturbed s0 (snd (rd16 l s))" "undisturbed s0 (snd (test_bits l b s))"
    "l \<noteq> USB_HostState \<Longrightarrow> undisturbed s0 (wr8 l v s)" "l \<noteq> USB_HostState \<Longrightarrow> undisturbed s0 (set_bits l b s)"
    "l \<noteq> USB_HostState \<Longrightarrow> undisturbed s0 (clear_bits l b s)"
  using assms by (simp_all add: io_simps undisturbed_ev)

definition kept :: "usb_st \<Rightarrow> ('a \<times> usb_st) option \<Rightarrow> bool" where
  "kept s0 = always (\<lambda>(_, s). undisturbed s0 s)"

lemma kept_rules [frame]:
  "undisturbed s0 s \<Longrightarrow> kept s0 (Some (c, s))"
  "kept s0 x \<Longrightarrow> kept s0 y \<Longrightarrow> kept s0 (if b then x else y)"
  "undisturbed s0 (snd r) \<Longrightarrow> (\<And>c s. undisturbed s0 s \<Longrightarrow> kept s0 (f c s)) \<Longrightarrow> kept s0 (case r of (c, s) \<Rightarrow> f c s)"
  by (cases r; simp add: kept_def)+

lemma kept_bind [frame]:
  "kept s0 m \<Longrightarrow> (\<And>c s. undisturbed s0 s \<Longrightarrow> kept s0 (f c s)) \<Longrightarrow> kept s0 (m \<bind> (\<lambda>(c, s). f c s))"
  unfolding kept_def by (erule always_bind) auto

lemma kept_on_success [frame]: "kept s0 m \<Longrightarrow> (\<And>s. undisturbed s0 s \<Longrightarrow> kept s0 (f s)) \<Longrightarrow> kept s0 (on_success m f)"
  unfolding on_success_def by (intro frame) simp_all

lemma keptI: "(\<And>r. m = Some r \<Longrightarrow> undisturbed s0 (snd r)) \<Longrightarrow> kept s0 m"
  by (auto simp: kept_def always_def)

lemma keptD: "kept s0 m \<Longrightarrow> m = Some r \<Longrightarrow> undisturbed s0 (snd r)"
  by (auto simp: kept_def always_def)

lemma undisturbed_snd_if [frame]: "undisturbed s0 (snd x) \<Longrightarrow> undisturbed s0 (snd y) \<Longrightarrow> undisturbed s0 (snd (if c then x else y))"
  by simp

lemma undisturbed_snd [frame]: "undisturbed s0 s \<Longrightarrow> undisturbed s0 (snd (c, s))"
  by simp

lemma undisturbed_if [frame]: "undisturbed s0 x \<Longrightarrow> undisturbed s0 y \<Longrightarrow> undisturbed s0 (if c then x else y)"
  by simp

lemma undisturbed_interrupts [frame]:
  assumes "undisturbed s0 s"
  shows "undisturbed s0 (snd (USB_INT_HasOccurred i s))" "undisturbed s0 (snd (USB_INT_IsEnabled i s))"
    "undisturbed s0 (USB_INT_Enable i s)" "undisturbed s0 (USB_INT_Disable i s)" "undisturbed s0 (USB_INT_Clear i s)"
  using assms by (cases i; simp add: USB_INT_HasOccurred_def USB_INT_IsEnabled_def USB_INT_Enable_def USB_INT_Disable_def USB_INT_Clear_def undisturbed_io)+

lemma undisturbed_accessors [frame]:
  assumes "undisturbed s0 s"
  shows "undisturbed s0 (Pipe_SetPipeToken tok s)" "undisturbed s0 (Pipe_ClearError s)" "undisturbed s0 (Pipe_Unfreeze s)"
    "undisturbed s0 (Pipe_Freeze s)" "undisturbed s0 (Pipe_ClearSETUP s)" "undisturbed s0 (Pipe_ClearIN s)" "undisturbed s0 (Pipe_ClearOUT s)"
    "undisturbed s0 (Pipe_ClearStall s)" "undisturbed s0 (Pipe_ResetPipe a s)" "undisturbed s0 (Pipe_SelectPipe a s)"
    "undisturbed s0 (USB_Host_ResumeBus s)" "undisturbed s0 (USB_Host_SuspendBus s)" "undisturbed s0 (USB_Host_ResetBus s)"
    "undisturbed s0 (Pipe_Write_8 b s)" "undisturbed s0 (snd (Pipe_Read_8 s))" "undisturbed s0 (snd (Pipe_BytesInPipe s))"
    "undisturbed s0 (snd (Pipe_IsError s))" "undisturbed s0 (snd (Pipe_IsStalled s))" "undisturbed s0 (snd (ios_ready w s))"
    "undisturbed s0 (snd (USB_Host_IsBusSuspended s))" "undisturbed s0 (snd (USB_Host_IsBusResetComplete s))"
  using assms by (cases w; simp add: io_simps undisturbed_ev Pipe_SetPipeToken_def Pipe_ClearError_def Pipe_Unfreeze_def Pipe_Freeze_def Pipe_ClearSETUP_def
      Pipe_ClearIN_def Pipe_ClearOUT_def Pipe_ClearStall_def USB_Host_ResumeBus_def USB_Host_SuspendBus_def Pipe_ResetPipe_def Pipe_SelectPipe_def
      USB_Host_ResetBus_def Pipe_Write_8_def Pipe_Read_8_def Pipe_BytesInPipe_def Pipe_IsError_def Pipe_IsStalled_def ios_ready_def
      Pipe_IsSETUPSent_def Pipe_IsINReceived_def Pipe_IsOUTReady_def USB_Host_IsBusSuspended_def USB_Host_IsBusResetComplete_def)+

lemma waitms_loop_kept [frame]: "undisturbed s0 s \<Longrightarrow> kept s0 (waitms_loop MS s)"
proof (rule keptI)
  fix r assume s: "undisturbed s0 s" and ret: "waitms_loop MS s = Some r"
  have "undisturbed s0 s \<longrightarrow> undisturbed s0 (snd r)"
  proof (rule waitms_loop.raw_induct [where P = "\<lambda>_ s r. undisturbed s0 s \<longrightarrow> undisturbed s0 (snd r)", OF _ ret], rule impI)
    fix F :: "u8 \<Rightarrow> usb_st \<Rightarrow> (u8 \<times> usb_st) option" and MS s r
    assume "\<And>MS s r. F MS s = Some r \<Longrightarrow> undisturbed s0 s \<longrightarrow> undisturbed s0 (snd r)" and s: "undisturbed s0 s"
    then have IH: "undisturbed s0 s \<Longrightarrow> kept s0 (F MS s)" for MS s by (simp add: keptI)
    let ?body = "if MS \<noteq> 0 then
        let (sof, s) = USB_INT_HasOccurred USB_INT_HSOFI s;
            (MS, s) = (if sof then (MS - 1, USB_INT_Clear USB_INT_HSOFI s) else (MS, s));
            (st, s) = rd8 USB_HostState s
        in if st = HOST_STATE_Unattached then Some (HOST_WAITERROR_DeviceDisconnect, s)
           else let (mode, s) = rd8 USB_CurrentMode s
                in if mode \<noteq> USB_MODE_Host then Some (HOST_WAITERROR_DeviceDisconnect, s)
                   else let (err, s) = Pipe_IsError s
                        in if err then Some (HOST_WAITERROR_PipeError, Pipe_ClearError s)
                           else let (stalled, s) = Pipe_IsStalled s
                                in if stalled then Some (HOST_WAITERROR_SetupStalled, Pipe_ClearStall s)
                                   else F MS s
      else Some (HOST_WAITERROR_Successful, s)"
    have "kept s0 ?body" unfolding Let_def by (intro frame IH s)
    then show "undisturbed s0 (snd r)" if "?body = Some r" using that by (rule keptD)
  qed
  with s show "undisturbed s0 (snd r)" by blast
qed

lemma USB_Host_WaitMS_kept [frame]: "undisturbed s0 s \<Longrightarrow> kept s0 (USB_Host_WaitMS MS s)"
  unfolding USB_Host_WaitMS_def Let_def by (intro frame)

lemma ios_loop_kept: "undisturbed s0 s \<Longrightarrow> kept s0 (ios_loop w T s)"
proof (rule keptI)
  fix r assume s: "undisturbed s0 s" and ret: "ios_loop w T s = Some r"
  have "undisturbed s0 s \<longrightarrow> undisturbed s0 (snd r)"
  proof (rule ios_loop.raw_induct [where P = "\<lambda>_ _ s r. undisturbed s0 s \<longrightarrow> undisturbed s0 (snd r)", OF _ ret], rule impI)
    fix F :: "USB_WaitForTypes_t \<Rightarrow> u16 \<Rightarrow> usb_st \<Rightarrow> (u8 \<times> usb_st) option" and w T s r
    assume "\<And>w T s r. F w T s = Some r \<Longrightarrow> undisturbed s0 s \<longrightarrow> undisturbed s0 (snd r)" and s: "undisturbed s0 s"
    then have IH: "undisturbed s0 s \<Longrightarrow> kept s0 (F w T s)" for w T s by (simp add: keptI)
    let ?body = "let (r, s) = ios_ready w s in if r then Some (HOST_SENDCONTROL_Successful, s) else USB_Host_WaitMS 1 s \<bind>
        (\<lambda>(ErrorCode, s). if ErrorCode \<noteq> HOST_WAITERROR_Successful then Some (ErrorCode, s)
           else if T = 0 then Some (HOST_SENDCONTROL_SoftwareTimeOut, s) else F w (T - 1) s)"
    have "kept s0 ?body" unfolding Let_def by (intro frame IH s)
    then show "undisturbed s0 (snd r)" if "?body = Some r" using that by (rule keptD)
  qed
  with s show "undisturbed s0 (snd r)" by blast
qed

lemma USB_Host_WaitForIOS_kept [frame]: "undisturbed s0 s \<Longrightarrow> kept s0 (USB_Host_WaitForIOS w s)"
  unfolding USB_Host_WaitForIOS_def by (rule ios_loop_kept)

lemma kept_triple [frame]:
  "undisturbed s0 (snd (snd r)) \<Longrightarrow> (\<And>a b s. undisturbed s0 s \<Longrightarrow> kept s0 (f a b s)) \<Longrightarrow> kept s0 (case r of (a, b, s) \<Rightarrow> f a b s)"
  by (cases r) simp

lemma host_in_packet_undisturbed [frame]: "undisturbed s0 s \<Longrightarrow> undisturbed s0 (snd (snd (host_in_packet p L s)))"
proof (induction "unat L" arbitrary: p L s)
  case 0
  then show ?case by (subst host_in_packet.simps) (simp add: Pipe_BytesInPipe_def unat_eq_zero io_simps undisturbed_ev)
next
  case (Suc n)
  then have "unat (L - 1) = n" using unat_pred_word [of L] by auto
  with Suc show ?case by (subst host_in_packet.simps) (simp add: Pipe_BytesInPipe_def Pipe_Read_8_def io_simps undisturbed_ev)
qed

lemma host_out_packet_undisturbed [frame]: "undisturbed s0 s \<Longrightarrow> undisturbed s0 (snd (snd (host_out_packet p L s)))"
proof (induction "unat L" arbitrary: p L s)
  case 0
  then show ?case by (subst host_out_packet.simps) (simp add: unat_eq_zero)
next
  case (Suc n)
  then have "unat (L - 1) = n" using unat_pred_word [of L] by auto
  with Suc show ?case by (subst host_out_packet.simps) (simp add: Pipe_BytesInPipe_def Pipe_Write_8_def io_simps undisturbed_ev)
qed

lemma host_in_data_kept [frame]: "undisturbed s0 s \<Longrightarrow> kept s0 (host_in_data p L s)"
proof (rule keptI)
  fix r assume s: "undisturbed s0 s" and ret: "host_in_data p L s = Some r"
  have "undisturbed s0 s \<longrightarrow> undisturbed s0 (snd r)"
  proof (rule host_in_data.raw_induct [where P = "\<lambda>_ _ s r. undisturbed s0 s \<longrightarrow> undisturbed s0 (snd r)", OF _ ret], rule impI)
    fix F :: "u16 \<Rightarrow> u16 \<Rightarrow> usb_st \<Rightarrow> (u8 \<times> usb_st) option" and p L s r
    assume "\<And>p L s r. F p L s = Some r \<Longrightarrow> undisturbed s0 s \<longrightarrow> undisturbed s0 (snd r)" and s: "undisturbed s0 s"
    then have IH: "undisturbed s0 s \<Longrightarrow> kept s0 (F p L s)" for p L s by (simp add: keptI)
    let ?body = "if L \<noteq> 0 then USB_Host_WaitForIOS USB_HOST_WAITFOR_InReceived (Pipe_Unfreeze s) \<bind>
        (\<lambda>(ReturnStatus, s). if ReturnStatus \<noteq> HOST_SENDCONTROL_Successful then Some (ReturnStatus, s)
          else let (n, s) = Pipe_BytesInPipe s;
                   DataLen = (if n = 0 then 0 else L);
                   (DataStream, DataLen, s) = host_in_packet p DataLen s;
                   s = Pipe_ClearIN (Pipe_Freeze s)
               in F DataStream DataLen s)
      else Some (HOST_SENDCONTROL_Successful, s)"
    have "kept s0 ?body" unfolding Let_def by (intro frame IH s)
    then show "undisturbed s0 (snd r)" if "?body = Some r" using that by (rule keptD)
  qed
  with s show "undisturbed s0 (snd r)" by blast
qed

lemma host_out_data_kept [frame]: "undisturbed s0 s \<Longrightarrow> kept s0 (host_out_data p L s)"
proof (rule keptI)
  fix r assume s: "undisturbed s0 s" and ret: "host_out_data p L s = Some r"
  have "undisturbed s0 s \<longrightarrow> undisturbed s0 (snd r)"
  proof (rule host_out_data.raw_induct [where P = "\<lambda>_ _ s r. undisturbed s0 s \<longrightarrow> undisturbed s0 (snd r)", OF _ ret], rule impI)
    fix F :: "u16 \<Rightarrow> u16 \<Rightarrow> usb_st \<Rightarrow> (u8 \<times> usb_st) option" and p L s r
    assume "\<And>p L s r. F p L s = Some r \<Longrightarrow> undisturbed s0 s \<longrightarrow> undisturbed s0 (snd r)" and s: "undisturbed s0 s"
    then have IH: "undisturbed s0 s \<Longrightarrow> kept s0 (F p L s)" for p L s by (simp add: keptI)
    let ?body = "if L \<noteq> 0 then USB_Host_WaitForIOS USB_HOST_WAITFOR_OutReady s \<bind>
        (\<lambda>(ReturnStatus, s). if ReturnStatus \<noteq> HOST_SENDCONTROL_Successful then Some (ReturnStatus, s)
          else let (DataStream, DataLen, s) = host_out_packet p L s in F DataStream DataLen (Pipe_ClearOUT s))
      else Some (HOST_SENDCONTROL_Successful, s)"
    have "kept s0 ?body" unfolding Let_def by (intro frame IH s)
    then show "undisturbed s0 (snd r)" if "?body = Some r" using that by (rule keptD)
  qed
  with s show "undisturbed s0 (snd r)" by blast
qed

lemma undisturbed_bytes [frame]: "undisturbed s0 s \<Longrightarrow> undisturbed s0 (fold Pipe_Write_8 bs s)"
  by (induction bs arbitrary: s) (simp_all add: undisturbed_accessors)

lemma kept_buffer [frame]: "kept s0 x \<Longrightarrow> (\<And>p. kept s0 (f p)) \<Longrightarrow> kept s0 (case B of None \<Rightarrow> x | Some p \<Rightarrow> f p)"
  by (cases B) simp_all

lemma USB_Host_SendControlRequest_kept [frame]: "undisturbed s0 s \<Longrightarrow> kept s0 (USB_Host_SendControlRequest B s)"
  unfolding USB_Host_SendControlRequest_def USB_Host_SendControlRequest_PRV_def send_setup_def control_in_def control_out_def
    control_out_data_def Let_def
  by (intro frame)

text \<open>The same for operations that return the state only.\<close>

lemma wait_bus_reset_undisturbed: "undisturbed s0 s \<Longrightarrow> always (undisturbed s0) (wait_bus_reset s)"
proof -
  have "undisturbed s0 s \<longrightarrow> undisturbed s0 s'" if ret: "wait_bus_reset s = Some s'" for s'
  proof (rule wait_bus_reset.raw_induct [where P = "\<lambda>s s'. undisturbed s0 s \<longrightarrow> undisturbed s0 s'", OF _ ret], rule impI)
    fix F :: event and s s'
    assume "\<And>s s'. F s = Some s' \<Longrightarrow> undisturbed s0 s \<longrightarrow> undisturbed s0 s'" "undisturbed s0 s"
      "(let (c, s) = USB_Host_IsBusResetComplete s in if c then Some s else F s) = Some s'"
    then show "undisturbed s0 s'"
      using undisturbed_accessors(21) [of s0 s] by (auto split: prod.splits if_splits)
  qed
  then show "undisturbed s0 s \<Longrightarrow> ?thesis" by (simp add: always_def)
qed

lemma sof_search_undisturbed [frame]: "undisturbed s0 s \<Longrightarrow> undisturbed s0 (sof_search n s)"
proof (induction n arbitrary: s)
  case (Suc n)
  obtain o' s' where "USB_INT_HasOccurred USB_INT_HSOFI s = (o', s')" by fastforce
  moreover from this have "undisturbed s0 s'" using undisturbed_interrupts(1) [OF Suc.prems, of USB_INT_HSOFI] by simp
  ultimately show ?case using Suc.IH by (simp add: undisturbed_interrupts)
qed simp

lemma always_undisturbed_case:
  "undisturbed s0 (snd r) \<Longrightarrow> (\<And>c s. undisturbed s0 s \<Longrightarrow> always (undisturbed s0) (f c s)) \<Longrightarrow>
   always (undisturbed s0) (case r of (c, s) \<Rightarrow> f c s)"
  by (cases r) simp

lemma USB_Host_ResetDevice_undisturbed: "undisturbed s0 s \<Longrightarrow> always (undisturbed s0) (USB_Host_ResetDevice s)"
  unfolding USB_Host_ResetDevice_def Let_def
  by (rule always_undisturbed_case, intro frame, assumption, rule always_bind [OF wait_bus_reset_undisturbed], intro frame, assumption,
      rule always_undisturbed_case, intro frame, simp add: frame) (simp add: frame)

lemma pipe_config_loop_undisturbed: "undisturbed s0 s \<Longrightarrow> undisturbed s0 (snd (pipe_config_loop n c0 c1 k s))"
proof (induction "7 - unat k" arbitrary: k s rule: less_induct)
  case less
  show ?case
  proof (cases "k < PIPE_TOTAL_PIPES")
    case False
    then show ?thesis using less.prems by (subst pipe_config_loop.simps) (simp add: undisturbed_accessors)
  next
    case True
    then have "unat (k + 1) = Suc (unat k)" "unat k < 7"
      using unat_Suc_word [of k "7"] by (simp_all add: word_less_nat_alt)
    then have IH: "m = k \<Longrightarrow> undisturbed s0 s \<Longrightarrow> undisturbed s0 (snd (pipe_config_loop n c0 c1 (m + 1) s))" for m s
      using less.hyps [of "k + 1" s] by simp
    have "yields (\<lambda>r. undisturbed s0 (snd r)) (pipe_config_loop n c0 c1 k s)"
      by (rule yields_eq [OF pipe_config_loop.simps], unfold pipe_config_defs, intro io_pure)
         (use True less.prems in \<open>simp_all add: yields_def io_simps undisturbed_ev IH\<close>)
    then show ?thesis by (simp add: yields_def)
  qed
qed

lemma Pipe_ConfigurePipe_kept [frame]: "undisturbed s0 s \<Longrightarrow> kept s0 (Pipe_ConfigurePipe a ty ea n b s)"
proof (rule keptI)
  fix r assume "undisturbed s0 s" "Pipe_ConfigurePipe a ty ea n b s = Some r"
  then have "r = (False, s) \<or> (\<exists>n c0 c1 k. r = pipe_config_loop n c0 c1 k s)"
    by (auto simp: Pipe_ConfigurePipe_def Let_def split: if_splits bind_splits)
  with \<open>undisturbed s0 s\<close> show "undisturbed s0 (snd r)" using pipe_config_loop_undisturbed by auto
qed

lemma Pipe_ClearPipes_undisturbed: "undisturbed s0 s \<Longrightarrow> undisturbed s0 (Pipe_ClearPipes s)"
  by (simp add: Pipe_ClearPipes_def Pipe_DisablePipe_def Pipe_SelectPipe_def frame)

section \<open>The enumeration as an abstract machine\<close>

text \<open>
  The abstract state is the phase reached, or waited for, and the number of milliseconds still to wait. A step leaves the phase or
  enters the next one, with or without a wait; while waiting only time passes, or the wait is abandoned.
\<close>

inductive enum_step :: "u8 \<times> nat \<Rightarrow> u8 \<times> nat \<Rightarrow> bool" where
  idle: "enum_step (p, 0) (p, 0)"
| enter: "enum_step (p, 0) (p + 1, n)"
| tick: "enum_step (p, Suc n) (p, n)"
| abandon: "enum_step (p, n) (p, 0)"

definition enum_state :: "u8 \<Rightarrow> usb_st \<Rightarrow> u8 \<times> nat" where
  "enum_state st s = (if st = HOST_STATE_WaitForDevice then (PostWaitState s, unat (WaitMSRemaining s)) else (st, 0))"

text \<open>The value of \<open>USB_HostState\<close> after a part of the trace.\<close>

definition host_state_after :: "u8 \<Rightarrow> io list \<Rightarrow> u8" where
  "host_state_after st t = last (st # map ucast (writes USB_HostState t))"

text \<open>While the machine waits, there is time left to wait and a state to go to.\<close>

definition enum_inv :: "u8 \<Rightarrow> usb_st \<Rightarrow> bool" where
  "enum_inv st s \<longleftrightarrow> (st = HOST_STATE_WaitForDevice \<longrightarrow> WaitMSRemaining s \<noteq> 0 \<and> PostWaitState s \<noteq> 0)"

definition enum_refines :: "u8 \<Rightarrow> usb_st \<Rightarrow> u8 \<times> u8 \<times> usb_st \<Rightarrow> bool" where
  "enum_refines st s = (\<lambda>(code, sub, s'). \<exists>t. trace s' = trace s @ t \<and> length (writes USB_HostState t) \<le> 1 \<and>
     enum_inv (host_state_after st t) s' \<and> enum_step (enum_state st s) (enum_state (host_state_after st t) s') \<and>
     (code \<noteq> HOST_ENUMERROR_NoError \<longrightarrow> fst (enum_state (host_state_after st t) s') = fst (enum_state st s)))"

lemma refines_same: "st \<noteq> 0 \<Longrightarrow> undisturbed s s' \<Longrightarrow> enum_refines st s (code, sub, s')"
  by (auto simp: enum_refines_def undisturbed_def host_state_after_def enum_state_def enum_inv_def intro: enum_step.idle)

lemma refines_next:
  assumes "st \<noteq> 0" "undisturbed s s1" "v = st + 1" "v \<noteq> 0"
  shows "always (enum_refines st s) (stay (wr8 USB_HostState v s1))"
proof -
  obtain t where "trace s1 = trace s @ t" "writes USB_HostState t = []" using assms(2) by (auto simp: undisturbed_def)
  with assms show ?thesis
    by (auto simp: stay_def enum_refines_def host_state_after_def enum_state_def enum_inv_def io_simps intro!: exI [of _ "t @ [Wr USB_HostState (ucast v)]"] enum_step.enter)
qed

lemma refines_wait:
  assumes "st \<noteq> 0" "undisturbed s s1" "v = st + 1" "v \<noteq> 0" "n \<noteq> 0"
  shows "always (enum_refines st s) (stay (HOST_TASK_NONBLOCK_WAIT n v s1))"
proof -
  obtain t where "trace s1 = trace s @ t" "writes USB_HostState t = []" using assms(2) by (auto simp: undisturbed_def)
  with assms show ?thesis
    by (auto simp: stay_def enum_refines_def host_state_after_def enum_state_def enum_inv_def HOST_TASK_NONBLOCK_WAIT_def io_simps
        intro!: exI [of _ "t @ [Wr USB_HostState 0]"] enum_step.enter)
qed

lemma host_wait_refines:
  assumes "enum_inv 0 s"
  shows "always (enum_refines 0 s) (host_wait s)"
proof -
  have ready: "WaitMSRemaining s \<noteq> 0" "PostWaitState s \<noteq> 0" using assms by (simp_all add: enum_inv_def)
  then obtain n where n: "unat (WaitMSRemaining s) = Suc n" "unat (WaitMSRemaining s - 1) = n"
    using unat_pred_word [of "WaitMSRemaining s"] by (cases "unat (WaitMSRemaining s)") (auto simp: unat_eq_zero)
  have "always (enum_refines 0 s) (USB_Host_WaitMS 1 s \<bind> (\<lambda>(SubErrorCode, s). if SubErrorCode \<noteq> HOST_WAITERROR_Successful
        then Some (HOST_ENUMERROR_WaitStage, SubErrorCode, wr8 USB_HostState (PostWaitState s) s)
        else let s = s\<lparr>WaitMSRemaining := WaitMSRemaining s - 1\<rparr>
             in stay (if WaitMSRemaining s = 0 then wr8 USB_HostState (PostWaitState s) s else s)))"
  proof (rule always_bind [OF USB_Host_WaitMS_kept [OF undisturbed_refl, unfolded kept_def]])
    fix r :: "u8 \<times> usb_st" assume "(\<lambda>(_, s'). undisturbed s s') r"
    then obtain c s1 t where r: "r = (c, s1)" "trace s1 = trace s @ t" "writes USB_HostState t = []"
        "WaitMSRemaining s1 = WaitMSRemaining s" "PostWaitState s1 = PostWaitState s"
      by (auto simp: undisturbed_def)
    let ?s = "s1\<lparr>WaitMSRemaining := WaitMSRemaining s1 - 1\<rparr>" and ?wr = "\<lambda>s'. wr8 USB_HostState (PostWaitState s) s'"
    have "enum_refines 0 s (1, c, ?wr s1)"
      using r ready enum_step.abandon
      by (auto simp: enum_refines_def host_state_after_def enum_state_def enum_inv_def io_simps
          intro!: exI [of _ "t @ [Wr USB_HostState (ucast (PostWaitState s))]"])
    moreover have "enum_refines 0 s (0, 0, if WaitMSRemaining s - 1 = 0 then ?wr ?s else ?s)"
    proof (cases "WaitMSRemaining s - 1 = 0")
      case True
      then show ?thesis
        using r n ready enum_step.tick [of "PostWaitState s" n]
        by (auto simp: enum_refines_def host_state_after_def enum_state_def enum_inv_def io_simps
            intro!: exI [of _ "t @ [Wr USB_HostState (ucast (PostWaitState s))]"])
    next
      case False
      then show ?thesis
        using r n ready enum_step.tick [of "PostWaitState s" n]
        by (auto simp: enum_refines_def host_state_after_def enum_state_def enum_inv_def intro!: exI [of _ t])
    qed
    ultimately show "always (enum_refines 0 s) (case r of (SubErrorCode, s) \<Rightarrow> if SubErrorCode \<noteq> HOST_WAITERROR_Successful
        then Some (HOST_ENUMERROR_WaitStage, SubErrorCode, wr8 USB_HostState (PostWaitState s) s)
        else let s = s\<lparr>WaitMSRemaining := WaitMSRemaining s - 1\<rparr>
             in stay (if WaitMSRemaining s = 0 then wr8 USB_HostState (PostWaitState s) s else s))"
      using r by (auto simp: stay_def Let_def split: if_splits)
  qed
  with ready show ?thesis by (simp add: host_wait_def)
qed

lemma always_kept:
  "kept s0 m \<Longrightarrow> (\<And>c s. undisturbed s0 s \<Longrightarrow> always Q (f c s)) \<Longrightarrow> always Q (m \<bind> (\<lambda>(c, s). f c s))"
  unfolding kept_def by (erule always_bind) auto

lemma undisturbed_vbus [frame]:
  assumes "undisturbed s0 s"
  shows "undisturbed s0 (USB_Host_VBUS_Manual_Off s)" "undisturbed s0 (USB_OTGPAD_On s)" "undisturbed s0 (USB_Host_VBUS_Auto_Enable s)"
    "undisturbed s0 (USB_Host_VBUS_Auto_On s)"
  using assms by (simp_all add: USB_Host_VBUS_Manual_Off_def USB_OTGPAD_On_def USB_Host_VBUS_Auto_Enable_def USB_Host_VBUS_Auto_On_def frame)

lemma refines_settle: "always (enum_refines 3 s) (host_settle s)"
proof -
  let ?n = "WaitMSRemaining s" and ?s = "s\<lparr>WaitMSRemaining := WaitMSRemaining s - 1\<rparr>"
  have "enum_refines 3 s (0, 0, ?s)"
    by (auto simp: enum_refines_def host_state_after_def enum_state_def enum_inv_def intro!: exI [of _ "[]"] enum_step.idle)
  moreover have "always (enum_refines 3 s) (stay (wr8 USB_HostState 4 s'))" if u: "undisturbed ?s s'" for s'
  proof -
    obtain t where "trace s' = trace s @ t" "writes USB_HostState t = []" using u by (auto simp: undisturbed_def)
    then show ?thesis
      using enum_step.enter [of 3 0]
      by (auto simp: stay_def enum_refines_def host_state_after_def enum_state_def enum_inv_def io_simps intro!: exI [of _ "t @ [Wr USB_HostState 4]"])
  qed
  ultimately show ?thesis by (simp add: host_settle_def Let_def stay_def undisturbed_vbus)
qed

lemma refines_powered: "always (enum_refines 2 s) (host_powered s)"
  using enum_step.enter [of 2 0]
  by (auto simp: host_powered_def stay_def enum_refines_def host_state_after_def enum_state_def enum_inv_def io_simps
      intro!: exI [of _ "[Wr USB_HostState 3]"])

lemma refines_connect: "always (enum_refines 4 s) (host_connect s)"
proof -
  obtain c s1 where "USB_INT_HasOccurred USB_INT_DCONNI s = (c, s1)" by fastforce
  moreover from this have "undisturbed s s1" using undisturbed_interrupts(1) [OF undisturbed_refl, of s USB_INT_DCONNI] by simp
  ultimately show ?thesis
    unfolding host_connect_def Let_def
    by (simp add: refines_wait Pipe_ClearPipes_undisturbed frame del: stay_def) (simp add: stay_def refines_same)
qed

lemma refines_do_reset: "always (enum_refines 5 s) (host_do_reset s)"
  unfolding host_do_reset_def by (rule always_bind [OF USB_Host_ResetDevice_undisturbed [OF undisturbed_refl]]) (simp add: refines_wait)

lemma refines_config_pipe: "always (enum_refines 6 s) (host_config_pipe s)"
  unfolding host_config_pipe_def
  by (rule always_kept [OF Pipe_ConfigurePipe_kept [OF undisturbed_refl]]) (simp add: refines_same refines_next)

lemma refines_default: "always (enum_refines 7 s) (host_default b s)"
proof -
  let ?s = "Pipe_SelectPipe PIPE_CONTROLPIPE (host_request (REQDIR_DEVICETOHOST OR REQREC_DEVICE) REQ_GetDescriptor (push_bit 8 DTYPE_Device) 0 8 s)"
  have "undisturbed s ?s" by (intro frame) (simp add: host_request_def)
  then show ?thesis
    unfolding host_default_def Let_def
    by (intro always_kept [OF USB_Host_SendControlRequest_kept])
       (auto simp: refines_same intro!: always_bind [OF USB_Host_ResetDevice_undisturbed] refines_wait)
qed

lemma refines_post_reset: "always (enum_refines 8 s) (host_post_reset s)"
  unfolding host_post_reset_def Let_def
  by (rule always_kept [OF Pipe_ConfigurePipe_kept [OF undisturbed_refl]])
     (auto simp: refines_same host_request_def intro!: always_kept [OF USB_Host_SendControlRequest_kept] refines_wait)



end
