(* ===== verification/USB_Interrupt_Handlers.thy ===== *)
theory USB_Interrupt_Handlers
  imports Host_State_Machine
begin

text \<open>
  The interrupt service routines (\<^verbatim>\<open>AVR8/USBInterrupt_AVR8.c\<close>) and the task of the main loop
  (\<^verbatim>\<open>Drivers/USB/Core/USBTask.c\<close>). The general routine is a sequence of blocks, one per source, each guarded by
  the flag and the enable bit of its source.
\<close>

section \<open>The general interrupt\<close>

text \<open>\<open>if (USB_INT_HasOccurred(i) && USB_INT_IsEnabled(i)) { ... }\<close>\<close>

definition on_interrupt :: "USB_Interrupts_t \<Rightarrow> event \<Rightarrow> event" where
  "on_interrupt i body s =
     (let (occurred, s) = USB_INT_HasOccurred i s
      in if occurred then let (enabled, s) = USB_INT_IsEnabled i s in if enabled then body s else Some s
         else Some s)"

definition isr_SOFI :: "usb_app \<Rightarrow> event" where
  "isr_SOFI App s = EVENT_USB_Device_StartOfFrame App (USB_INT_Clear USB_INT_SOFI s)"

definition isr_VBUSTI :: "usb_app \<Rightarrow> event" where
  "isr_VBUSTI App s =
     (let s = USB_INT_Clear USB_INT_VBUSTI s; (vbus, s) = USB_VBUS_GetStatus s
      in if vbus
         then do { s \<leftarrow> auto_PLL_On s; EVENT_USB_Device_Connect App (wr8 USB_DeviceState DEVICE_STATE_Powered s) }
         else EVENT_USB_Device_Disconnect App (wr8 USB_DeviceState DEVICE_STATE_Unattached (auto_PLL_Off s)))"

definition isr_SUSPI :: "usb_app \<Rightarrow> event" where
  "isr_SUSPI App s =
     (let s = USB_INT_Disable USB_INT_SUSPI s;
          s = USB_INT_Enable USB_INT_WAKEUPI s;
          s = USB_CLK_Freeze s;
          s = auto_PLL_Off s
      in EVENT_USB_Device_Suspend App (wr8 USB_DeviceState DEVICE_STATE_Suspended s))"

definition isr_WAKEUPI :: "usb_app \<Rightarrow> event" where
  "isr_WAKEUPI App s = do {
     s \<leftarrow> auto_PLL_On s;
     let s = USB_CLK_Unfreeze s;
     let s = USB_INT_Clear USB_INT_WAKEUPI s;
     let s = USB_INT_Disable USB_INT_WAKEUPI s;
     let s = USB_INT_Enable USB_INT_SUSPI s;
     let s = (if USB_Device_ConfigurationNumber s \<noteq> 0 then wr8 USB_DeviceState DEVICE_STATE_Configured s
              else let (a, s) = USB_Device_IsAddressSet s
                   in wr8 USB_DeviceState (if a then DEVICE_STATE_Addressed else DEVICE_STATE_Powered) s);
     EVENT_USB_Device_WakeUp App s }"

definition isr_EORSTI :: "usb_app \<Rightarrow> event" where
  "isr_EORSTI App s = do {
     let s = USB_INT_Clear USB_INT_EORSTI s;
     let s = wr8 USB_DeviceState DEVICE_STATE_Default s;
     let s = s\<lparr>USB_Device_ConfigurationNumber := 0\<rparr>;
     let s = USB_INT_Clear USB_INT_SUSPI s;
     let s = USB_INT_Disable USB_INT_SUSPI s;
     let s = USB_INT_Enable USB_INT_WAKEUPI s;
     (_, s) \<leftarrow> Endpoint_ConfigureEndpoint ENDPOINT_CONTROLEP EP_TYPE_CONTROL (ucast (USB_Device_ControlEndpointSize s)) 1 s;
     let s = (if INTERRUPT_CONTROL_ENDPOINT App then USB_INT_Enable USB_INT_RXSTPI s else s);
     EVENT_USB_Device_Reset App s }"

definition isr_HSOFI :: "usb_app \<Rightarrow> event" where
  "isr_HSOFI App s = EVENT_USB_Host_StartOfFrame App (USB_INT_Clear USB_INT_HSOFI s)"

definition isr_DDISCI :: "usb_app \<Rightarrow> event" where
  "isr_DDISCI App s = do {
     let s = USB_INT_Clear USB_INT_DDISCI s;
     let s = USB_INT_Clear USB_INT_DCONNI s;
     let s = USB_INT_Disable USB_INT_DDISCI s;
     s \<leftarrow> EVENT_USB_Host_DeviceUnattached App s;
     USB_ResetInterface App s }"

definition isr_VBERRI :: "usb_app \<Rightarrow> event" where
  "isr_VBERRI App s = do {
     let s = USB_INT_Clear USB_INT_VBERRI s;
     let s = USB_Host_VBUS_Manual_Off s;
     let s = USB_Host_VBUS_Auto_Off s;
     s \<leftarrow> EVENT_USB_Host_HostError App HOST_ERROR_VBusVoltageDip s;
     s \<leftarrow> EVENT_USB_Host_DeviceUnattached App s;
     Some (wr8 USB_HostState HOST_STATE_Unattached s) }"

definition isr_SRPI :: "usb_app \<Rightarrow> event" where
  "isr_SRPI App s = do {
     let s = USB_INT_Clear USB_INT_SRPI s;
     let s = USB_INT_Disable USB_INT_SRPI s;
     s \<leftarrow> EVENT_USB_Host_DeviceAttached App s;
     let s = USB_INT_Enable USB_INT_DDISCI s;
     Some (wr8 USB_HostState HOST_STATE_Powered s) }"

definition isr_BCERRI :: "usb_app \<Rightarrow> event" where
  "isr_BCERRI App s = do {
     let s = USB_INT_Clear USB_INT_BCERRI s;
     s \<leftarrow> EVENT_USB_Host_DeviceEnumerationFailed App HOST_ENUMERROR_NoDeviceDetected 0 s;
     s \<leftarrow> EVENT_USB_Host_DeviceUnattached App s;
     USB_ResetInterface App s }"

definition isr_IDTI :: "usb_app \<Rightarrow> event" where
  "isr_IDTI App s = do {
     let s = USB_INT_Clear USB_INT_IDTI s;
     let (d, s) = rd8 USB_DeviceState s;
     s \<leftarrow> (if d \<noteq> DEVICE_STATE_Unattached then EVENT_USB_Device_Disconnect App s else Some s);
     let (h, s) = rd8 USB_HostState s;
     s \<leftarrow> (if h \<noteq> HOST_STATE_Unattached then EVENT_USB_Host_DeviceUnattached App s else Some s);
     let (mode, s) = USB_GetUSBModeFromUID s;
     s \<leftarrow> USB_ResetInterface App (wr8 USB_CurrentMode mode s);
     EVENT_USB_UIDChange App s }"

definition USB_GEN_vect :: "usb_app \<Rightarrow> event" where
  "USB_GEN_vect App s = do {
     s \<leftarrow> on_interrupt USB_INT_SOFI (isr_SOFI App) s;
     s \<leftarrow> on_interrupt USB_INT_VBUSTI (isr_VBUSTI App) s;
     s \<leftarrow> on_interrupt USB_INT_SUSPI (isr_SUSPI App) s;
     s \<leftarrow> on_interrupt USB_INT_WAKEUPI (isr_WAKEUPI App) s;
     s \<leftarrow> on_interrupt USB_INT_EORSTI (isr_EORSTI App) s;
     s \<leftarrow> on_interrupt USB_INT_HSOFI (isr_HSOFI App) s;
     s \<leftarrow> on_interrupt USB_INT_DDISCI (isr_DDISCI App) s;
     s \<leftarrow> on_interrupt USB_INT_VBERRI (isr_VBERRI App) s;
     s \<leftarrow> on_interrupt USB_INT_SRPI (isr_SRPI App) s;
     s \<leftarrow> on_interrupt USB_INT_BCERRI (isr_BCERRI App) s;
     on_interrupt USB_INT_IDTI (isr_IDTI App) s }"

section \<open>The control endpoint interrupt\<close>

text \<open>The routine of builds with \<open>INTERRUPT_CONTROL_ENDPOINT\<close>; bit 7 of \<open>SREG\<close> is set by \<open>sei\<close>.\<close>

definition USB_COM_vect :: "usb_app \<Rightarrow> event" where
  "USB_COM_vect App s = do {
     let (PrevSelectedEndpoint, s) = Endpoint_GetCurrentEndpoint s;
     let s = Endpoint_SelectEndpoint ENDPOINT_CONTROLEP s;
     let s = USB_INT_Disable USB_INT_RXSTPI s;
     let s = set_bits SREG (bmask 7) s;
     s \<leftarrow> USB_Device_ProcessControlRequest App s;
     let s = Endpoint_SelectEndpoint ENDPOINT_CONTROLEP s;
     let s = USB_INT_Enable USB_INT_RXSTPI s;
     Some (Endpoint_SelectEndpoint PrevSelectedEndpoint s) }"

section \<open>The main loop task\<close>

definition USB_DeviceTask :: "usb_app \<Rightarrow> event" where
  "USB_DeviceTask App s =
     (let (d, s) = rd8 USB_DeviceState s
      in if d = DEVICE_STATE_Unattached then Some s
         else do {
           let (PrevEndpoint, s) = Endpoint_GetCurrentEndpoint s;
           let s = Endpoint_SelectEndpoint ENDPOINT_CONTROLEP s;
           let (setup, s) = Endpoint_IsSETUPReceived s;
           s \<leftarrow> (if setup then USB_Device_ProcessControlRequest App s else Some s);
           Some (Endpoint_SelectEndpoint PrevEndpoint s) })"

definition USB_HostTask :: "usb_app \<Rightarrow> event" where
  "USB_HostTask App s = do {
     let (PrevPipe, s) = Pipe_GetCurrentPipe s;
     let s = Pipe_SelectPipe PIPE_CONTROLPIPE s;
     s \<leftarrow> USB_Host_ProcessNextHostState App s;
     Some (Pipe_SelectPipe PrevPipe s) }"

definition USB_USBTask :: "usb_app \<Rightarrow> event" where
  "USB_USBTask App s =
     (let (mode, s) = rd8 USB_CurrentMode s
      in if mode = USB_MODE_Device then USB_DeviceTask App s
         else let (mode, s) = rd8 USB_CurrentMode s
              in if mode = USB_MODE_Host then USB_HostTask App s else Some s)"

end
