(* ===== verification/Data_Streams.thy ===== *)
theory Data_Streams
  imports USB_Interrupt_Handlers
begin

text \<open>
  Streams over ordinary endpoints and pipes (\<^verbatim>\<open>AVR8/Template/Template_Endpoint_RW.c\<close>, \<^verbatim>\<open>Template_Pipe_RW.c\<close> and
  their instances in \<^verbatim>\<open>EndpointStream_AVR8.c\<close> and \<^verbatim>\<open>PipeStream_AVR8.c\<close>). The pointer \<open>BytesProcessed\<close> is the value
  it points to, \<open>None\<close> for a null pointer; a stream returns the error code, the new value and the machine.
  As in the control streams the macros of a template are parameters: \<open>off\<close> is \<open>TEMPLATE_BUFFER_OFFSET\<close>,
  \<open>adv n\<close> is \<open>TEMPLATE_BUFFER_MOVE\<close> by \<open>n\<close>, \<open>xfer\<close> is \<open>TEMPLATE_TRANSFER_BYTE\<close>.
\<close>

abbreviation (input) ENDPOINT_RWSTREAM_NoError :: u8 where "ENDPOINT_RWSTREAM_NoError \<equiv> 0"
abbreviation (input) ENDPOINT_RWSTREAM_IncompleteTransfer :: u8 where "ENDPOINT_RWSTREAM_IncompleteTransfer \<equiv> 5"
abbreviation (input) PIPE_RWSTREAM_NoError :: u8 where "PIPE_RWSTREAM_NoError \<equiv> 0"
abbreviation (input) PIPE_RWSTREAM_IncompleteTransfer :: u8 where "PIPE_RWSTREAM_IncompleteTransfer \<equiv> 4"

type_synonym outcome = "(u8 \<times> u16 option \<times> usb_st) option"

section \<open>The transfer loop\<close>

text \<open>
  The loop the templates share: \<open>rwa\<close> asks whether the bank can be accessed, \<open>clr\<close> hands it over, \<open>wait\<close>
  waits for the next one, \<open>incomplete\<close> is the error code of an interrupted transfer.
\<close>

partial_function (option) rw_loop :: "(usb_st \<Rightarrow> bool \<times> usb_st) \<Rightarrow> event \<Rightarrow> (usb_st \<Rightarrow> (u8 \<times> usb_st) option) \<Rightarrow> u8 \<Rightarrow>
    (u16 \<Rightarrow> u16) \<Rightarrow> transfer \<Rightarrow> u16 \<Rightarrow> u16 \<Rightarrow> u16 \<Rightarrow> u16 option \<Rightarrow> usb_st \<Rightarrow> outcome" where
  "rw_loop rwa clr wait incomplete mv xfer DataStream Length BytesInTransfer BytesProcessed s =
     (if Length \<noteq> 0 then
        let (allowed, s) = rwa s
        in if \<not> allowed then do {
             s \<leftarrow> clr s;
             case BytesProcessed of
               Some n \<Rightarrow> Some (incomplete, Some (n + BytesInTransfer), s)
             | None \<Rightarrow> do {
                 (ErrorCode, s) \<leftarrow> wait s;
                 if ErrorCode \<noteq> 0 then Some (ErrorCode, BytesProcessed, s)
                 else rw_loop rwa clr wait incomplete mv xfer DataStream Length BytesInTransfer BytesProcessed s } }
           else rw_loop rwa clr wait incomplete mv xfer (mv DataStream) (Length - 1) (BytesInTransfer + 1)
                  BytesProcessed (xfer DataStream s)
      else Some (0, BytesProcessed, s))"

definition le_advance :: "u16 \<Rightarrow> u16 \<Rightarrow> u16" where "le_advance Amount BufferPtr = BufferPtr + Amount"
definition be_advance :: "u16 \<Rightarrow> u16 \<Rightarrow> u16" where "be_advance Amount BufferPtr = BufferPtr - Amount"

section \<open>Endpoint streams\<close>

text \<open>\<open>TEMPLATE_CLEAR_ENDPOINT\<close>, followed by the task of the main loop unless requests are served by interrupt.\<close>

definition ep_hand_over :: "usb_app \<Rightarrow> (usb_st \<Rightarrow> usb_st) \<Rightarrow> event" where
  "ep_hand_over App clr s = (if INTERRUPT_CONTROL_ENDPOINT App then Some (clr s) else USB_USBTask App (clr s))"

definition Template_Endpoint_RW :: "usb_app \<Rightarrow> (usb_st \<Rightarrow> usb_st) \<Rightarrow> (u16 \<Rightarrow> u16) \<Rightarrow> (u16 \<Rightarrow> u16 \<Rightarrow> u16) \<Rightarrow> transfer \<Rightarrow>
    u16 \<Rightarrow> u16 \<Rightarrow> u16 option \<Rightarrow> usb_st \<Rightarrow> outcome" where
  "Template_Endpoint_RW App clr off adv xfer Buffer Length BytesProcessed s = do {
     let DataStream = Buffer + off Length;
     (ErrorCode, s) \<leftarrow> Endpoint_WaitUntilReady s;
     if ErrorCode \<noteq> 0 then Some (ErrorCode, BytesProcessed, s)
     else let (Length, DataStream) =
            (case BytesProcessed of None \<Rightarrow> (Length, DataStream) | Some n \<Rightarrow> (Length - n, adv n DataStream))
          in rw_loop Endpoint_IsReadWriteAllowed (ep_hand_over App clr) Endpoint_WaitUntilReady
               ENDPOINT_RWSTREAM_IncompleteTransfer (adv 1) xfer DataStream Length 0 BytesProcessed s }"

partial_function (option) ep_count_loop :: "(usb_st \<Rightarrow> usb_st) \<Rightarrow> (usb_st \<Rightarrow> usb_st) \<Rightarrow> u16 \<Rightarrow> u16 \<Rightarrow> u16 option \<Rightarrow> usb_st \<Rightarrow> outcome" where
  "ep_count_loop clr xfer Length BytesInTransfer BytesProcessed s =
     (if BytesInTransfer < Length then
        let (allowed, s) = Endpoint_IsReadWriteAllowed s
        in if \<not> allowed then
             let s = clr s
             in case BytesProcessed of
                  Some _ \<Rightarrow> Some (ENDPOINT_RWSTREAM_IncompleteTransfer, Some BytesInTransfer, s)
                | None \<Rightarrow> do {
                    (ErrorCode, s) \<leftarrow> Endpoint_WaitUntilReady s;
                    if ErrorCode \<noteq> 0 then Some (ErrorCode, BytesProcessed, s)
                    else ep_count_loop clr xfer Length BytesInTransfer BytesProcessed s }
           else ep_count_loop clr xfer Length (BytesInTransfer + 1) BytesProcessed (xfer s)
      else Some (ENDPOINT_RWSTREAM_NoError, BytesProcessed, s))"

definition ep_count_stream :: "(usb_st \<Rightarrow> usb_st) \<Rightarrow> (usb_st \<Rightarrow> usb_st) \<Rightarrow> u16 \<Rightarrow> u16 option \<Rightarrow> usb_st \<Rightarrow> outcome" where
  "ep_count_stream clr xfer Length BytesProcessed s = do {
     let BytesInTransfer = (case BytesProcessed of None \<Rightarrow> 0 | Some n \<Rightarrow> n);
     (ErrorCode, s) \<leftarrow> Endpoint_WaitUntilReady s;
     if ErrorCode \<noteq> 0 then Some (ErrorCode, BytesProcessed, s)
     else ep_count_loop clr xfer Length BytesInTransfer BytesProcessed s }"

definition Endpoint_Discard_Stream :: "u16 \<Rightarrow> u16 option \<Rightarrow> usb_st \<Rightarrow> outcome" where
  "Endpoint_Discard_Stream = ep_count_stream Endpoint_ClearOUT Endpoint_Discard_8"

definition Endpoint_Null_Stream :: "u16 \<Rightarrow> u16 option \<Rightarrow> usb_st \<Rightarrow> outcome" where
  "Endpoint_Null_Stream = ep_count_stream Endpoint_ClearIN (Endpoint_Write_8 0)"

definition Endpoint_Write_Stream_LE :: "usb_app \<Rightarrow> u16 \<Rightarrow> u16 \<Rightarrow> u16 option \<Rightarrow> usb_st \<Rightarrow> outcome" where
  "Endpoint_Write_Stream_LE App = Template_Endpoint_RW App Endpoint_ClearIN le_offset le_advance write_ram"

definition Endpoint_Write_Stream_BE :: "usb_app \<Rightarrow> u16 \<Rightarrow> u16 \<Rightarrow> u16 option \<Rightarrow> usb_st \<Rightarrow> outcome" where
  "Endpoint_Write_Stream_BE App = Template_Endpoint_RW App Endpoint_ClearIN be_offset be_advance write_ram"

definition Endpoint_Read_Stream_LE :: "usb_app \<Rightarrow> u16 \<Rightarrow> u16 \<Rightarrow> u16 option \<Rightarrow> usb_st \<Rightarrow> outcome" where
  "Endpoint_Read_Stream_LE App = Template_Endpoint_RW App Endpoint_ClearOUT le_offset le_advance read_ram"

definition Endpoint_Read_Stream_BE :: "usb_app \<Rightarrow> u16 \<Rightarrow> u16 \<Rightarrow> u16 option \<Rightarrow> usb_st \<Rightarrow> outcome" where
  "Endpoint_Read_Stream_BE App = Template_Endpoint_RW App Endpoint_ClearOUT be_offset be_advance read_ram"

definition Endpoint_Write_PStream_LE :: "usb_app \<Rightarrow> u16 \<Rightarrow> u16 \<Rightarrow> u16 option \<Rightarrow> usb_st \<Rightarrow> outcome" where
  "Endpoint_Write_PStream_LE App = Template_Endpoint_RW App Endpoint_ClearIN le_offset le_advance write_flash"

definition Endpoint_Write_PStream_BE :: "usb_app \<Rightarrow> u16 \<Rightarrow> u16 \<Rightarrow> u16 option \<Rightarrow> usb_st \<Rightarrow> outcome" where
  "Endpoint_Write_PStream_BE App = Template_Endpoint_RW App Endpoint_ClearIN be_offset be_advance write_flash"

definition Endpoint_Write_EStream_LE :: "usb_app \<Rightarrow> u16 \<Rightarrow> u16 \<Rightarrow> u16 option \<Rightarrow> usb_st \<Rightarrow> outcome" where
  "Endpoint_Write_EStream_LE App = Template_Endpoint_RW App Endpoint_ClearIN le_offset le_advance write_eeprom"

definition Endpoint_Write_EStream_BE :: "usb_app \<Rightarrow> u16 \<Rightarrow> u16 \<Rightarrow> u16 option \<Rightarrow> usb_st \<Rightarrow> outcome" where
  "Endpoint_Write_EStream_BE App = Template_Endpoint_RW App Endpoint_ClearIN be_offset be_advance write_eeprom"

definition Endpoint_Read_EStream_LE :: "usb_app \<Rightarrow> u16 \<Rightarrow> u16 \<Rightarrow> u16 option \<Rightarrow> usb_st \<Rightarrow> outcome" where
  "Endpoint_Read_EStream_LE App = Template_Endpoint_RW App Endpoint_ClearOUT le_offset le_advance read_eeprom"

definition Endpoint_Read_EStream_BE :: "usb_app \<Rightarrow> u16 \<Rightarrow> u16 \<Rightarrow> u16 option \<Rightarrow> usb_st \<Rightarrow> outcome" where
  "Endpoint_Read_EStream_BE App = Template_Endpoint_RW App Endpoint_ClearOUT be_offset be_advance read_eeprom"

section \<open>Pipe streams\<close>

definition Template_Pipe_RW :: "u8 \<Rightarrow> (usb_st \<Rightarrow> usb_st) \<Rightarrow> (u16 \<Rightarrow> u16) \<Rightarrow> (u16 \<Rightarrow> u16 \<Rightarrow> u16) \<Rightarrow> transfer \<Rightarrow>
    u16 \<Rightarrow> u16 \<Rightarrow> u16 option \<Rightarrow> usb_st \<Rightarrow> outcome" where
  "Template_Pipe_RW token clr off adv xfer Buffer Length BytesProcessed s = do {
     let DataStream = Buffer + off Length;
     (ErrorCode, s) \<leftarrow> Pipe_WaitUntilReady (Pipe_SetPipeToken token s);
     if ErrorCode \<noteq> 0 then Some (ErrorCode, BytesProcessed, s)
     else let (Length, DataStream) =
            (case BytesProcessed of None \<Rightarrow> (Length, DataStream) | Some n \<Rightarrow> (Length - n, adv n DataStream))
          in rw_loop Pipe_IsReadWriteAllowed (\<lambda>s. Some (clr s)) Pipe_WaitUntilReady
               PIPE_RWSTREAM_IncompleteTransfer (adv 1) xfer DataStream Length 0 BytesProcessed s }"

text \<open>Streams without a buffer: the pointer is not used.\<close>

definition Pipe_Discard_Stream :: "u16 \<Rightarrow> u16 option \<Rightarrow> usb_st \<Rightarrow> outcome" where
  "Pipe_Discard_Stream Length BytesProcessed s = do {
     (ErrorCode, s) \<leftarrow> Pipe_WaitUntilReady (Pipe_SetPipeToken PIPE_TOKEN_IN s);
     if ErrorCode \<noteq> 0 then Some (ErrorCode, BytesProcessed, s)
     else let Length = (case BytesProcessed of None \<Rightarrow> Length | Some n \<Rightarrow> Length - n)
          in rw_loop Pipe_IsReadWriteAllowed (\<lambda>s. Some (Pipe_ClearIN s)) Pipe_WaitUntilReady
               PIPE_RWSTREAM_IncompleteTransfer id (\<lambda>_. Pipe_Discard_8) 0 Length 0 BytesProcessed s }"

definition Pipe_Null_Stream :: "usb_app \<Rightarrow> u16 \<Rightarrow> u16 option \<Rightarrow> usb_st \<Rightarrow> outcome" where
  "Pipe_Null_Stream App Length BytesProcessed s = do {
     (ErrorCode, s) \<leftarrow> Pipe_WaitUntilReady (Pipe_SetPipeToken PIPE_TOKEN_OUT s);
     if ErrorCode \<noteq> 0 then Some (ErrorCode, BytesProcessed, s)
     else let Length = (case BytesProcessed of None \<Rightarrow> Length | Some n \<Rightarrow> Length - n)
          in rw_loop Pipe_IsReadWriteAllowed (\<lambda>s. Some (Pipe_ClearOUT s))
               (\<lambda>s. do { s \<leftarrow> USB_USBTask App s; Pipe_WaitUntilReady s })
               PIPE_RWSTREAM_IncompleteTransfer id (\<lambda>_. Pipe_Write_8 0) 0 Length 0 BytesProcessed s }"

definition Pipe_Write_Stream_LE :: "u16 \<Rightarrow> u16 \<Rightarrow> u16 option \<Rightarrow> usb_st \<Rightarrow> outcome" where
  "Pipe_Write_Stream_LE = Template_Pipe_RW PIPE_TOKEN_OUT Pipe_ClearOUT le_offset le_advance pipe_write_ram"

definition Pipe_Write_Stream_BE :: "u16 \<Rightarrow> u16 \<Rightarrow> u16 option \<Rightarrow> usb_st \<Rightarrow> outcome" where
  "Pipe_Write_Stream_BE = Template_Pipe_RW PIPE_TOKEN_OUT Pipe_ClearOUT be_offset be_advance pipe_write_ram"

definition Pipe_Read_Stream_LE :: "u16 \<Rightarrow> u16 \<Rightarrow> u16 option \<Rightarrow> usb_st \<Rightarrow> outcome" where
  "Pipe_Read_Stream_LE = Template_Pipe_RW PIPE_TOKEN_IN Pipe_ClearIN le_offset le_advance pipe_read_ram"

definition Pipe_Read_Stream_BE :: "u16 \<Rightarrow> u16 \<Rightarrow> u16 option \<Rightarrow> usb_st \<Rightarrow> outcome" where
  "Pipe_Read_Stream_BE = Template_Pipe_RW PIPE_TOKEN_IN Pipe_ClearIN be_offset be_advance pipe_read_ram"

definition Pipe_Write_PStream_LE :: "u16 \<Rightarrow> u16 \<Rightarrow> u16 option \<Rightarrow> usb_st \<Rightarrow> outcome" where
  "Pipe_Write_PStream_LE = Template_Pipe_RW PIPE_TOKEN_OUT Pipe_ClearOUT le_offset le_advance pipe_write_flash"

definition Pipe_Write_PStream_BE :: "u16 \<Rightarrow> u16 \<Rightarrow> u16 option \<Rightarrow> usb_st \<Rightarrow> outcome" where
  "Pipe_Write_PStream_BE = Template_Pipe_RW PIPE_TOKEN_OUT Pipe_ClearOUT be_offset be_advance pipe_write_flash"

definition Pipe_Write_EStream_LE :: "u16 \<Rightarrow> u16 \<Rightarrow> u16 option \<Rightarrow> usb_st \<Rightarrow> outcome" where
  "Pipe_Write_EStream_LE = Template_Pipe_RW PIPE_TOKEN_OUT Pipe_ClearOUT le_offset le_advance pipe_write_eeprom"

definition Pipe_Write_EStream_BE :: "u16 \<Rightarrow> u16 \<Rightarrow> u16 option \<Rightarrow> usb_st \<Rightarrow> outcome" where
  "Pipe_Write_EStream_BE = Template_Pipe_RW PIPE_TOKEN_OUT Pipe_ClearOUT be_offset be_advance pipe_write_eeprom"

definition Pipe_Read_EStream_LE :: "u16 \<Rightarrow> u16 \<Rightarrow> u16 option \<Rightarrow> usb_st \<Rightarrow> outcome" where
  "Pipe_Read_EStream_LE = Template_Pipe_RW PIPE_TOKEN_IN Pipe_ClearIN le_offset le_advance pipe_read_eeprom"

definition Pipe_Read_EStream_BE :: "u16 \<Rightarrow> u16 \<Rightarrow> u16 option \<Rightarrow> usb_st \<Rightarrow> outcome" where
  "Pipe_Read_EStream_BE = Template_Pipe_RW PIPE_TOKEN_IN Pipe_ClearIN be_offset be_advance pipe_read_eeprom"

declare rw_loop.simps [code] ep_count_loop.simps [code]

section \<open>Resuming a transfer\<close>

text \<open>
  What a call with \<open>BytesProcessed\<close> pointing to \<open>n\<close> does: it goes on with byte \<open>n\<close> of the \<open>L\<close> bytes, walks from \<open>p\<close> with
  \<open>mv\<close>, and if it is interrupted says how many bytes have been moved in all.
\<close>

definition resumes :: "vloc \<Rightarrow> u8 \<Rightarrow> (u16 \<Rightarrow> u16) \<Rightarrow> transfer \<Rightarrow> u16 \<Rightarrow> u16 \<Rightarrow> u16 \<Rightarrow> usb_st \<Rightarrow> u8 \<times> u16 option \<times> usb_st \<Rightarrow> bool" where
  "resumes fifo incomplete mv xfer p L n s = (\<lambda>(code, bp', s'). \<exists>k. moved fifo mv xfer k ((mv ^^ unat n) p) s s' \<and>
     k \<le> unat L - unat n \<and> (code = 0 \<longrightarrow> k = unat L - unat n) \<and>
     (code = incomplete \<longrightarrow> k < unat L - unat n \<and> bp' = Some (n + of_nat k)))"

text \<open>
  The way the documentation of the streams asks for: call again with the same arguments while the transfer is
  incomplete, doing other work that leaves the FIFO alone in between.
\<close>

inductive resumed :: "vloc \<Rightarrow> u8 \<Rightarrow> (u16 option \<Rightarrow> usb_st \<Rightarrow> outcome) \<Rightarrow> u16 \<Rightarrow> usb_st \<Rightarrow> u8 \<Rightarrow> usb_st \<Rightarrow> bool"
  for fifo incomplete f where
  last: "f (Some n) s = Some (code, bp', s') \<Longrightarrow> code \<noteq> incomplete \<Longrightarrow> resumed fifo incomplete f n s code s'"
| again: "f (Some n) s = Some (incomplete, Some m, s1) \<Longrightarrow> quiet fifo t \<Longrightarrow>
    resumed fifo incomplete f m (ev s1 t) code s' \<Longrightarrow> resumed fifo incomplete f n s code s'"

lemma unat_counter:
  assumes "k < unat (L :: u16) - unat (n :: u16)"
  shows "unat (n + of_nat k) = unat n + k"
proof -
  have "unat L < 2 ^ 16" using unsigned_less [of L] by simp
  with assms show ?thesis by (simp add: unat_word_ariths unat_of_nat)
qed

lemma resumed_moved:
  assumes "resumed fifo incomplete f n s code s'" and "unat n \<le> unat L"
    and f: "\<And>n s. unat n \<le> unat L \<Longrightarrow> always (resumes fifo incomplete mv xfer p L n s) (f (Some n) s)"
  shows "\<exists>k. moved fifo mv xfer k ((mv ^^ unat n) p) s s' \<and> unat n + k \<le> unat L \<and> (code = 0 \<longrightarrow> unat n + k = unat L)"
  using assms(1,2)
proof (induction rule: resumed.induct)
  case (last n s code bp' s')
  with alwaysD [OF f] show ?case by (fastforce simp: resumes_def)
next
  case (again n s m s1 t code s')
  obtain k where k: "moved fifo mv xfer k ((mv ^^ unat n) p) s s1" "k < unat L - unat n" "m = n + of_nat k"
    using alwaysD [OF f [OF again.prems] again(1)] by (auto simp: resumes_def)
  then have m: "unat m = unat n + k" by (simp add: unat_counter)
  with k(2) have "unat m \<le> unat L" by simp
  then obtain j where j: "moved fifo mv xfer j ((mv ^^ unat m) p) (ev s1 t) s'" "unat m + j \<le> unat L" "code = 0 \<longrightarrow> unat m + j = unat L"
    using again.IH by blast
  have "moved fifo mv xfer (k + j) ((mv ^^ unat n) p) s s'"
    by (rule moved_trans [OF k(1)])
       (use moved.other [OF again(2) j(1)] in \<open>simp add: m funpow_add [symmetric] add.commute [of k] flip: comp_apply [of "mv ^^ k"]\<close>)
  with j(2,3) m show ?case by (intro exI [of _ "k + j"]) (simp add: add.assoc)
qed

text \<open>
  What the transfer loop needs of an endpoint or pipe with the FIFO \<open>fifo\<close>: testing the bank, handing it over
  and waiting for the next one do not touch the FIFO, and the wait does not report an incomplete transfer.
\<close>

locale stream_port =
  fixes fifo :: vloc and rwa :: "usb_st \<Rightarrow> bool \<times> usb_st" and clr :: event
    and wait :: "usb_st \<Rightarrow> (u8 \<times> usb_st) option" and incomplete :: u8
  assumes rwa_quiet: "\<exists>b t. rwa s = (b, ev s t) \<and> quiet fifo t"
    and clr_quiet: "always (\<lambda>s'. \<exists>t. s' = ev s t \<and> quiet fifo t) (clr s)"
    and wait_quiet: "always (\<lambda>(e, s'). e \<noteq> incomplete \<and> (\<exists>t. s' = ev s t \<and> quiet fifo t)) (wait s)"
    and incomplete_error: "incomplete \<noteq> 0"
begin

definition rw_post :: "(u16 \<Rightarrow> u16) \<Rightarrow> transfer \<Rightarrow> u16 \<Rightarrow> u16 \<Rightarrow> u16 \<Rightarrow> u16 option \<Rightarrow> usb_st \<Rightarrow> u8 \<times> u16 option \<times> usb_st \<Rightarrow> bool" where
  "rw_post mv xfer p L b bp s = (\<lambda>(code, bp', s'). \<exists>k. moved fifo mv xfer k p s s' \<and> k \<le> unat L \<and>
     (code = 0 \<longrightarrow> k = unat L \<and> bp' = bp) \<and>
     (case bp of None \<Rightarrow> code \<noteq> incomplete \<and> bp' = None
      | Some n \<Rightarrow> code = 0 \<or> code = incomplete \<and> k < unat L \<and> bp' = Some (n + b + of_nat k)))"

lemma rw_post_other: "rw_post mv xfer p L b bp (ev s t) r \<Longrightarrow> quiet fifo t \<Longrightarrow> rw_post mv xfer p L b bp s r"
  unfolding rw_post_def by (auto intro: moved.other)

lemma rw_post_byte:
  assumes "rw_post mv xfer (mv p) (L - 1) (b + 1) bp (xfer p s) r" "L \<noteq> 0"
  shows "rw_post mv xfer p L b bp s r"
proof -
  have L: "unat L = Suc (unat (L - 1))" using assms(2) unat_pred_word [of L] by (simp add: unat_gt_0)
  obtain code bp' s' k where k: "r = (code, bp', s')" "moved fifo mv xfer k (mv p) (xfer p s) s'" "k \<le> unat (L - 1)"
      "code = 0 \<longrightarrow> k = unat (L - 1) \<and> bp' = bp"
      "case bp of None \<Rightarrow> code \<noteq> incomplete \<and> bp' = None
        | Some n \<Rightarrow> code = 0 \<or> code = incomplete \<and> k < unat (L - 1) \<and> bp' = Some (n + (b + 1) + of_nat k)"
    using assms(1) unfolding rw_post_def by auto
  then show ?thesis
    unfolding rw_post_def using L
    by (auto intro!: exI [of _ "Suc k"] moved.byte simp: algebra_simps split: option.splits)
qed

lemma rw_post_none: "rw_post mv xfer p 0 b bp s (0, bp, s)"
  using incomplete_error by (auto simp: rw_post_def split: option.splits intro: moved.none)

lemma rw_post_interrupted:
  assumes "L \<noteq> 0" "quiet fifo t"
  shows "rw_post mv xfer p L b (Some n) s (incomplete, Some (n + b), ev s t)"
    and "e \<noteq> 0 \<Longrightarrow> e \<noteq> incomplete \<Longrightarrow> rw_post mv xfer p L b None s (e, None, ev s t)"
  using assms incomplete_error by (auto simp: rw_post_def unat_gt_0 intro!: exI [of _ 0] moved_quiet)

text \<open>One round of the loop, whatever the rest of the loop does.\<close>

lemma rw_round:
  assumes "\<And>p L b s. always (rw_post mv xfer p L b bp s) (F p L b s)"
  shows "always (rw_post mv xfer p L b bp s) (if L \<noteq> 0 then let (allowed, s) = rwa s
      in if \<not> allowed then clr s \<bind> (\<lambda>s. case bp of Some n \<Rightarrow> Some (incomplete, Some (n + b), s)
           | None \<Rightarrow> wait s \<bind> (\<lambda>(ErrorCode, s). if ErrorCode \<noteq> 0 then Some (ErrorCode, bp, s) else F p L b s))
         else F (mv p) (L - 1) (b + 1) (xfer p s)
    else Some (0, bp, s))"
proof (cases "L = 0")
  case True
  then show ?thesis by (simp add: rw_post_none)
next
  case L: False
  obtain allowed t where t: "rwa s = (allowed, ev s t)" "quiet fifo t" using rwa_quiet by blast
  have byte: "always (rw_post mv xfer p L b bp s) (F (mv p) (L - 1) (b + 1) (xfer p (ev s t)))"
    by (rule always_mono [OF assms]) (use L t(2) in \<open>blast intro: rw_post_byte rw_post_other\<close>)
  have stop: "always (rw_post mv xfer p L b bp s) (clr (ev s t) \<bind> (\<lambda>s. case bp of Some n \<Rightarrow> Some (incomplete, Some (n + b), s)
      | None \<Rightarrow> wait s \<bind> (\<lambda>(ErrorCode, s). if ErrorCode \<noteq> 0 then Some (ErrorCode, bp, s) else F p L b s)))"
  proof (rule always_bind [OF clr_quiet], elim exE conjE)
    fix s1 u assume s1: "s1 = ev (ev s t) u" "quiet fifo u"
    show "always (rw_post mv xfer p L b bp s) (case bp of Some n \<Rightarrow> Some (incomplete, Some (n + b), s1)
      | None \<Rightarrow> wait s1 \<bind> (\<lambda>(ErrorCode, s). if ErrorCode \<noteq> 0 then Some (ErrorCode, bp, s) else F p L b s))"
    proof (cases bp)
      case (Some n)
      with s1 t(2) L show ?thesis by (simp add: rw_post_interrupted(1))
    next
      case None
      have "always (rw_post mv xfer p L b bp s) (wait s1 \<bind> (\<lambda>(ErrorCode, s). if ErrorCode \<noteq> 0 then Some (ErrorCode, bp, s) else F p L b s))"
      proof (rule always_bind [OF wait_quiet], clarify)
        fix e v assume e: "e \<noteq> incomplete" "quiet fifo v"
        have "always (rw_post mv xfer p L b bp s) (F p L b (ev s1 v))"
          by (rule always_mono [OF assms]) (use s1 e t(2) in \<open>simp, blast intro: rw_post_other quiet_simps(2) [THEN iffD2]\<close>)
        with s1 e t(2) L None show "always (rw_post mv xfer p L b bp s) (if e \<noteq> 0 then Some (e, bp, ev s1 v) else F p L b (ev s1 v))"
          by (simp add: rw_post_interrupted(2))
      qed
      with None show ?thesis by simp
    qed
  qed
  show ?thesis using L t(1) byte stop by simp
qed

lemma rw_loop_meaning: "always (rw_post mv xfer p L b bp s) (rw_loop rwa clr wait incomplete mv xfer p L b bp s)"
proof -
  have "rw_post mv xfer p L b bp s r" if ret: "rw_loop rwa clr wait incomplete mv xfer p L b bp s = Some r" for r
  proof -
    let ?same = "\<lambda>rwa' clr' wait' inc' mv' xfer'. rwa' = rwa \<and> clr' = clr \<and> wait' = wait \<and> inc' = incomplete \<and> mv' = mv \<and> xfer' = xfer"
    have "?same rwa clr wait incomplete mv xfer \<longrightarrow> rw_post mv xfer p L b bp s r"
    proof (rule rw_loop.raw_induct [where P = "\<lambda>rwa' clr' wait' inc' mv' xfer' p L b bp s r.
          ?same rwa' clr' wait' inc' mv' xfer' \<longrightarrow> rw_post mv xfer p L b bp s r", OF _ ret])
      fix F rwa' clr' wait' inc' mv' xfer' p L b bp s r
      assume "\<And>rwa' clr' wait' inc' mv' xfer' p L b bp s r. F rwa' clr' wait' inc' mv' xfer' p L b bp s = Some r \<Longrightarrow>
          ?same rwa' clr' wait' inc' mv' xfer' \<longrightarrow> rw_post mv xfer p L b bp s r"
        and body: "(if L \<noteq> 0 then let (allowed, s) = rwa' s
           in if \<not> allowed then clr' s \<bind> (\<lambda>s. case bp of Some n \<Rightarrow> Some (inc', Some (n + b), s)
                | None \<Rightarrow> wait' s \<bind> (\<lambda>(ErrorCode, s). if ErrorCode \<noteq> 0 then Some (ErrorCode, bp, s)
                    else F rwa' clr' wait' inc' mv' xfer' p L b bp s))
              else F rwa' clr' wait' inc' mv' xfer' (mv' p) (L - 1) (b + 1) bp (xfer' p s)
         else Some (0, bp, s)) = Some r"
      then have IH: "always (rw_post mv xfer p L b bp s) (F rwa clr wait incomplete mv xfer p L b bp s)" for p L b bp s
        by (auto simp: always_def)
      have "always (rw_post mv xfer p L b bp s) (if L \<noteq> 0 then let (allowed, s) = rwa s
          in if \<not> allowed then clr s \<bind> (\<lambda>s. case bp of Some n \<Rightarrow> Some (incomplete, Some (n + b), s)
               | None \<Rightarrow> wait s \<bind> (\<lambda>(ErrorCode, s). if ErrorCode \<noteq> 0 then Some (ErrorCode, bp, s)
                   else F rwa clr wait incomplete mv xfer p L b bp s))
             else F rwa clr wait incomplete mv xfer (mv p) (L - 1) (b + 1) bp (xfer p s)
        else Some (0, bp, s))"
        using IH by (rule rw_round)
      with body show "?same rwa' clr' wait' inc' mv' xfer' \<longrightarrow> rw_post mv xfer p L b bp s r"
        by (auto dest: alwaysD)
    qed
    then show ?thesis by simp
  qed
  then show ?thesis by (simp add: always_def)
qed

text \<open>A call with a byte counter, after the preparation \<open>u\<close>.\<close>

lemma call_resumes:
  assumes "quiet fifo u" "unat n \<le> unat L" "adv n p = (mv ^^ unat n) p"
  shows "always (resumes fifo incomplete mv xfer p L n s) (wait (ev s u) \<bind> (\<lambda>(e, s). if e \<noteq> 0 then Some (e, Some n, s)
    else rw_loop rwa clr wait incomplete mv xfer (adv n p) (L - n) 0 (Some n) s))"
proof (rule always_bind [OF wait_quiet], clarify)
  fix e v assume e: "e \<noteq> incomplete" "quiet fifo v"
  have L: "unat (L - n) = unat L - unat n" using assms(2) by (simp add: unat_sub word_le_nat_alt)
  have m: "moved fifo mv xfer k q s s'" if "moved fifo mv xfer k q (ev (ev s u) v) s'" for k q s'
    using that assms(1) e(2) by (auto intro: moved.other [of _ "u @ v"])
  have "always (resumes fifo incomplete mv xfer p L n s) (rw_loop rwa clr wait incomplete mv xfer (adv n p) (L - n) 0 (Some n) (ev (ev s u) v))"
    by (rule always_mono [OF rw_loop_meaning]) (use L m incomplete_error assms(3) in \<open>auto simp: rw_post_def resumes_def\<close>)
  moreover have "resumes fifo incomplete mv xfer p L n s (e, Some n, ev (ev s u) v)" if "e \<noteq> 0"
    using that e m moved.none by (fastforce simp: resumes_def intro!: exI [of _ 0])
  ultimately show "always (resumes fifo incomplete mv xfer p L n s) (if e \<noteq> 0 then Some (e, Some n, ev (ev s u) v)
      else rw_loop rwa clr wait incomplete mv xfer (adv n p) (L - n) 0 (Some n) (ev (ev s u) v))" by simp
qed

end

text \<open>The ports of the driver: a pipe in either direction, and an endpoint of a build that serves requests by interrupt.\<close>

lemma Pipe_WaitUntilReady_quiet:
  "always (\<lambda>(e, s'). e \<noteq> PIPE_RWSTREAM_IncompleteTransfer \<and> (\<exists>t. s' = ev s t \<and> quiet UPDATX t)) (Pipe_WaitUntilReady s)"
  unfolding Pipe_WaitUntilReady_def USB_Host_GetFrameNumber_def Let_def
  by (intro io_vcg always_mono [OF pipe_wait_meaning]) (auto simp: pipe_post_def pipe_verdict_def intro!: quiet_reads)

lemma Endpoint_WaitUntilReady_quiet:
  "always (\<lambda>(e, s'). e \<noteq> ENDPOINT_RWSTREAM_IncompleteTransfer \<and> (\<exists>t. s' = ev s t \<and> quiet UEDATX t)) (Endpoint_WaitUntilReady s)"
  unfolding Endpoint_WaitUntilReady_def USB_Device_GetFrameNumber_def Let_def
  by (intro io_vcg always_mono [OF ready_wait_meaning]) (auto simp: ready_post_def ready_verdict_def intro!: quiet_reads)

interpretation pipe_in: stream_port UPDATX Pipe_IsReadWriteAllowed "\<lambda>s. Some (Pipe_ClearIN s)" Pipe_WaitUntilReady PIPE_RWSTREAM_IncompleteTransfer
  by unfold_locales (simp_all add: Pipe_IsReadWriteAllowed_def Pipe_ClearIN_def io_simps Pipe_WaitUntilReady_quiet)

interpretation pipe_out: stream_port UPDATX Pipe_IsReadWriteAllowed "\<lambda>s. Some (Pipe_ClearOUT s)" Pipe_WaitUntilReady PIPE_RWSTREAM_IncompleteTransfer
  by unfold_locales (simp_all add: Pipe_IsReadWriteAllowed_def Pipe_ClearOUT_def io_simps Pipe_WaitUntilReady_quiet)

interpretation ep_out: stream_port UEDATX Endpoint_IsReadWriteAllowed "\<lambda>s. Some (Endpoint_ClearOUT s)" Endpoint_WaitUntilReady ENDPOINT_RWSTREAM_IncompleteTransfer
  by unfold_locales (simp_all add: Endpoint_IsReadWriteAllowed_def Endpoint_ClearOUT_def io_simps Endpoint_WaitUntilReady_quiet)

interpretation ep_in: stream_port UEDATX Endpoint_IsReadWriteAllowed "\<lambda>s. Some (Endpoint_ClearIN s)" Endpoint_WaitUntilReady ENDPOINT_RWSTREAM_IncompleteTransfer
  by unfold_locales (simp_all add: Endpoint_IsReadWriteAllowed_def Endpoint_ClearIN_def io_simps Endpoint_WaitUntilReady_quiet)

section \<open>The streams\<close>

lemma advance_eq: "le_advance 1 = le_move" "be_advance 1 = be_move"
  by (auto simp: le_advance_def be_advance_def le_move_def be_move_def)

lemma advance_funpow: "le_advance n p = (le_move ^^ unat n) p" "be_advance n p = (be_move ^^ unat n) p"
proof -
  have "(le_move ^^ i) p = p + of_nat i" "(be_move ^^ i) p = p - of_nat i" for i
    by (induction i) (simp_all add: le_move_def be_move_def)
  then show "le_advance n p = (le_move ^^ unat n) p" "be_advance n p = (be_move ^^ unat n) p"
    by (simp_all add: le_advance_def be_advance_def)
qed

lemma ep_hand_over_interrupt: "INTERRUPT_CONTROL_ENDPOINT App \<Longrightarrow> ep_hand_over App clr = (\<lambda>s. Some (clr s))"
  by (simp add: ep_hand_over_def fun_eq_iff)

lemma Template_Endpoint_RW_resumes:
  assumes "INTERRUPT_CONTROL_ENDPOINT App" "unat n \<le> unat L" "\<And>q. adv n q = (adv 1 ^^ unat n) q"
    and "clr \<in> {Endpoint_ClearIN, Endpoint_ClearOUT}"
  shows "always (resumes UEDATX ENDPOINT_RWSTREAM_IncompleteTransfer (adv 1) xfer (B + off L) L n s)
    (Template_Endpoint_RW App clr off adv xfer B L (Some n) s)"
proof -
  have "Template_Endpoint_RW App clr off adv xfer B L (Some n) s = (Endpoint_WaitUntilReady (ev s []) \<bind> (\<lambda>(e, s).
      if e \<noteq> 0 then Some (e, Some n, s) else rw_loop Endpoint_IsReadWriteAllowed (\<lambda>s. Some (clr s)) Endpoint_WaitUntilReady
        ENDPOINT_RWSTREAM_IncompleteTransfer (adv 1) xfer (adv n (B + off L)) (L - n) 0 (Some n) s))"
    by (simp only: Template_Endpoint_RW_def ep_hand_over_interrupt [OF assms(1)] Let_def option.case prod.case ev_simps)
  then show ?thesis
    using assms(4) ep_in.call_resumes [where adv = adv, OF quiet_simps(1) assms(2,3)] ep_out.call_resumes [where adv = adv, OF quiet_simps(1) assms(2,3)]
    by auto
qed

lemma Template_Pipe_RW_resumes:
  assumes "unat n \<le> unat L" "\<And>q. adv n q = (adv 1 ^^ unat n) q" and "clr \<in> {Pipe_ClearIN, Pipe_ClearOUT}"
  shows "always (resumes UPDATX PIPE_RWSTREAM_IncompleteTransfer (adv 1) xfer (B + off L) L n s)
    (Template_Pipe_RW token clr off adv xfer B L (Some n) s)"
proof -
  obtain u where u: "Pipe_SetPipeToken token s = ev s u" "quiet UPDATX u"
    by (simp add: Pipe_SetPipeToken_def io_simps)
  then have "Template_Pipe_RW token clr off adv xfer B L (Some n) s = (Pipe_WaitUntilReady (ev s u) \<bind> (\<lambda>(e, s).
      if e \<noteq> 0 then Some (e, Some n, s) else rw_loop Pipe_IsReadWriteAllowed (\<lambda>s. Some (clr s)) Pipe_WaitUntilReady
        PIPE_RWSTREAM_IncompleteTransfer (adv 1) xfer (adv n (B + off L)) (L - n) 0 (Some n) s))"
    by (simp only: Template_Pipe_RW_def Let_def option.case prod.case)
  then show ?thesis
    using assms(3) pipe_in.call_resumes [where adv = adv, OF u(2) assms(1,2)] pipe_out.call_resumes [where adv = adv, OF u(2) assms(1,2)]
    by auto
qed

text \<open>
  The twelve streams that send a buffer and the eight that fill one, each with its FIFO, its code for an incomplete
  transfer, the register its timeout counts, the memory of the buffer and whether it goes backwards.
\<close>

type_synonym stream = "u16 \<Rightarrow> u16 \<Rightarrow> u16 option \<Rightarrow> usb_st \<Rightarrow> outcome"

definition data_writers :: "usb_app \<Rightarrow> (stream \<times> vloc \<times> u8 \<times> vloc \<times> (usb_st \<Rightarrow> u16 \<Rightarrow> u8) \<times> bool) set" where
  "data_writers App =
    {(Endpoint_Write_Stream_LE App, UEDATX, ENDPOINT_RWSTREAM_IncompleteTransfer, UDFNUM, ram, False),
     (Endpoint_Write_Stream_BE App, UEDATX, ENDPOINT_RWSTREAM_IncompleteTransfer, UDFNUM, ram, True),
     (Endpoint_Write_PStream_LE App, UEDATX, ENDPOINT_RWSTREAM_IncompleteTransfer, UDFNUM, flash, False),
     (Endpoint_Write_PStream_BE App, UEDATX, ENDPOINT_RWSTREAM_IncompleteTransfer, UDFNUM, flash, True),
     (Endpoint_Write_EStream_LE App, UEDATX, ENDPOINT_RWSTREAM_IncompleteTransfer, UDFNUM, eeprom, False),
     (Endpoint_Write_EStream_BE App, UEDATX, ENDPOINT_RWSTREAM_IncompleteTransfer, UDFNUM, eeprom, True),
     (Pipe_Write_Stream_LE, UPDATX, PIPE_RWSTREAM_IncompleteTransfer, UHFNUM, ram, False),
     (Pipe_Write_Stream_BE, UPDATX, PIPE_RWSTREAM_IncompleteTransfer, UHFNUM, ram, True),
     (Pipe_Write_PStream_LE, UPDATX, PIPE_RWSTREAM_IncompleteTransfer, UHFNUM, flash, False),
     (Pipe_Write_PStream_BE, UPDATX, PIPE_RWSTREAM_IncompleteTransfer, UHFNUM, flash, True),
     (Pipe_Write_EStream_LE, UPDATX, PIPE_RWSTREAM_IncompleteTransfer, UHFNUM, eeprom, False),
     (Pipe_Write_EStream_BE, UPDATX, PIPE_RWSTREAM_IncompleteTransfer, UHFNUM, eeprom, True)}"

definition data_readers :: "usb_app \<Rightarrow> (stream \<times> vloc \<times> u8 \<times> vloc \<times> (((u16 \<Rightarrow> u8) \<Rightarrow> u16 \<Rightarrow> u8) \<Rightarrow> usb_st \<Rightarrow> usb_st) \<times> bool) set" where
  "data_readers App =
    {(Endpoint_Read_Stream_LE App, UEDATX, ENDPOINT_RWSTREAM_IncompleteTransfer, UDFNUM, ram_update, False),
     (Endpoint_Read_Stream_BE App, UEDATX, ENDPOINT_RWSTREAM_IncompleteTransfer, UDFNUM, ram_update, True),
     (Endpoint_Read_EStream_LE App, UEDATX, ENDPOINT_RWSTREAM_IncompleteTransfer, UDFNUM, eeprom_update, False),
     (Endpoint_Read_EStream_BE App, UEDATX, ENDPOINT_RWSTREAM_IncompleteTransfer, UDFNUM, eeprom_update, True),
     (Pipe_Read_Stream_LE, UPDATX, PIPE_RWSTREAM_IncompleteTransfer, UHFNUM, ram_update, False),
     (Pipe_Read_Stream_BE, UPDATX, PIPE_RWSTREAM_IncompleteTransfer, UHFNUM, ram_update, True),
     (Pipe_Read_EStream_LE, UPDATX, PIPE_RWSTREAM_IncompleteTransfer, UHFNUM, eeprom_update, False),
     (Pipe_Read_EStream_BE, UPDATX, PIPE_RWSTREAM_IncompleteTransfer, UHFNUM, eeprom_update, True)}"

lemmas data_stream_defs =
  Endpoint_Write_Stream_LE_def Endpoint_Write_Stream_BE_def Endpoint_Write_PStream_LE_def Endpoint_Write_PStream_BE_def
  Endpoint_Write_EStream_LE_def Endpoint_Write_EStream_BE_def Endpoint_Read_Stream_LE_def Endpoint_Read_Stream_BE_def
  Endpoint_Read_EStream_LE_def Endpoint_Read_EStream_BE_def
  Pipe_Write_Stream_LE_def Pipe_Write_Stream_BE_def Pipe_Write_PStream_LE_def Pipe_Write_PStream_BE_def
  Pipe_Write_EStream_LE_def Pipe_Write_EStream_BE_def Pipe_Read_Stream_LE_def Pipe_Read_Stream_BE_def
  Pipe_Read_EStream_LE_def Pipe_Read_EStream_BE_def

definition stream_move :: "bool \<Rightarrow> u16 \<Rightarrow> u16" where "stream_move be = (if be then be_move else le_move)"
definition stream_start :: "bool \<Rightarrow> u16 \<Rightarrow> u16 \<Rightarrow> u16" where
  "stream_start be B L = B + (if be then be_offset L else le_offset L)"

lemmas template_resumes =
  Template_Endpoint_RW_resumes [where adv = le_advance, unfolded advance_eq, OF _ _ advance_funpow(1)]
  Template_Endpoint_RW_resumes [where adv = be_advance, unfolded advance_eq, OF _ _ advance_funpow(2)]
  Template_Pipe_RW_resumes [where adv = le_advance, unfolded advance_eq, OF _ advance_funpow(1)]
  Template_Pipe_RW_resumes [where adv = be_advance, unfolded advance_eq, OF _ advance_funpow(2)]

lemma transfer_writes:
  "\<forall>p s. write_ram p s = ev s [Wr UEDATX (ucast (ram s p))]" "\<forall>p s. write_flash p s = ev s [Wr UEDATX (ucast (flash s p))]"
  "\<forall>p s. write_eeprom p s = ev s [Wr UEDATX (ucast (eeprom s p))]"
  "\<forall>p s. pipe_write_ram p s = ev s [Wr UPDATX (ucast (ram s p))]" "\<forall>p s. pipe_write_flash p s = ev s [Wr UPDATX (ucast (flash s p))]"
  "\<forall>p s. pipe_write_eeprom p s = ev s [Wr UPDATX (ucast (eeprom s p))]"
  by (simp_all add: write_ram_def write_flash_def write_eeprom_def pipe_write_ram_def pipe_write_flash_def pipe_write_eeprom_def
      Endpoint_Write_8_def Pipe_Write_8_def io_simps)

lemma transfer_reads:
  "\<forall>p s. read_ram p s = (let (b, s) = rd8 UEDATX s in ram_update (\<lambda>m. m(p := b)) s)"
  "\<forall>p s. read_eeprom p s = (let (b, s) = rd8 UEDATX s in eeprom_update (\<lambda>m. m(p := b)) s)"
  "\<forall>p s. pipe_read_ram p s = (let (b, s) = rd8 UPDATX s in ram_update (\<lambda>m. m(p := b)) s)"
  "\<forall>p s. pipe_read_eeprom p s = (let (b, s) = rd8 UPDATX s in eeprom_update (\<lambda>m. m(p := b)) s)"
  by (simp_all add: read_ram_def read_eeprom_def pipe_read_ram_def pipe_read_eeprom_def Endpoint_Read_8_def Pipe_Read_8_def io_simps)

lemma data_writers_resume:
  assumes "(f, fifo, incomplete, fnum, mem, be) \<in> data_writers App" "INTERRUPT_CONTROL_ENDPOINT App"
  shows "\<exists>xfer. (\<forall>p s. xfer p s = ev s [Wr fifo (ucast (mem s p))]) \<and> (\<forall>s t. mem (ev s t) = mem s) \<and>
    (\<forall>n s. unat n \<le> unat L \<longrightarrow> always (resumes fifo incomplete (stream_move be) xfer (stream_start be B L) L n s) (f B L (Some n) s))"
  using assms(1) unfolding data_writers_def insert_iff empty_iff prod.inject
  by - (elim disjE conjE FalseE; simp only: data_stream_defs stream_move_def stream_start_def if_True if_False;
      (rule exI, rule conjI, rule transfer_writes, rule conjI, simp, intro allI impI template_resumes assms(2) insertI1 insertI2, assumption))

lemma data_readers_resume:
  assumes "(f, fifo, incomplete, fnum, upd, be) \<in> data_readers App" "INTERRUPT_CONTROL_ENDPOINT App"
  shows "\<exists>xfer. (\<forall>p s. xfer p s = (let (b, s) = rd8 fifo s in upd (\<lambda>m. m(p := b)) s)) \<and>
    memory_update upd \<and>
    (\<forall>n s. unat n \<le> unat L \<longrightarrow> always (resumes fifo incomplete (stream_move be) xfer (stream_start be B L) L n s) (f B L (Some n) s))"
  using assms(1) unfolding data_readers_def insert_iff empty_iff prod.inject
  by - (elim disjE conjE FalseE; simp only: data_stream_defs stream_move_def stream_start_def if_True if_False;
      (rule exI, rule conjI, rule transfer_reads, rule conjI, simp add: memory_update_def ev_def comp_def, intro allI impI template_resumes assms(2) insertI1 insertI2, assumption))

lemma stream_message: "message mem (stream_move be) (stream_start be B L) (unat L) = buffer_bytes mem be B L"
  by (cases be) (simp_all only: stream_move_def stream_start_def buffer_bytes_def message_be message_le le_offset_def
      add_0_right Let_def if_True if_False)

text \<open>
  C27. Sending a buffer with interruptions. An application that calls a write stream with a byte counter that starts
  at 0, and calls it again with the same arguments while it reports an incomplete transfer, sends the bytes of
  the buffer in order, none twice and none left out, whatever the hardware, the host and the device do and
  whatever else the application does with other registers in between; if the last call reports success, exactly
  the whole buffer has been sent. This holds for the streams over endpoints (in builds that serve control
  requests by interrupt) and over pipes, for RAM, flash and EEPROM and for both byte orders.
\<close>

theorem Write_Stream_resumable:
  assumes "(f, fifo, incomplete, fnum, mem, backwards) \<in> data_writers App" and "INTERRUPT_CONTROL_ENDPOINT App"
    and "resumed fifo incomplete (f Buffer Length) 0 s code s'"
  shows "\<exists>t. s' = ev s t \<and> prefix (writes fifo t) (buffer_bytes (mem s) backwards Buffer Length) \<and>
    (code = 0 \<longrightarrow> writes fifo t = buffer_bytes (mem s) backwards Buffer Length)"
proof -
  let ?mv = "stream_move backwards" and ?p = "stream_start backwards Buffer Length"
  obtain xfer where x: "\<And>p s. xfer p s = ev s [Wr fifo (ucast (mem s p))]" "\<And>s t. mem (ev s t) = mem s"
      "\<And>n s. unat n \<le> unat Length \<Longrightarrow> always (resumes fifo incomplete ?mv xfer ?p Length n s) (f Buffer Length (Some n) s)"
    using data_writers_resume [OF assms(1,2), where L = Length and B = Buffer] by blast
  obtain k where k: "moved fifo ?mv xfer k ?p s s'" "k \<le> unat Length" "code = 0 \<longrightarrow> k = unat Length"
    using resumed_moved [OF assms(3) _ x(3)] by auto
  have m: "message (mem s) ?mv ?p (unat Length) = message (mem s) ?mv ?p k @ message (mem s) ?mv ((?mv ^^ k) ?p) (unat Length - k)"
    using k(2) message_add [of "mem s" ?mv ?p k "unat Length - k"] by simp
  from moved_writes [OF k(1) x(1,2)] k(3) show ?thesis
    unfolding stream_message [symmetric] m by auto
qed

text \<open>
  A device that takes two bytes, is then not ready once, and takes the rest: the sample application is served by
  interrupts and has the bytes 1, 2, 3 in memory.
\<close>

definition interrupt_app :: usb_app where
  "interrupt_app = (quiet_app 18 0)\<lparr>INTERRUPT_CONTROL_ENDPOINT := True\<rparr>"

definition slow_device :: usb_st where
  "slow_device = (boot_st (\<lambda>t l. if l = UPINTX then (if length (writes UPDATX t) = 2 \<and> writes UPINTX t = [] then 0xDF else 0xFF)
     else 0x10))\<lparr>ram := (\<lambda>a. ucast a + 1)\<rparr>"

lemma slow_device_calls:
  "\<exists>s'. resumed UPDATX PIPE_RWSTREAM_IncompleteTransfer (Pipe_Write_Stream_LE 0 3) 0 slow_device 0 s'"
proof -
  let ?f = "Pipe_Write_Stream_LE 0 3"
  have "case ?f (Some 0) slow_device of None \<Rightarrow> False | Some (c, m, s1) \<Rightarrow> c = 4 \<and> m = Some 2 \<and>
      (case ?f m s1 of None \<Rightarrow> False | Some (c, m, s2) \<Rightarrow> c = 0)"
    by code_simp
  then obtain s1 m' s2 where c: "?f (Some 0) slow_device = Some (4, Some 2, s1)" "?f (Some 2) s1 = Some (0, m', s2)"
    by (auto split: option.splits prod.splits)
  have "resumed UPDATX PIPE_RWSTREAM_IncompleteTransfer ?f 2 s1 0 s2"
    using c(2) by (rule resumed.last) simp
  with c(1) have "resumed UPDATX PIPE_RWSTREAM_IncompleteTransfer ?f 0 slow_device 0 s2"
    using resumed.again [where t = "[]" and f = ?f and fifo = UPDATX and incomplete = PIPE_RWSTREAM_IncompleteTransfer, OF c(1)] by simp
  then show ?thesis by blast
qed

theorem Write_Stream_resumable_witness:
  "\<exists>t. writes UPDATX t = [1, 2, 3] \<and>
     resumed UPDATX PIPE_RWSTREAM_IncompleteTransfer (Pipe_Write_Stream_LE 0 3) 0 slow_device 0 (ev slow_device t)"
proof -
  obtain s' where r: "resumed UPDATX PIPE_RWSTREAM_IncompleteTransfer (Pipe_Write_Stream_LE 0 3) 0 slow_device 0 s'"
    using slow_device_calls by blast
  have w: "(Pipe_Write_Stream_LE, UPDATX, PIPE_RWSTREAM_IncompleteTransfer, UHFNUM, ram, False) \<in> data_writers interrupt_app"
    by (simp add: data_writers_def)
  have i: "INTERRUPT_CONTROL_ENDPOINT interrupt_app" by (simp add: interrupt_app_def)
  have "buffer_bytes (ram slow_device) False 0 3 = [1, 2, 3]"
    by (simp add: buffer_bytes_def slow_device_def upt_conv_Cons)
  then obtain t where "s' = ev slow_device t" "writes UPDATX t = [1, 2, 3]"
    using Write_Stream_resumable [OF w i r] by metis
  with r show ?thesis by blast
qed

text \<open>
  C28. Filling a buffer with interruptions. An application that calls a read stream with a byte counter that starts at
  0, and calls it again while it reports an incomplete transfer, has in its buffer exactly the bytes taken from
  the FIFO, in the order they were read, from the start of the buffer or (byte-reversed streams) from its end
  downwards, never more than the length of the buffer and, if the last call reports success, exactly that many;
  nothing else in memory changes. This holds for endpoints (in builds that serve control requests by interrupt)
  and pipes, for RAM and EEPROM and for both byte orders.
\<close>

theorem Read_Stream_resumable:
  assumes "(f, fifo, incomplete, fnum, upd, backwards) \<in> data_readers App" and "INTERRUPT_CONTROL_ENDPOINT App"
    and "resumed fifo incomplete (f Buffer Length) 0 s code s'"
  shows "\<exists>t. s' = upd (store (stream_move backwards) (stream_start backwards Buffer Length) (reads fifo t)) (ev s t) \<and>
    length (reads fifo t) \<le> unat Length \<and> (code = 0 \<longrightarrow> length (reads fifo t) = unat Length)"
proof -
  let ?mv = "stream_move backwards" and ?p = "stream_start backwards Buffer Length"
  obtain xfer where x: "\<forall>p s. xfer p s = (let (b, s) = rd8 fifo s in upd (\<lambda>m. m(p := b)) s)" "memory_update upd"
      "\<forall>n s. unat n \<le> unat Length \<longrightarrow> always (resumes fifo incomplete ?mv xfer ?p Length n s) (f Buffer Length (Some n) s)"
    using data_readers_resume [OF assms(1,2), where L = Length and B = Buffer] by (elim exE conjE) (rule that)
  obtain k where k: "moved fifo ?mv xfer k ?p s s'" "k \<le> unat Length" "code = 0 \<longrightarrow> k = unat Length"
    using resumed_moved [where n = 0 and mv = ?mv and xfer = xfer and p = ?p, OF assms(3) _ x(3) [rule_format]] by auto
  obtain t where "s' = upd (store ?mv ?p (reads fifo t)) (ev s t)" "length (reads fifo t) = k"
    using moved_stores [OF k(1) x(1,2)] by (elim exE conjE) (rule that)
  with k(2,3) show ?thesis by (intro exI [of _ t]) simp
qed

theorem Read_Stream_resumable_witness:
  "\<exists>bp s' t. Pipe_Read_Stream_BE 16 2 (Some 0) (boot_st (\<lambda>t l. if l = UPINTX then 0xFF else 0x10)) = Some (0, bp, s') \<and>
     ram s' = store be_move 17 (reads UPDATX t) (\<lambda>_. 0) \<and> length (reads UPDATX t) = 2"
proof -
  let ?s = "boot_st (\<lambda>t l. if l = UPINTX then 0xFF else 0x10)"
  have "map_option fst (Pipe_Read_Stream_BE 16 2 (Some 0) ?s) = Some 0" by code_simp
  then obtain bp s' where s': "Pipe_Read_Stream_BE 16 2 (Some 0) ?s = Some (0, bp, s')" by auto
  then have r: "resumed UPDATX PIPE_RWSTREAM_IncompleteTransfer (Pipe_Read_Stream_BE 16 2) 0 ?s 0 s'" by (rule resumed.last) simp
  have w: "(Pipe_Read_Stream_BE, UPDATX, PIPE_RWSTREAM_IncompleteTransfer, UHFNUM, ram_update, True) \<in> data_readers interrupt_app"
    by (simp add: data_readers_def)
  have i: "INTERRUPT_CONTROL_ENDPOINT interrupt_app" by (simp add: interrupt_app_def)
  obtain t where "s' = ram_update (store (stream_move True) (stream_start True 16 2) (reads UPDATX t)) (ev ?s t)"
      "length (reads UPDATX t) = 2"
    using Read_Stream_resumable [OF w i r] by auto
  then have "ram s' = store be_move 17 (reads UPDATX t) (\<lambda>_. 0)"
    by (simp add: stream_move_def stream_start_def be_offset_def boot_st_def)
  with s' \<open>length (reads UPDATX t) = 2\<close> show ?thesis by blast
qed

section \<open>Every call returns\<close>

text \<open>With a byte counter the loop never waits, so that it always ends.\<close>

lemma rw_loop_returns:
  assumes "\<And>s. returns (\<lambda>_. True) (clr s)"
  shows "returns (\<lambda>_. True) (rw_loop rwa clr wait incomplete mv xfer p L b (Some n) s)"
proof (induction "unat L" arbitrary: p L b s)
  case 0
  then have "L = 0" by (simp add: unat_eq_zero)
  then show ?case by (subst rw_loop.simps) simp
next
  case (Suc j)
  then have L: "L \<noteq> 0" "unat (L - 1) = j" using unat_pred_word [of L] by auto
  have "returns (\<lambda>_. True) (clr s \<bind> (\<lambda>s. Some (incomplete, Some (n + b), s)))" for s
    by (rule returns_bind [OF assms]) simp
  with L Suc.hyps(1) [OF L(2) [symmetric]] show ?case
    by (subst rw_loop.simps) (simp add: case_prod_beta Let_def)
qed

lemma Endpoint_WaitUntilReady_returns:
  "frame_clock UDFNUM N (hw s) \<Longrightarrow> returns (\<lambda>_. True) (Endpoint_WaitUntilReady s)"
  unfolding Endpoint_WaitUntilReady_def USB_Device_GetFrameNumber_def
  by (intro io_vcg) (simp add: ready_poll.loop_returns_start)

lemma Pipe_WaitUntilReady_returns:
  "frame_clock UHFNUM N (hw s) \<Longrightarrow> returns (\<lambda>_. True) (Pipe_WaitUntilReady s)"
  unfolding Pipe_WaitUntilReady_def USB_Host_GetFrameNumber_def
  by (intro io_vcg) (simp add: pipe_poll.loop_returns_start)

lemma Template_Endpoint_RW_returns:
  assumes "INTERRUPT_CONTROL_ENDPOINT App" "frame_clock UDFNUM N (hw s)"
  shows "returns (\<lambda>_. True) (Template_Endpoint_RW App clr off adv xfer B L (Some n) s)"
  unfolding Template_Endpoint_RW_def Let_def ep_hand_over_interrupt [OF assms(1)]
  by (rule returns_bind [OF Endpoint_WaitUntilReady_returns [OF assms(2)]])
     (auto intro!: rw_loop_returns)

lemma Template_Pipe_RW_returns:
  assumes "frame_clock UHFNUM N (hw s)"
  shows "returns (\<lambda>_. True) (Template_Pipe_RW token clr off adv xfer B L (Some n) s)"
proof -
  have "hw (Pipe_SetPipeToken token s) = hw s" by (simp add: Pipe_SetPipeToken_def io_simps)
  with assms have "frame_clock UHFNUM N (hw (Pipe_SetPipeToken token s))" by simp
  then show ?thesis
    unfolding Template_Pipe_RW_def Let_def
    by (intro returns_bind [OF Pipe_WaitUntilReady_returns]) (auto intro!: rw_loop_returns)
qed

definition data_streams :: "usb_app \<Rightarrow> (stream \<times> u8 \<times> vloc) set" where
  "data_streams App = (\<lambda>(f, fifo, incomplete, fnum, mem, be). (f, incomplete, fnum)) ` data_writers App \<union>
     (\<lambda>(f, fifo, incomplete, fnum, upd, be). (f, incomplete, fnum)) ` data_readers App"

lemma data_streams_return:
  assumes "(f, incomplete, fnum) \<in> data_streams App" "INTERRUPT_CONTROL_ENDPOINT App" "frame_clock fnum N (hw s)"
  shows "returns (\<lambda>_. True) (f B L (Some n) s)"
  using assms(1,3) Template_Endpoint_RW_returns [OF assms(2)] Template_Pipe_RW_returns
  by (auto simp: data_streams_def data_writers_def data_readers_def data_stream_defs)

lemma data_streams_resume:
  assumes "(f, incomplete, fnum) \<in> data_streams App" "INTERRUPT_CONTROL_ENDPOINT App" "unat n \<le> unat L"
  shows "\<exists>fifo mv xfer p. always (resumes fifo incomplete mv xfer p L n s) (f B L (Some n) s)"
  using assms(1) unfolding data_streams_def
proof (elim UnE imageE)
  fix x assume "(f, incomplete, fnum) = (case x of (f, fifo, incomplete, fnum, mem, be) \<Rightarrow> (f, incomplete, fnum))" "x \<in> data_writers App"
  then obtain fifo mem be where "(f, fifo, incomplete, fnum, mem, be) \<in> data_writers App" by (cases x) simp
  from data_writers_resume [OF this assms(2), of L B] assms(3) show ?thesis by blast
next
  fix x assume "(f, incomplete, fnum) = (case x of (f, fifo, incomplete, fnum, upd, be) \<Rightarrow> (f, incomplete, fnum))" "x \<in> data_readers App"
  then obtain fifo upd be where "(f, fifo, incomplete, fnum, upd, be) \<in> data_readers App" by (cases x) simp
  from data_readers_resume [OF this assms(2), of L B] assms(3) show ?thesis by (elim exE conjE allE [of _ n] impE) blast+
qed



section \<open>Streams without a buffer\<close>

text \<open>
  The count of the loop without a buffer starts at \<open>BytesProcessed\<close>, that of the transfer loop at 0: they agree if
  \<open>b\<close> bytes have been moved by this call.
\<close>

definition same_count :: "u16 \<Rightarrow> u16 option \<Rightarrow> u16 \<Rightarrow> u16 \<Rightarrow> bool" where
  "same_count L bp BytesInTransfer b \<longleftrightarrow> BytesInTransfer \<le> L \<and> (case bp of None \<Rightarrow> True | Some n \<Rightarrow> BytesInTransfer = n + b)"

lemma same_count_step:
  assumes "same_count L bp c b" "c < L"
  shows "same_count L bp (c + 1) (b + 1)" "L - (c + 1) = L - c - 1"
proof -
  have "c + 1 \<le> L" using assms(2) unat_Suc_word [of c L] by (simp add: word_less_nat_alt word_le_nat_alt)
  then show "same_count L bp (c + 1) (b + 1)" using assms by (auto simp: same_count_def split: option.splits)
qed simp

lemma same_count_more: "same_count L bp c b \<Longrightarrow> L - c \<noteq> 0 \<longleftrightarrow> c < L"
  by (auto simp: same_count_def)

abbreviation (input) "rw_count clr xfer L b bp s \<equiv>
  rw_loop Endpoint_IsReadWriteAllowed (\<lambda>s. Some (clr s)) Endpoint_WaitUntilReady ENDPOINT_RWSTREAM_IncompleteTransfer id (\<lambda>_. xfer) 0 L b bp s"

lemma ep_count_loop_rw:
  assumes "ep_count_loop clr xfer L c bp s = Some r"
  shows "\<forall>b. same_count L bp c b \<longrightarrow> rw_count clr xfer (L - c) b bp s = Some r"
proof (rule ep_count_loop.raw_induct [where P = "\<lambda>clr xfer L c bp s r. \<forall>b. same_count L bp c b \<longrightarrow> rw_count clr xfer (L - c) b bp s = Some r", OF _ assms],
    intro allI impI)
  fix F clr xfer L c bp s r b
  assume IH: "\<And>clr xfer L c bp s r. F clr xfer L c bp s = Some r \<Longrightarrow> \<forall>b. same_count L bp c b \<longrightarrow> rw_count clr xfer (L - c) b bp s = Some r"
    and ret: "(if c < L then let (allowed, s) = Endpoint_IsReadWriteAllowed s in if \<not> allowed then let s = clr s in case bp of
        Some _ \<Rightarrow> Some (ENDPOINT_RWSTREAM_IncompleteTransfer, Some c, s)
      | None \<Rightarrow> Endpoint_WaitUntilReady s \<bind> (\<lambda>(e, s). if e \<noteq> 0 then Some (e, bp, s) else F clr xfer L c bp s)
      else F clr xfer L (c + 1) bp (xfer s) else Some (ENDPOINT_RWSTREAM_NoError, bp, s)) = Some r"
    and c: "same_count L bp c b"
  show "rw_count clr xfer (L - c) b bp s = Some r"
  proof (cases "c < L")
    case False
    with ret same_count_more [OF c] show ?thesis by (subst rw_loop.simps) simp
  next
    case True
    obtain a s1 where a: "Endpoint_IsReadWriteAllowed s = (a, s1)" by fastforce
    have "rw_count clr xfer (L - c) b bp s' = Some r" if "F clr xfer L c bp s' = Some r" for s'
      using IH [OF that] c by blast
    moreover have "rw_count clr xfer (L - c - 1) (b + 1) bp s' = Some r" if "F clr xfer L (c + 1) bp s' = Some r" for s'
      using IH [OF that] same_count_step [OF c True] by auto
    ultimately show ?thesis
      using ret True a c same_count_more [OF c]
      by (subst rw_loop.simps) (auto simp: Let_def same_count_def bind_eq_Some_conv split: if_splits option.splits prod.splits)
  qed
qed

lemma rw_loop_ep_count:
  assumes "rw_count clr xfer L b bp s = Some r"
  shows "\<forall>Length c. same_count Length bp c b \<and> L = Length - c \<longrightarrow> ep_count_loop clr xfer Length c bp s = Some r"
proof -
  let ?same = "\<lambda>rwa' clr' wait' inc' mv' xfer' p. rwa' = Endpoint_IsReadWriteAllowed \<and> clr' = (\<lambda>s. Some (clr s)) \<and>
    wait' = Endpoint_WaitUntilReady \<and> inc' = ENDPOINT_RWSTREAM_IncompleteTransfer \<and> mv' = (id :: u16 \<Rightarrow> u16) \<and> xfer' = (\<lambda>_ :: u16. xfer) \<and> p = (0 :: u16)"
  have "?same Endpoint_IsReadWriteAllowed (\<lambda>s. Some (clr s)) Endpoint_WaitUntilReady ENDPOINT_RWSTREAM_IncompleteTransfer id (\<lambda>_. xfer) (0 :: u16) \<longrightarrow>
      (\<forall>Length c. same_count Length bp c b \<and> L = Length - c \<longrightarrow> ep_count_loop clr xfer Length c bp s = Some r)"
  proof (rule rw_loop.raw_induct [where P = "\<lambda>rwa' clr' wait' inc' mv' xfer' p L b bp s r. ?same rwa' clr' wait' inc' mv' xfer' p \<longrightarrow>
        (\<forall>Length c. same_count Length bp c b \<and> L = Length - c \<longrightarrow> ep_count_loop clr xfer Length c bp s = Some r)", OF _ assms])
    fix F rwa' clr' wait' inc' mv' xfer' and p L b bp s r
    assume hyp: "\<And>rwa' clr' wait' inc' mv' xfer' p L b bp s r. F rwa' clr' wait' inc' mv' xfer' p L b bp s = Some r \<Longrightarrow>
          ?same rwa' clr' wait' inc' mv' xfer' p \<longrightarrow>
          (\<forall>Length c. same_count Length bp c b \<and> L = Length - c \<longrightarrow> ep_count_loop clr xfer Length c bp s = Some r)"
      and body: "(if L \<noteq> 0 then let (allowed, s) = rwa' s
           in if \<not> allowed then clr' s \<bind> (\<lambda>s. case bp of Some n \<Rightarrow> Some (inc', Some (n + b), s)
                | None \<Rightarrow> wait' s \<bind> (\<lambda>(ErrorCode, s). if ErrorCode \<noteq> 0 then Some (ErrorCode, bp, s)
                    else F rwa' clr' wait' inc' mv' xfer' p L b bp s))
              else F rwa' clr' wait' inc' mv' xfer' (mv' p) (L - 1) (b + 1) bp (xfer' p s)
         else Some (0, bp, s)) = Some r"
    show "?same rwa' clr' wait' inc' mv' xfer' p \<longrightarrow>
      (\<forall>Length c. same_count Length bp c b \<and> L = Length - c \<longrightarrow> ep_count_loop clr xfer Length c bp s = Some r)"
    proof (intro impI allI, elim conjE)
      fix Length c
      assume same: "rwa' = Endpoint_IsReadWriteAllowed" "clr' = (\<lambda>s. Some (clr s))" "wait' = Endpoint_WaitUntilReady"
          "inc' = ENDPOINT_RWSTREAM_IncompleteTransfer" "mv' = id" "xfer' = (\<lambda>_. xfer)" "p = 0"
        and c: "same_count Length bp c b" and L: "L = Length - c"
      let ?F = "F Endpoint_IsReadWriteAllowed (\<lambda>s. Some (clr s)) Endpoint_WaitUntilReady ENDPOINT_RWSTREAM_IncompleteTransfer id (\<lambda>_. xfer) 0"
      have stay: "ep_count_loop clr xfer Length c bp s' = Some r" if "?F L b bp s' = Some r" for s'
        using hyp [OF that] c L by blast
      have go: "ep_count_loop clr xfer Length (c + 1) bp s' = Some r" if "?F (L - 1) (b + 1) bp s' = Some r" "c < Length" for s'
        using hyp [OF that(1)] same_count_step [OF c that(2)] L by auto
      obtain a s1 where a: "Endpoint_IsReadWriteAllowed s = (a, s1)" by fastforce
      show "ep_count_loop clr xfer Length c bp s = Some r"
        using body [unfolded same] stay go a c same_count_more [OF c] L
        by (subst ep_count_loop.simps) (auto simp: Let_def same_count_def bind_eq_Some_conv split: if_splits option.splits prod.splits)
    qed
  qed
  then show ?thesis by simp
qed

lemma ep_count_loop_eq: "same_count L bp c b \<Longrightarrow> ep_count_loop clr xfer L c bp s = rw_count clr xfer (L - c) b bp s"
proof (cases "ep_count_loop clr xfer L c bp s")
  case None
  assume c: "same_count L bp c b"
  have "rw_count clr xfer (L - c) b bp s \<noteq> Some r" for r
  proof
    assume "rw_count clr xfer (L - c) b bp s = Some r"
    from rw_loop_ep_count [OF this] c None show False by auto
  qed
  with None show ?thesis by (metis option.exhaust)
next
  case (Some r)
  assume "same_count L bp c b"
  with ep_count_loop_rw [OF Some] Some show ?thesis by simp
qed



end
