(* ===== verification/Class_Transfers.thy ===== *)
theory Class_Transfers
  imports Data_Streams
begin

text \<open>
  What the class drivers of a device share: structures in memory, the guard of a request to an interface, and what a data stream
  does that is called without a byte counter, as bytes that go through the FIFO.
\<close>

section \<open>Structures in memory\<close>

text \<open>Fields of 16 and 32 bits at an address of the RAM, little endian.\<close>

definition ram_u16 :: "u16 \<Rightarrow> usb_st \<Rightarrow> u16" where
  "ram_u16 a s = u16_of_bytes (ram s a) (ram s (a + 1))"

definition ram_u32 :: "u16 \<Rightarrow> usb_st \<Rightarrow> u32" where
  "ram_u32 a s = u32_of_bytes (ram s a) (ram s (a + 1)) (ram s (a + 2)) (ram s (a + 3))"

definition write_ram8 :: "u16 \<Rightarrow> u8 \<Rightarrow> usb_st \<Rightarrow> usb_st" where
  "write_ram8 a v s = s\<lparr>ram := (ram s)(a := v)\<rparr>"

definition write_ram32 :: "u16 \<Rightarrow> u32 \<Rightarrow> usb_st \<Rightarrow> usb_st" where
  "write_ram32 a v s = s\<lparr>ram := (ram s)(a := ucast v, a + 1 := ucast (drop_bit 8 v), a + 2 := ucast (drop_bit 16 v), a + 3 := ucast (drop_bit 24 v))\<rparr>"

text \<open>\<open>memset\<close> with zero, and \<open>memcpy\<close> of a list of bytes.\<close>

definition zero_ram :: "u16 \<Rightarrow> nat \<Rightarrow> usb_st \<Rightarrow> usb_st" where
  "zero_ram a n s = s\<lparr>ram := (\<lambda>x. if unat (x - a) < n then 0 else ram s x)\<rparr>"

definition copy_ram :: "u16 \<Rightarrow> u8 list \<Rightarrow> usb_st \<Rightarrow> usb_st" where
  "copy_ram a bs s = s\<lparr>ram := (\<lambda>x. if unat (x - a) < length bs then bs ! unat (x - a) else ram s x)\<rparr>"

definition mem_bytes :: "(u16 \<Rightarrow> u8) \<Rightarrow> u16 \<Rightarrow> nat \<Rightarrow> u8 list" where
  "mem_bytes m a n = map (\<lambda>i. m (a + of_nat i)) [0..<n]"

section \<open>Requests to an interface\<close>

abbreviation (input) REQDIR_HOSTTODEVICE :: u8 where "REQDIR_HOSTTODEVICE \<equiv> 0"
abbreviation (input) REQTYPE_CLASS :: u8 where "REQTYPE_CLASS \<equiv> 0x20"
abbreviation (input) CLASS_OUT :: u8 where "CLASS_OUT \<equiv> REQDIR_HOSTTODEVICE OR REQTYPE_CLASS OR REQREC_INTERFACE"
abbreviation (input) CLASS_IN :: u8 where "CLASS_IN \<equiv> REQDIR_DEVICETOHOST OR REQTYPE_CLASS OR REQREC_INTERFACE"

text \<open>The two tests every driver starts with: a SETUP packet is there, and it is for this interface.\<close>

definition interface_request :: "u8 \<Rightarrow> ('d \<times> usb_st \<Rightarrow> ('d \<times> usb_st) option) \<Rightarrow> 'd \<times> usb_st \<Rightarrow> ('d \<times> usb_st) option" where
  "interface_request InterfaceNumber body = (\<lambda>(d, s).
     let (setup, s) = Endpoint_IsSETUPReceived s
     in if \<not> setup then Some (d, s)
        else if wIndex (USB_ControlRequest s) \<noteq> ucast InterfaceNumber then Some (d, s)
        else body (d, s))"

section \<open>Bytes through the FIFO\<close>

text \<open>The bytes a run has sent to and taken from the FIFO of the endpoints.\<close>

definition fifo_out :: "io list \<Rightarrow> u8 list" where "fifo_out t = map ucast (writes UEDATX t)"
definition fifo_in :: "io list \<Rightarrow> u8 list" where "fifo_in t = map ucast (reads UEDATX t)"

lemma fifo_simps [simp]:
  "fifo_out [] = []" "fifo_out (t @ u) = fifo_out t @ fifo_out u" "fifo_out (Rd l v # t) = fifo_out t"
  "fifo_out (Wr l v # t) = (if l = UEDATX then ucast v # fifo_out t else fifo_out t)"
  "fifo_in [] = []" "fifo_in (t @ u) = fifo_in t @ fifo_in u" "fifo_in (Wr l v # t) = fifo_in t"
  "fifo_in (Rd l v # t) = (if l = UEDATX then ucast v # fifo_in t else fifo_in t)"
  by (simp_all add: fifo_out_def fifo_in_def)

lemma quiet_fifo: "quiet UEDATX t \<longleftrightarrow> fifo_out t = [] \<and> fifo_in t = []"
  by (auto simp: quiet_def fifo_out_def fifo_in_def)

lemma length_mem_bytes [simp]: "length (mem_bytes m a n) = n"
  by (simp add: mem_bytes_def)

lemma take_mem_bytes: "k \<le> n \<Longrightarrow> take k (mem_bytes m a n) = mem_bytes m a k"
  by (simp add: mem_bytes_def take_map)

lemma le_move_funpow: "(le_move ^^ i) p = p + of_nat i"
  by (induction i) (simp_all add: le_move_def)

lemma message_mem_bytes: "map ucast (message m le_move p n) = mem_bytes m p n"
  by (simp add: message_def mem_bytes_def le_move_funpow)

text \<open>Storing what was read: the bytes are at consecutive addresses and nothing else changes.\<close>

lemma store_le_move:
  assumes "length ws \<le> 2 ^ 16"
  shows "store le_move a ws m x = (if unat (x - a) < length ws then ucast (ws ! unat (x - a)) else m x)"
  using assms
proof (induction ws arbitrary: a m)
  case (Cons w ws)
  have IH: "store le_move (a + 1) ws (m(a := ucast w)) x =
      (if unat (x - (a + 1)) < length ws then ucast (ws ! unat (x - (a + 1))) else (m(a := ucast w)) x)"
    by (rule Cons.IH) (use Cons.prems in simp)
  have mv: "le_move a = a + 1" by (simp add: le_move_def)
  show ?case
  proof (cases "x = a")
    case True
    have "unat (- 1 :: u16) = 65535" by (simp add: unsigned_minus_1_eq_mask mask_eq_exp_minus_1)
    then have "unat (x - (a + 1)) = 65535" using True by simp
    then show ?thesis using Cons.prems IH True by (simp add: mv)
  next
    case False
    then have "x - a \<noteq> 0" by simp
    then have "unat (x - a) = Suc (unat (x - (a + 1)))"
      using unat_pred_word [of "x - a"] by (simp add: unat_gt_0 diff_diff_eq [symmetric])
    then show ?thesis using IH False by (simp add: mv)
  qed
qed simp

definition filled :: "u16 \<Rightarrow> u8 list \<Rightarrow> (u16 \<Rightarrow> u8) \<Rightarrow> u16 \<Rightarrow> u8" where
  "filled a bs m = (\<lambda>x. if unat (x - a) < length bs then bs ! unat (x - a) else m x)"

lemma store_filled: "length ws \<le> 2 ^ 16 \<Longrightarrow> store le_move a ws m = filled a (map ucast ws) m"
  by (auto simp: filled_def fun_eq_iff store_le_move)

lemma filled_Nil [simp]: "filled a [] m = m"
  by (simp add: filled_def)

lemma nth_mem_bytes [simp]: "i < n \<Longrightarrow> mem_bytes m a n ! i = m (a + of_nat i)"
  by (simp add: mem_bytes_def)

lemma unat_offset: "i < 2 ^ 16 \<Longrightarrow> unat (a + of_nat i - (a :: u16)) = i"
  by (simp add: unat_of_nat take_bit_nat_eq_self)

lemma mem_bytes_filled:
  assumes "length bs \<le> 2 ^ 16"
  shows "mem_bytes (filled a bs m) a (length bs) = bs"
proof (rule nth_equalityI)
  fix i assume "i < length (mem_bytes (filled a bs m) a (length bs))"
  then have i: "i < length bs" by simp
  have "unat (a + of_nat i - a) = i" by (rule unat_offset) (use i assms in linarith)
  with i show "mem_bytes (filled a bs m) a (length bs) ! i = bs ! i"
    by (simp only: nth_mem_bytes filled_def if_True)
qed simp

lemma moved_out:
  assumes "moved UEDATX le_move write_ram k p s s'"
  shows "\<exists>t. s' = ev s t \<and> fifo_out t = mem_bytes (ram s) p k \<and> fifo_in t = []"
proof -
  obtain t where "s' = ev s t" "writes UEDATX t = message (ram s) le_move p k" "reads UEDATX t = []"
    using moved_writes [OF assms, of ram] transfer_writes(1) by auto
  then show ?thesis by (auto simp: fifo_out_def fifo_in_def message_mem_bytes)
qed

lemma moved_in:
  assumes "moved UEDATX le_move read_ram k p s s'" "k \<le> 2 ^ 16"
  shows "\<exists>t. s' = ev (s\<lparr>ram := filled p (fifo_in t) (ram s)\<rparr>) t \<and> length (fifo_in t) = k \<and> fifo_out t = []"
proof -
  have "memory_update ram_update" by (simp add: memory_update_def ev_def comp_def)
  then obtain t where "s' = ram_update (store le_move p (reads UEDATX t)) (ev s t)" "length (reads UEDATX t) = k" "writes UEDATX t = []"
    using moved_stores [OF assms(1) transfer_reads(1)] by blast
  then show ?thesis
    using assms(2) by (intro exI [of _ t]) (simp add: fifo_in_def fifo_out_def store_filled ev_def)
qed

text \<open>A stream without a byte counter runs to its end or to an error.\<close>

lemma Template_Endpoint_RW_null:
  assumes "INTERRUPT_CONTROL_ENDPOINT App" "clr \<in> {Endpoint_ClearIN, Endpoint_ClearOUT}"
  shows "always (\<lambda>(code, bp, s'). bp = None \<and> (\<exists>k. moved UEDATX (adv 1) xfer k (B + off L) s s' \<and> k \<le> unat L \<and> (code = 0 \<longrightarrow> k = unat L)))
    (Template_Endpoint_RW App clr off adv xfer B L None s)"
proof -
  let ?Q = "\<lambda>(code, bp, s'). bp = None \<and> (\<exists>k. moved UEDATX (adv 1) xfer k (B + off L) s s' \<and> k \<le> unat L \<and> (code = 0 \<longrightarrow> k = unat L))"
  let ?loop = "rw_loop Endpoint_IsReadWriteAllowed (\<lambda>s. Some (clr s)) Endpoint_WaitUntilReady ENDPOINT_RWSTREAM_IncompleteTransfer
    (adv 1) xfer (B + off L) L 0 None"
  have loop: "always (ep_in.rw_post (adv 1) xfer (B + off L) L 0 None s1) (?loop s1)" for s1
    using assms(2) ep_in.rw_loop_meaning ep_out.rw_loop_meaning by auto
  have "always ?Q (Endpoint_WaitUntilReady s \<bind> (\<lambda>(e, s). if e \<noteq> 0 then Some (e, None, s) else ?loop s))"
  proof (rule always_bind [OF Endpoint_WaitUntilReady_quiet], clarify)
    fix e :: u8 and t assume t: "quiet UEDATX t"
    have "always ?Q (?loop (ev s t))"
      by (rule always_mono [OF loop]) (use t in \<open>auto simp: ep_in.rw_post_def intro: moved.other\<close>)
    moreover have "?Q (e, None, ev s t)" if "e \<noteq> 0" using that by (auto intro!: exI [of _ 0] moved_quiet [OF t])
    ultimately show "always ?Q (if e \<noteq> 0 then Some (e, None, ev s t) else ?loop (ev s t))" by simp
  qed
  then show ?thesis
    by (simp only: Template_Endpoint_RW_def ep_hand_over_interrupt [OF assms(1)] Let_def option.case prod.case)
qed

lemma Endpoint_Write_Stream_LE_null:
  assumes "INTERRUPT_CONTROL_ENDPOINT App"
  shows "always (\<lambda>(code, bp, s'). \<exists>t k. s' = ev s t \<and> fifo_out t = mem_bytes (ram s) B k \<and> fifo_in t = [] \<and> k \<le> unat L \<and>
    (code = 0 \<longrightarrow> k = unat L)) (Endpoint_Write_Stream_LE App B L None s)"
  unfolding Endpoint_Write_Stream_LE_def
  by (rule always_mono [OF Template_Endpoint_RW_null [OF assms insertI1]])
     (clarsimp simp: advance_eq le_offset_def, drule moved_out, blast)

lemma Endpoint_Read_Stream_LE_null:
  assumes "INTERRUPT_CONTROL_ENDPOINT App"
  shows "always (\<lambda>(code, bp, s'). \<exists>t. s' = ev (s\<lparr>ram := filled B (fifo_in t) (ram s)\<rparr>) t \<and> fifo_out t = [] \<and>
    length (fifo_in t) \<le> unat L \<and> (code = 0 \<longrightarrow> length (fifo_in t) = unat L)) (Endpoint_Read_Stream_LE App B L None s)"
proof -
  have L: "unat L < 2 ^ 16" using unsigned_less [of L] by simp
  have "always (\<lambda>(code, bp, s'). bp = None \<and> (\<exists>k. moved UEDATX le_move read_ram k B s s' \<and> k \<le> unat L \<and> (code = 0 \<longrightarrow> k = unat L)))
      (Endpoint_Read_Stream_LE App B L None s)"
    unfolding Endpoint_Read_Stream_LE_def
    using Template_Endpoint_RW_null [OF assms, of Endpoint_ClearOUT le_advance read_ram B le_offset L s]
    by (simp add: advance_eq le_offset_def)
  then show ?thesis
  proof (rule always_mono, clarify)
    fix code s' k assume k: "moved UEDATX le_move read_ram k B s s'" "k \<le> unat L" "code = (0 :: u8) \<longrightarrow> k = unat L"
    have "k \<le> 2 ^ 16" using L k(2) by simp
    from moved_in [OF k(1) this] k(2,3) show "\<exists>t. s' = ev (s\<lparr>ram := filled B (fifo_in t) (ram s)\<rparr>) t \<and> fifo_out t = [] \<and>
        length (fifo_in t) \<le> unat L \<and> (code = 0 \<longrightarrow> length (fifo_in t) = unat L)" by metis
  qed
qed

lemma Endpoint_Null_Stream_null:
  "always (\<lambda>(code, bp, s'). \<exists>t k. s' = ev s t \<and> fifo_out t = replicate k 0 \<and> fifo_in t = [] \<and> k \<le> unat L \<and>
    (code = 0 \<longrightarrow> k = unat L)) (Endpoint_Null_Stream L None s)"
proof -
  let ?Q = "\<lambda>(code, bp, s'). \<exists>t k. s' = ev s t \<and> fifo_out t = replicate k 0 \<and> fifo_in t = [] \<and> k \<le> unat L \<and> (code = 0 \<longrightarrow> k = unat L)"
  let ?loop = "rw_count Endpoint_ClearIN (Endpoint_Write_8 0) L 0 None"
  have out: "\<exists>t. s' = ev s1 t \<and> fifo_out t = replicate k 0 \<and> fifo_in t = []"
    if "moved UEDATX id (\<lambda>_. Endpoint_Write_8 0) k 0 s1 s'" for k s1 s'
    using moved_writes [OF that, of "\<lambda>_ _. 0"]
    by (auto simp: Endpoint_Write_8_def io_simps fifo_out_def fifo_in_def message_def map_replicate_const)
  have loop: "always ?Q (?loop (ev s t))" if t: "quiet UEDATX t" for t
  proof (rule always_mono [OF ep_in.rw_loop_meaning], clarsimp simp: ep_in.rw_post_def)
    fix code s' k assume k: "moved UEDATX id (\<lambda>_. Endpoint_Write_8 0) k 0 (ev s t) s'" "k \<le> unat L" "code = (0 :: u8) \<longrightarrow> k = unat L"
    from out [OF k(1)] obtain u where "s' = ev s (t @ u)" "fifo_out u = replicate k 0" "fifo_in u = []" by auto
    with t k(2,3) show "\<exists>t. s' = ev s t \<and> (\<exists>k. fifo_out t = replicate k 0 \<and> fifo_in t = [] \<and> k \<le> unat L \<and> (code = 0 \<longrightarrow> k = unat L))"
      by (intro exI [of _ "t @ u"]) (auto simp: quiet_fifo)
  qed
  have "always ?Q (Endpoint_WaitUntilReady s \<bind> (\<lambda>(e, s). if e \<noteq> 0 then Some (e, None, s) else ?loop s))"
  proof (rule always_bind [OF Endpoint_WaitUntilReady_quiet], clarify)
    fix e :: u8 and t assume t: "quiet UEDATX t"
    then have "?Q (e, None, ev s t)" if "e \<noteq> 0" using that by (auto simp: quiet_fifo intro!: exI [of _ t] exI [of _ 0])
    with loop [OF t] show "always ?Q (if e \<noteq> 0 then Some (e, None, ev s t) else ?loop (ev s t))" by simp
  qed
  then show ?thesis
    using ep_count_loop_eq [of L None 0 0] by (simp add: Endpoint_Null_Stream_def ep_count_stream_def same_count_def cong: if_cong)
qed

section \<open>A host that keeps up\<close>

text \<open>
  \<open>banked n t\<close>: the number of accesses to the FIFO since the last time the flags of the endpoint were written, if it was \<open>n\<close> before
  \<open>t\<close>. \<open>ready_ep N s\<close>: from now on the endpoint is always ready, and each bank can be accessed at least \<open>N\<close> times.
\<close>

fun banked :: "nat \<Rightarrow> io list \<Rightarrow> nat" where
  "banked n [] = n"
| "banked n (Rd l v # t) = banked (if l = UEDATX then Suc n else n) t"
| "banked n (Wr l v # t) = banked (if l = UEDATX then Suc n else if l = UEINTX then 0 else n) t"

definition ready_ep :: "nat \<Rightarrow> usb_st \<Rightarrow> bool" where
  "ready_ep N s \<longleftrightarrow> 0 < N \<and> (\<forall>t. let i = ucast (hw s (trace s @ t) UEINTX) :: u8
     in i AND TXINI \<noteq> 0 \<and> i AND RXOUTI \<noteq> 0 \<and> (banked 0 (trace s @ t) < N \<longrightarrow> i AND RWAL \<noteq> 0))"

lemma banked_append: "banked n (t @ u) = banked (banked n t) u"
  by (induction n t rule: banked.induct) auto

lemma ready_ep_later: "ready_ep N s \<Longrightarrow> hw s' = hw s \<Longrightarrow> trace s' = trace s @ t \<Longrightarrow> ready_ep N s'"
  unfolding ready_ep_def by (metis append_assoc)

lemma ready_ep_ev [simp]: "ready_ep N s \<Longrightarrow> ready_ep N (ev s t)"
  by (erule ready_ep_later) simp_all

lemma ready_ep_ram [simp]: "ready_ep N (s\<lparr>ram := m\<rparr>) \<longleftrightarrow> ready_ep N s"
  by (simp add: ready_ep_def)

lemma ready_ep_reading:
  assumes "ready_ep N s" "reading s UEINTX w"
  shows "(ucast w :: u8) AND TXINI \<noteq> 0" "(ucast w :: u8) AND RXOUTI \<noteq> 0" "banked 0 (trace s) < N \<Longrightarrow> (ucast w :: u8) AND RWAL \<noteq> 0"
  using assms(1) spec [of _ "[]"] unfolding ready_ep_def assms(2) [unfolded reading_def] Let_def by (metis append_Nil2)+

lemma Endpoint_WaitUntilReady_ready:
  assumes "ready_ep N s"
  shows "\<exists>f c i. Endpoint_WaitUntilReady s = Some (0, ev s [Rd UDFNUM f, Rd UECFG0X c, Rd UEINTX i])"
proof -
  let ?f = "hw s (trace s) UDFNUM"
  let ?s1 = "ev s [Rd UDFNUM ?f]" let ?c = "hw ?s1 (trace ?s1) UECFG0X"
  let ?s2 = "ev ?s1 [Rd UECFG0X ?c]" let ?i = "hw ?s2 (trace ?s2) UEINTX"
  have "reading ?s2 UEINTX ?i" by (simp add: reading_def)
  with assms have "(ucast ?i :: u8) AND TXINI \<noteq> 0" "(ucast ?i :: u8) AND RXOUTI \<noteq> 0"
    using ready_ep_reading [of N ?s2 ?i] by simp_all
  then have "Endpoint_WaitUntilReady s = Some (0, ev s [Rd UDFNUM ?f, Rd UECFG0X ?c, Rd UEINTX ?i])"
    unfolding Endpoint_WaitUntilReady_def USB_Device_GetFrameNumber_def io_eqs(1) Let_def prod.case
    by (subst ready_wait_loop.simps)
       (simp add: Endpoint_GetEndpointDirection_def Endpoint_IsINReady_def Endpoint_IsOUTReceived_def io_simps Let_def)
  then show ?thesis by blast
qed

lemma returns_conj: "returns P m \<Longrightarrow> always Q m \<Longrightarrow> returns (\<lambda>x. P x \<and> Q x) m"
  by (auto simp: returns_def always_def)

text \<open>A transfer keeps the hardware and only extends the trace.\<close>

lemma rw_loop_ready:
  assumes "ready_ep N s" "clr \<in> {Endpoint_ClearIN, Endpoint_ClearOUT}" and xfer: "\<And>p s. hw (xfer p s) = hw s \<and> (\<exists>t. trace (xfer p s) = trace s @ t)"
  shows "returns (\<lambda>(code, _, _). code = 0)
    (rw_loop Endpoint_IsReadWriteAllowed (\<lambda>s. Some (clr s)) Endpoint_WaitUntilReady ENDPOINT_RWSTREAM_IncompleteTransfer mv xfer p L b None s)"
  (is "returns ?Q (?loop p L b s)")
  using assms(1)
proof (induction "unat L" arbitrary: p L b s)
  case 0
  then have "L = 0" by (simp add: unat_eq_zero)
  then show ?case by (subst rw_loop.simps) simp
next
  case (Suc n)
  have L: "L \<noteq> 0" "n = unat (L - 1)" using Suc.hyps(2) unat_pred_word [of L] by auto
  have go: "returns ?Q (?loop p L b s)" if r: "ready_ep N s" "(ucast (hw s (trace s) UEINTX) :: u8) AND RWAL \<noteq> 0" for s
  proof -
    let ?s1 = "ev s [Rd UEINTX (hw s (trace s) UEINTX)]"
    obtain t where "hw (xfer p ?s1) = hw ?s1" "trace (xfer p ?s1) = trace ?s1 @ t" using xfer by blast
    then have "ready_ep N (xfer p ?s1)" by (rule ready_ep_later [OF ready_ep_ev [OF r(1)]])
    from Suc.hyps(1) [OF L(2) this] r(2) L(1) show ?thesis
      by (subst rw_loop.simps) (simp only: Endpoint_IsReadWriteAllowed_def io_simps Let_def prod.case if_True if_False simp_thms)
  qed
  show ?case
  proof (cases "(ucast (hw s (trace s) UEINTX) :: u8) AND RWAL = 0")
    case False
    then show ?thesis by (intro go Suc.prems)
  next
    case True
    let ?s1 = "ev s [Rd UEINTX (hw s (trace s) UEINTX)]"
    obtain x y where c: "clr ?s1 = ev s [Rd UEINTX (hw s (trace s) UEINTX), Rd UEINTX x, Wr UEINTX y]"
      using assms(2) by (auto simp: Endpoint_ClearIN_def Endpoint_ClearOUT_def io_simps)
    have "ready_ep N (clr ?s1)" using Suc.prems by (simp add: c)
    then obtain f c' i where w: "Endpoint_WaitUntilReady (clr ?s1) = Some (0, ev (clr ?s1) [Rd UDFNUM f, Rd UECFG0X c', Rd UEINTX i])"
      using Endpoint_WaitUntilReady_ready by blast
    let ?s2 = "ev (clr ?s1) [Rd UDFNUM f, Rd UECFG0X c', Rd UEINTX i]"
    have r2: "ready_ep N ?s2" using Suc.prems by (simp add: c)
    moreover have "banked 0 (trace ?s2) < N" using Suc.prems by (simp add: c banked_append ready_ep_def)
    ultimately have "returns ?Q (?loop p L b ?s2)"
      using go [OF r2] ready_ep_reading(3) [OF r2, of "hw ?s2 (trace ?s2) UEINTX"] by (simp add: reading_def)
    moreover have "Endpoint_IsReadWriteAllowed s = (False, ?s1)" using True by (simp add: Endpoint_IsReadWriteAllowed_def io_simps)
    ultimately show ?thesis using L(1) w by (subst rw_loop.simps) simp
  qed
qed

lemma Template_Endpoint_RW_ready:
  assumes "ready_ep N s" "INTERRUPT_CONTROL_ENDPOINT App" "clr \<in> {Endpoint_ClearIN, Endpoint_ClearOUT}"
    and xfer: "\<And>p s. hw (xfer p s) = hw s \<and> (\<exists>t. trace (xfer p s) = trace s @ t)"
  shows "returns (\<lambda>(code, _, _). code = 0) (Template_Endpoint_RW App clr off adv xfer B L None s)"
proof -
  obtain f c i where w: "Endpoint_WaitUntilReady s = Some (0, ev s [Rd UDFNUM f, Rd UECFG0X c, Rd UEINTX i])"
    using Endpoint_WaitUntilReady_ready [OF assms(1)] by blast
  have "ready_ep N (ev s [Rd UDFNUM f, Rd UECFG0X c, Rd UEINTX i])" using assms(1) by simp
  from rw_loop_ready [OF this assms(3) xfer, where mv = "adv 1"] w show ?thesis
    by (simp add: Template_Endpoint_RW_def ep_hand_over_interrupt [OF assms(2)])
qed

lemma Endpoint_Write_Stream_LE_ready:
  assumes "ready_ep N s" "INTERRUPT_CONTROL_ENDPOINT App"
  shows "\<exists>bp t. Endpoint_Write_Stream_LE App B L None s = Some (0, bp, ev s t) \<and> fifo_out t = mem_bytes (ram s) B (unat L) \<and> fifo_in t = []"
proof -
  have "returns (\<lambda>(code, _, _). code = 0) (Endpoint_Write_Stream_LE App B L None s)"
    unfolding Endpoint_Write_Stream_LE_def
    by (rule Template_Endpoint_RW_ready [OF assms]) (simp_all add: write_ram_def Endpoint_Write_8_def io_simps)
  from returns_conj [OF this Endpoint_Write_Stream_LE_null [OF assms(2)]] show ?thesis
    unfolding returns_def by auto
qed

lemma Endpoint_Read_Stream_LE_ready:
  assumes "ready_ep N s" "INTERRUPT_CONTROL_ENDPOINT App"
  shows "\<exists>bp t. Endpoint_Read_Stream_LE App B L None s = Some (0, bp, ev (s\<lparr>ram := filled B (fifo_in t) (ram s)\<rparr>) t) \<and>
    length (fifo_in t) = unat L \<and> fifo_out t = []"
proof -
  have "returns (\<lambda>(code, _, _). code = 0) (Endpoint_Read_Stream_LE App B L None s)"
    unfolding Endpoint_Read_Stream_LE_def
    by (rule Template_Endpoint_RW_ready [OF assms]) (simp_all add: read_ram_def Endpoint_Read_8_def io_simps)
  from returns_conj [OF this Endpoint_Read_Stream_LE_null [OF assms(2)]] show ?thesis
    unfolding returns_def by auto
qed

text \<open>With a byte counter: the stream succeeds, or it hands over a full bank and has moved at least one byte if the bank was not full.\<close>

definition goes_on :: "nat \<Rightarrow> u16 \<Rightarrow> u16 \<Rightarrow> usb_st \<Rightarrow> u8 \<times> u16 option \<times> usb_st \<Rightarrow> bool" where
  "goes_on N m L s = (\<lambda>(code, bp, s'). ready_ep N s' \<and> (code = 0 \<or> code = ENDPOINT_RWSTREAM_IncompleteTransfer \<and> banked 0 (trace s') = 0 \<and>
     (\<exists>k\<le>unat L. bp = Some (m + of_nat k) \<and> (banked 0 (trace s) < N \<longrightarrow> 0 < k))))"

lemma rw_loop_goes_on:
  assumes "ready_ep N s" "clr \<in> {Endpoint_ClearIN, Endpoint_ClearOUT}" and xfer: "\<And>p s. hw (xfer p s) = hw s \<and> (\<exists>t. trace (xfer p s) = trace s @ t)"
  shows "returns (goes_on N (n + b) L s)
    (rw_loop Endpoint_IsReadWriteAllowed (\<lambda>s. Some (clr s)) Endpoint_WaitUntilReady ENDPOINT_RWSTREAM_IncompleteTransfer mv xfer p L b (Some n) s)"
  (is "returns _ (?loop p L b s)")
  using assms(1)
proof (induction "unat L" arbitrary: p L b s)
  case 0
  then have "L = 0" by (simp add: unat_eq_zero)
  with 0 show ?case by (subst rw_loop.simps) (simp add: goes_on_def)
next
  case (Suc j)
  have L: "L \<noteq> 0" "j = unat (L - 1)" using Suc.hyps(2) unat_pred_word [of L] by auto
  let ?i = "hw s (trace s) UEINTX" let ?s1 = "ev s [Rd UEINTX ?i]"
  show ?case
  proof (cases "(ucast ?i :: u8) AND RWAL = 0")
    case False
    obtain t where "hw (xfer p ?s1) = hw ?s1" "trace (xfer p ?s1) = trace ?s1 @ t" using xfer by blast
    then have "ready_ep N (xfer p ?s1)" by (rule ready_ep_later [OF ready_ep_ev [OF Suc.prems]])
    from Suc.hyps(1) [OF L(2) this] have "returns (goes_on N (n + (b + 1)) (L - 1) (xfer p ?s1)) (?loop (mv p) (L - 1) (b + 1) (xfer p ?s1))" .
    moreover have "goes_on N (n + b) L s r" if r: "goes_on N (n + (b + 1)) (L - 1) (xfer p ?s1) r" for r
    proof -
      obtain code bp s' where [simp]: "r = (code, bp, s')" by (cases r)
      have "\<exists>k\<le>unat L. Some (n + (b + 1) + of_nat i) = Some (n + b + of_nat k) \<and> (banked 0 (trace s) < N \<longrightarrow> 0 < k)" if "i \<le> unat (L - 1)" for i
        using that L Suc.hyps(2) by (intro exI [of _ "Suc i"]) (simp add: algebra_simps)
      with r show ?thesis by (auto simp: goes_on_def)
    qed
    moreover have "Endpoint_IsReadWriteAllowed s = (True, ?s1)" using False by (simp add: Endpoint_IsReadWriteAllowed_def io_simps)
    ultimately show ?thesis
      using L(1) by (subst rw_loop.simps) (auto intro: returns_mono)
  next
    case True
    obtain x y where c: "clr ?s1 = ev s [Rd UEINTX ?i, Rd UEINTX x, Wr UEINTX y]"
      using assms(2) by (auto simp: Endpoint_ClearIN_def Endpoint_ClearOUT_def io_simps)
    have "\<not> banked 0 (trace s) < N" using ready_ep_reading(3) [OF Suc.prems, of ?i] True by (auto simp: reading_def)
    then have "goes_on N (n + b) L s (ENDPOINT_RWSTREAM_IncompleteTransfer, Some (n + b), clr ?s1)"
      using Suc.prems by (auto simp: goes_on_def c banked_append)
    moreover have "Endpoint_IsReadWriteAllowed s = (False, ?s1)" using True by (simp add: Endpoint_IsReadWriteAllowed_def io_simps)
    ultimately show ?thesis using L(1) by (subst rw_loop.simps) simp
  qed
qed

lemma Template_Endpoint_RW_goes_on:
  assumes "ready_ep N s" "INTERRUPT_CONTROL_ENDPOINT App" "clr \<in> {Endpoint_ClearIN, Endpoint_ClearOUT}"
    and xfer: "\<And>p s. hw (xfer p s) = hw s \<and> (\<exists>t. trace (xfer p s) = trace s @ t)"
  shows "returns (goes_on N n (L - n) s) (Template_Endpoint_RW App clr off adv xfer B L (Some n) s)"
proof -
  obtain f c i where w: "Endpoint_WaitUntilReady s = Some (0, ev s [Rd UDFNUM f, Rd UECFG0X c, Rd UEINTX i])"
    using Endpoint_WaitUntilReady_ready [OF assms(1)] by blast
  let ?s = "ev s [Rd UDFNUM f, Rd UECFG0X c, Rd UEINTX i]"
  have "ready_ep N ?s" using assms(1) by simp
  from rw_loop_goes_on [OF this assms(3) xfer, where mv = "adv 1" and b = 0 and n = n and L = "L - n" and p = "adv n (B + off L)"]
  have "returns (goes_on N n (L - n) ?s) (rw_loop Endpoint_IsReadWriteAllowed (\<lambda>s. Some (clr s)) Endpoint_WaitUntilReady
      ENDPOINT_RWSTREAM_IncompleteTransfer (adv 1) xfer (adv n (B + off L)) (L - n) 0 (Some n) ?s)" by simp
  then have "returns (goes_on N n (L - n) s) (rw_loop Endpoint_IsReadWriteAllowed (\<lambda>s. Some (clr s)) Endpoint_WaitUntilReady
      ENDPOINT_RWSTREAM_IncompleteTransfer (adv 1) xfer (adv n (B + off L)) (L - n) 0 (Some n) ?s)"
    by (rule returns_mono) (auto simp: goes_on_def banked_append)
  with w show ?thesis by (simp add: Template_Endpoint_RW_def ep_hand_over_interrupt [OF assms(2)])
qed

end
