(* ===== verification/Mass_Storage_Device.thy ===== *)
theory Mass_Storage_Device
  imports Class_Transfers
begin

text \<open>
  The mass storage class driver of a device (\<^verbatim>\<open>Class/Device/MassStorageClassDevice.c\<close> and \<^verbatim>\<open>.h\<close>), the bulk-only transport: the host
  sends a command block, data follow in one direction, the device answers with a command status. The structure \<open>State\<close> of an
  interface lies in RAM at the address \<open>MS_State\<close>; its volatile member \<open>IsMassStoreReset\<close> is a location. The callback of the
  application works on data \<open>'d\<close> of its own and on the machine.
\<close>

abbreviation (input) MS_CBW_SIGNATURE :: u32 where "MS_CBW_SIGNATURE \<equiv> 0x43425355"
abbreviation (input) MS_CSW_SIGNATURE :: u32 where "MS_CSW_SIGNATURE \<equiv> 0x53425355"
abbreviation (input) MS_COMMAND_DIR_DATA_IN :: u8 where "MS_COMMAND_DIR_DATA_IN \<equiv> bmask 7"
abbreviation (input) MS_SCSI_COMMAND_Pass :: u8 where "MS_SCSI_COMMAND_Pass \<equiv> 0"
abbreviation (input) MS_SCSI_COMMAND_Fail :: u8 where "MS_SCSI_COMMAND_Fail \<equiv> 1"
abbreviation (input) MS_REQ_GetMaxLUN :: u8 where "MS_REQ_GetMaxLUN \<equiv> 0xFE"
abbreviation (input) MS_REQ_MassStorageReset :: u8 where "MS_REQ_MassStorageReset \<equiv> 0xFF"
abbreviation (input) EP_TYPE_BULK :: u8 where "EP_TYPE_BULK \<equiv> 2"

section \<open>The interface structure\<close>

record USB_ClassInfo_MS_Device_t =
  MS_InterfaceNumber :: u8
  MS_DataINEndpoint :: USB_Endpoint_Table_t
  MS_DataOUTEndpoint :: USB_Endpoint_Table_t
  TotalLUNs :: u8
  MS_State :: u16

text \<open>The addresses of the members: \<open>CommandBlock\<close> is the first 31 bytes of the state, \<open>CommandStatus\<close> the next 13.\<close>

abbreviation (input) CB_Signature :: "USB_ClassInfo_MS_Device_t \<Rightarrow> u16" where "CB_Signature I \<equiv> MS_State I"
abbreviation (input) CB_Tag :: "USB_ClassInfo_MS_Device_t \<Rightarrow> u16" where "CB_Tag I \<equiv> MS_State I + 4"
abbreviation (input) CB_DataTransferLength :: "USB_ClassInfo_MS_Device_t \<Rightarrow> u16" where "CB_DataTransferLength I \<equiv> MS_State I + 8"
abbreviation (input) CB_Flags :: "USB_ClassInfo_MS_Device_t \<Rightarrow> u16" where "CB_Flags I \<equiv> MS_State I + 12"
abbreviation (input) CB_LUN :: "USB_ClassInfo_MS_Device_t \<Rightarrow> u16" where "CB_LUN I \<equiv> MS_State I + 13"
abbreviation (input) CB_SCSICommandLength :: "USB_ClassInfo_MS_Device_t \<Rightarrow> u16" where "CB_SCSICommandLength I \<equiv> MS_State I + 14"
abbreviation (input) CB_SCSICommandData :: "USB_ClassInfo_MS_Device_t \<Rightarrow> u16" where "CB_SCSICommandData I \<equiv> MS_State I + 15"
abbreviation (input) CS_Signature :: "USB_ClassInfo_MS_Device_t \<Rightarrow> u16" where "CS_Signature I \<equiv> MS_State I + 31"
abbreviation (input) CS_Tag :: "USB_ClassInfo_MS_Device_t \<Rightarrow> u16" where "CS_Tag I \<equiv> MS_State I + 35"
abbreviation (input) CS_DataTransferResidue :: "USB_ClassInfo_MS_Device_t \<Rightarrow> u16" where "CS_DataTransferResidue I \<equiv> MS_State I + 39"
abbreviation (input) CS_Status :: "USB_ClassInfo_MS_Device_t \<Rightarrow> u16" where "CS_Status I \<equiv> MS_State I + 43"

section \<open>The driver\<close>

definition ms_request :: "USB_ClassInfo_MS_Device_t \<Rightarrow> event" where
  "ms_request I s =
     (let r = USB_ControlRequest s
      in if bRequest r = MS_REQ_MassStorageReset then
           (if bmRequestType r = CLASS_OUT
            then do { s \<leftarrow> Endpoint_ClearStatusStage (Endpoint_ClearSETUP s); Some (wr8 IsMassStoreReset 1 s) }
            else Some s)
         else if bRequest r = MS_REQ_GetMaxLUN then
           (if bmRequestType r = CLASS_IN
            then do {
              s \<leftarrow> wait_INReady (Endpoint_ClearSETUP s);
              Endpoint_ClearStatusStage (Endpoint_ClearIN (Endpoint_Write_8 (TotalLUNs I - 1) s)) }
            else Some s)
         else Some s)"

definition MS_Device_ProcessControlRequest :: "USB_ClassInfo_MS_Device_t \<Rightarrow> event" where
  "MS_Device_ProcessControlRequest I s =
     map_option snd (interface_request (MS_InterfaceNumber I) (\<lambda>(d, s). map_option (Pair ()) (ms_request I s)) ((), s))"

text \<open>The types of the two endpoints are set in the interface structure, which is returned.\<close>

definition MS_Device_ConfigureEndpoints :: "USB_ClassInfo_MS_Device_t \<Rightarrow> usb_st \<Rightarrow> (bool \<times> USB_ClassInfo_MS_Device_t \<times> usb_st) option" where
  "MS_Device_ConfigureEndpoints I s = do {
     let s = wr8 IsMassStoreReset 0 (zero_ram (MS_State I) 44 s);
     let I = I\<lparr>MS_DataINEndpoint := (MS_DataINEndpoint I)\<lparr>EP_Type := EP_TYPE_BULK\<rparr>,
               MS_DataOUTEndpoint := (MS_DataOUTEndpoint I)\<lparr>EP_Type := EP_TYPE_BULK\<rparr>\<rparr>;
     (ok, s) \<leftarrow> Endpoint_ConfigureEndpointTable [MS_DataINEndpoint I] s;
     if \<not> ok then Some (False, I, s)
     else do {
       (ok, s) \<leftarrow> Endpoint_ConfigureEndpointTable [MS_DataOUTEndpoint I] s;
       if \<not> ok then Some (False, I, s) else Some (True, I, s) } }"

text \<open>
  The loop that drives a stream with a byte counter, three times in the driver: it ends when the stream does not report an incomplete
  transfer, whatever it reports, or is given up with \<open>False\<close> when a reset has been requested.
\<close>

partial_function (option) ms_stream_loop :: "(u16 option \<Rightarrow> usb_st \<Rightarrow> outcome) \<Rightarrow> u16 option \<Rightarrow> usb_st \<Rightarrow> (bool \<times> usb_st) option" where
  "ms_stream_loop stream BytesProcessed s = do {
     (ErrorCode, BytesProcessed, s) \<leftarrow> stream BytesProcessed s;
     if ErrorCode = ENDPOINT_RWSTREAM_IncompleteTransfer
     then let (reset, s) = rd8 IsMassStoreReset s
          in if reset \<noteq> 0 then Some (False, s) else ms_stream_loop stream BytesProcessed s
     else Some (True, s) }"

definition command_block_invalid :: "USB_ClassInfo_MS_Device_t \<Rightarrow> usb_st \<Rightarrow> bool" where
  "command_block_invalid I s \<longleftrightarrow>
     ram_u32 (CB_Signature I) s \<noteq> MS_CBW_SIGNATURE \<or>
     ram s (CB_LUN I) \<ge> TotalLUNs I \<or>
     ram s (CB_Flags I) AND 0x1F \<noteq> 0 \<or>
     ram s (CB_SCSICommandLength I) = 0 \<or>
     ram s (CB_SCSICommandLength I) > 16"

definition MS_Device_ReadInCommandBlock :: "usb_app \<Rightarrow> USB_ClassInfo_MS_Device_t \<Rightarrow> usb_st \<Rightarrow> (bool \<times> usb_st) option" where
  "MS_Device_ReadInCommandBlock App I s = do {
     let s = Endpoint_SelectEndpoint (EP_Address (MS_DataOUTEndpoint I)) s;
     (go, s) \<leftarrow> ms_stream_loop (Endpoint_Read_Stream_LE App (CB_Signature I) 15) (Some 0) s;
     if \<not> go then Some (False, s)
     else if command_block_invalid I s
     then let s = Endpoint_StallTransaction s;
              s = Endpoint_SelectEndpoint (EP_Address (MS_DataINEndpoint I)) s;
              s = Endpoint_StallTransaction s
          in Some (False, s)
     else do {
       (go, s) \<leftarrow> ms_stream_loop (Endpoint_Read_Stream_LE App (CB_SCSICommandData I) (ucast (ram s (CB_SCSICommandLength I)))) (Some 0) s;
       if \<not> go then Some (False, s) else Some (True, Endpoint_ClearOUT s) } }"

partial_function (option) ms_stall_wait :: "usb_app \<Rightarrow> usb_st \<Rightarrow> (bool \<times> usb_st) option" where
  "ms_stall_wait App s =
     (let (stalled, s) = Endpoint_IsStalled s
      in if stalled then do {
           s \<leftarrow> (if INTERRUPT_CONTROL_ENDPOINT App then Some s else USB_USBTask App s);
           let (reset, s) = rd8 IsMassStoreReset s;
           if reset \<noteq> 0 then Some (False, s) else ms_stall_wait App s }
         else Some (True, s))"

definition MS_Device_ReturnCommandStatus :: "usb_app \<Rightarrow> USB_ClassInfo_MS_Device_t \<Rightarrow> event" where
  "MS_Device_ReturnCommandStatus App I s = do {
     (go, s) \<leftarrow> ms_stall_wait App (Endpoint_SelectEndpoint (EP_Address (MS_DataOUTEndpoint I)) s);
     if \<not> go then Some s
     else do {
       (go, s) \<leftarrow> ms_stall_wait App (Endpoint_SelectEndpoint (EP_Address (MS_DataINEndpoint I)) s);
       if \<not> go then Some s
       else do {
         (go, s) \<leftarrow> ms_stream_loop (Endpoint_Write_Stream_LE App (CS_Signature I) 13) (Some 0) s;
         Some (if \<not> go then s else Endpoint_ClearIN s) } } }"

text \<open>What follows the callback of the application: the status is filled in, and a command that failed with data left is stalled.\<close>

definition ms_command_done :: "usb_app \<Rightarrow> USB_ClassInfo_MS_Device_t \<Rightarrow> bool \<Rightarrow> event" where
  "ms_command_done App I SCSICommandResult s =
     (let s = write_ram8 (CS_Status I) (if SCSICommandResult then MS_SCSI_COMMAND_Pass else MS_SCSI_COMMAND_Fail) s;
          s = write_ram32 (CS_Signature I) MS_CSW_SIGNATURE s;
          s = write_ram32 (CS_Tag I) (ram_u32 (CB_Tag I) s) s;
          s = write_ram32 (CS_DataTransferResidue I) (ram_u32 (CB_DataTransferLength I) s) s;
          s = (if \<not> SCSICommandResult \<and> ram_u32 (CS_DataTransferResidue I) s \<noteq> 0 then Endpoint_StallTransaction s else s)
      in MS_Device_ReturnCommandStatus App I s)"

definition ms_reset :: "USB_ClassInfo_MS_Device_t \<Rightarrow> usb_st \<Rightarrow> usb_st" where
  "ms_reset I s =
     (let s = Endpoint_ResetEndpoint (EP_Address (MS_DataOUTEndpoint I)) s;
          s = Endpoint_ResetEndpoint (EP_Address (MS_DataINEndpoint I)) s;
          s = Endpoint_SelectEndpoint (EP_Address (MS_DataOUTEndpoint I)) s;
          s = Endpoint_ClearStall s;
          s = Endpoint_ResetDataToggle s;
          s = Endpoint_SelectEndpoint (EP_Address (MS_DataINEndpoint I)) s;
          s = Endpoint_ClearStall s;
          s = Endpoint_ResetDataToggle s
      in wr8 IsMassStoreReset 0 s)"

definition MS_Device_USBTask :: "usb_app \<Rightarrow> ('d \<times> usb_st \<Rightarrow> (bool \<times> 'd \<times> usb_st) option) \<Rightarrow> USB_ClassInfo_MS_Device_t \<Rightarrow>
    'd \<times> usb_st \<Rightarrow> ('d \<times> usb_st) option" where
  "MS_Device_USBTask App CALLBACK_MS_Device_SCSICommandReceived I = (\<lambda>(d, s).
     let (state, s) = rd8 USB_DeviceState s
     in if state \<noteq> DEVICE_STATE_Configured then Some (d, s)
        else do {
          let s = Endpoint_SelectEndpoint (EP_Address (MS_DataOUTEndpoint I)) s;
          let (received, s) = Endpoint_IsOUTReceived s;
          (d, s) \<leftarrow> (if received then do {
              (ok, s) \<leftarrow> MS_Device_ReadInCommandBlock App I s;
              if ok then do {
                let s = (if ram s (CB_Flags I) AND MS_COMMAND_DIR_DATA_IN \<noteq> 0
                         then Endpoint_SelectEndpoint (EP_Address (MS_DataINEndpoint I)) s else s);
                (SCSICommandResult, d, s) \<leftarrow> CALLBACK_MS_Device_SCSICommandReceived (d, s);
                s \<leftarrow> ms_command_done App I SCSICommandResult s;
                Some (d, s) }
              else Some (d, s) }
            else Some (d, s));
          let (reset, s) = rd8 IsMassStoreReset s;
          Some (d, if reset \<noteq> 0 then ms_reset I s else s) })"

declare ms_stream_loop.simps [code] ms_stall_wait.simps [code]

section \<open>The application behind the driver\<close>

text \<open>What a round of the driver does to the data of the application is what its callback does, if it is called at all.\<close>

locale scsi_application =
  fixes callback :: "'d \<times> usb_st \<Rightarrow> (bool \<times> 'd \<times> usb_st) option" and R :: "'d \<Rightarrow> 'd \<Rightarrow> bool"
  assumes refl: "R d d" and command: "callback (d, s) = Some (ok, d', s') \<Longrightarrow> R d d'"
begin

lemma USBTask_relates: "MS_Device_USBTask App callback I (d, s) = Some (d', s') \<Longrightarrow> R d d'"
  by (auto simp: MS_Device_USBTask_def Let_def bind_eq_Some_conv intro: refl command split: if_splits prod.splits)

end

section \<open>Driving a stream\<close>

definition driven :: "(u16 \<Rightarrow> u16) \<Rightarrow> transfer \<Rightarrow> u16 \<Rightarrow> u16 \<Rightarrow> u16 \<Rightarrow> usb_st \<Rightarrow> bool \<times> usb_st \<Rightarrow> bool" where
  "driven mv xfer p L n s = (\<lambda>(go, s'). (\<exists>k. moved UEDATX mv xfer k ((mv ^^ unat n) p) s s' \<and> unat n + k \<le> unat L) \<and>
     (go \<or> (\<exists>w. ucast w \<noteq> (0 :: u8) \<and> last (trace s') = Rd IsMassStoreReset w)))"

lemma driven_step:
  assumes "moved UEDATX mv xfer k ((mv ^^ unat n) p) s s1" "k < unat L - unat n" "m = n + of_nat k"
    and "driven mv xfer p L m (ev s1 [Rd IsMassStoreReset w]) r"
  shows "driven mv xfer p L n s r"
proof -
  have m: "unat m = unat n + k" using assms(2,3) by (simp add: unat_counter)
  obtain go s' j where r: "r = (go, s')" "moved UEDATX mv xfer j ((mv ^^ unat m) p) (ev s1 [Rd IsMassStoreReset w]) s'" "unat m + j \<le> unat L"
      "go \<or> (\<exists>w. ucast w \<noteq> (0 :: u8) \<and> last (trace s') = Rd IsMassStoreReset w)"
    using assms(4) unfolding driven_def by blast
  have "moved UEDATX mv xfer j ((mv ^^ unat m) p) s1 s'"
    by (rule moved.other [OF _ r(2)]) simp
  then have "moved UEDATX mv xfer (k + j) ((mv ^^ unat n) p) s s'"
    by (intro moved_trans [OF assms(1)]) (simp add: m funpow_add [symmetric] add.commute [of k] flip: comp_apply [of "mv ^^ k"])
  with r m show ?thesis unfolding driven_def by (auto intro!: exI [of _ "k + j"])
qed

lemma ms_stream_loop_driven:
  assumes f: "\<And>n s. unat n \<le> unat L \<Longrightarrow> always (resumes UEDATX ENDPOINT_RWSTREAM_IncompleteTransfer mv xfer p L n s) (stream (Some n) s)"
    and "unat n \<le> unat L"
  shows "always (driven mv xfer p L n s) (ms_stream_loop stream (Some n) s)"
proof -
  have "driven mv xfer p L n s r" if ret: "ms_stream_loop stream (Some n) s = Some r" for r
  proof -
    let ?P = "\<lambda>stream' bp s r. stream' = stream \<longrightarrow> (\<forall>n. bp = Some n \<and> unat n \<le> unat L \<longrightarrow> driven mv xfer p L n s r)"
    have "?P stream (Some n) s r"
    proof (rule ms_stream_loop.raw_induct [where P = ?P, OF _ ret], intro impI allI, elim conjE)
      fix F stream' bp s r n
      assume IH: "\<And>stream' bp s r. F stream' bp s = Some r \<Longrightarrow> ?P stream' bp s r"
        and body: "stream' bp s \<bind> (\<lambda>(ErrorCode, BytesProcessed, s). if ErrorCode = ENDPOINT_RWSTREAM_IncompleteTransfer
           then let (reset, s) = rd8 IsMassStoreReset s in if reset \<noteq> 0 then Some (False, s) else F stream' BytesProcessed s
           else Some (True, s)) = Some r"
        and eqs: "stream' = stream" "bp = Some n" and n: "unat n \<le> unat L"
      obtain code bp1 s1 where s1: "stream (Some n) s = Some (code, bp1, s1)"
        using body eqs by (cases "stream (Some n) s") auto
      obtain k where k: "moved UEDATX mv xfer k ((mv ^^ unat n) p) s s1" "k \<le> unat L - unat n"
          "code = ENDPOINT_RWSTREAM_IncompleteTransfer \<longrightarrow> k < unat L - unat n \<and> bp1 = Some (n + of_nat k)"
        using alwaysD [OF f [OF n] s1] unfolding resumes_def by auto
      show "driven mv xfer p L n s r"
      proof (cases "code = ENDPOINT_RWSTREAM_IncompleteTransfer")
        case False
        then have "r = (True, s1)" using body eqs s1 by simp
        with k n show ?thesis unfolding driven_def by auto
      next
        case True
        let ?w = "hw s1 (trace s1) IsMassStoreReset"
        have k': "k < unat L - unat n" "bp1 = Some (n + of_nat k)" using k(3) True by auto
        have "unat (n + of_nat k) \<le> unat L" using k' by (simp add: unat_counter)
        then have again: "driven mv xfer p L (n + of_nat k) (ev s1 [Rd IsMassStoreReset ?w]) r"
          if "F stream bp1 (ev s1 [Rd IsMassStoreReset ?w]) = Some r" using IH [OF that] k'(2) by blast
        have stop: "driven mv xfer p L n s (False, ev s1 [Rd IsMassStoreReset ?w])" if "ucast ?w \<noteq> (0 :: u8)"
          using that moved_after [OF k(1), of "[Rd IsMassStoreReset ?w]"] k(2) n unfolding driven_def by auto
        show ?thesis
          using body eqs s1 True stop driven_step [OF k(1) k'(1) refl again] by (auto simp: io_simps split: if_splits)
      qed
    qed
    then show ?thesis using assms(2) by blast
  qed
  then show ?thesis by (simp add: always_def)
qed

definition saw_reset :: "usb_st \<Rightarrow> bool" where
  "saw_reset s \<longleftrightarrow> (\<exists>w. ucast w \<noteq> (0 :: u8) \<and> last (trace s) = Rd IsMassStoreReset w)"

lemma ms_read:
  assumes "INTERRUPT_CONTROL_ENDPOINT App"
  shows "always (\<lambda>(go, s'). \<exists>t. s' = ev (s\<lparr>ram := filled B (fifo_in t) (ram s)\<rparr>) t \<and> length (fifo_in t) \<le> unat L \<and> fifo_out t = [] \<and>
    (go \<or> saw_reset s')) (ms_stream_loop (Endpoint_Read_Stream_LE App B L) (Some 0) s)"
proof -
  have f: "always (resumes UEDATX ENDPOINT_RWSTREAM_IncompleteTransfer le_move read_ram B L n s) (Endpoint_Read_Stream_LE App B L (Some n) s)"
    if "unat n \<le> unat L" for n s
    using template_resumes(1) [OF assms that, of Endpoint_ClearOUT read_ram B le_offset s]
    by (simp add: Endpoint_Read_Stream_LE_def le_offset_def)
  have L: "unat L < 2 ^ 16" using unsigned_less [of L] by simp
  have d: "always (driven le_move read_ram B L 0 s) (ms_stream_loop (Endpoint_Read_Stream_LE App B L) (Some 0) s)"
    by (rule ms_stream_loop_driven [OF f]) simp_all
  show ?thesis
  proof (rule always_mono [OF d], clarify)
    fix go s' assume "driven le_move read_ram B L 0 s (go, s')"
    then obtain k where k: "moved UEDATX le_move read_ram k B s s'" "k \<le> unat L" "go \<or> saw_reset s'"
      unfolding driven_def saw_reset_def by auto
    have "k \<le> 2 ^ 16" using k(2) L by simp
    from moved_in [OF k(1) this] k(2,3) show "\<exists>t. s' = ev (s\<lparr>ram := filled B (fifo_in t) (ram s)\<rparr>) t \<and> length (fifo_in t) \<le> unat L \<and>
        fifo_out t = [] \<and> (go \<or> saw_reset s')" by metis
  qed
qed

lemma ms_write:
  assumes "INTERRUPT_CONTROL_ENDPOINT App"
  shows "always (\<lambda>(go, s'). \<exists>t k. s' = ev s t \<and> k \<le> unat L \<and> fifo_out t = mem_bytes (ram s) B k \<and> fifo_in t = [] \<and>
    (go \<or> saw_reset s')) (ms_stream_loop (Endpoint_Write_Stream_LE App B L) (Some 0) s)"
proof -
  have f: "always (resumes UEDATX ENDPOINT_RWSTREAM_IncompleteTransfer le_move write_ram B L n s) (Endpoint_Write_Stream_LE App B L (Some n) s)"
    if "unat n \<le> unat L" for n s
    using template_resumes(1) [OF assms that, of Endpoint_ClearIN write_ram B le_offset s]
    by (simp add: Endpoint_Write_Stream_LE_def le_offset_def)
  have d: "always (driven le_move write_ram B L 0 s) (ms_stream_loop (Endpoint_Write_Stream_LE App B L) (Some 0) s)"
    by (rule ms_stream_loop_driven [OF f]) simp_all
  show ?thesis
  proof (rule always_mono [OF d], clarify)
    fix go s' assume "driven le_move write_ram B L 0 s (go, s')"
    then obtain k where k: "moved UEDATX le_move write_ram k B s s'" "k \<le> unat L" "go \<or> saw_reset s'"
      unfolding driven_def saw_reset_def by auto
    from moved_out [OF k(1)] k(2,3) show "\<exists>t k. s' = ev s t \<and> k \<le> unat L \<and> fifo_out t = mem_bytes (ram s) B k \<and> fifo_in t = [] \<and>
        (go \<or> saw_reset s')" by metis
  qed
qed

section \<open>Reading a command\<close>

lemma filled_outside: "length bs \<le> unat (x - a) \<Longrightarrow> filled a bs m x = m x"
  by (simp add: filled_def)

lemma header_kept:
  assumes "length bs \<le> 16"
  shows "filled (a + 15) bs m a = m a" "filled (a + 15) bs m (a + 1) = m (a + 1)" "filled (a + 15) bs m (a + 2) = m (a + 2)"
    "filled (a + 15) bs m (a + 3) = m (a + 3)" "filled (a + 15) bs m (a + 12) = m (a + 12)" "filled (a + 15) bs m (a + 13) = m (a + 13)"
    "filled (a + 15) bs m (a + 14) = m (a + 14)"
  using assms by (auto intro!: filled_outside simp: unsigned_minus_1_eq_mask mask_eq_exp_minus_1)

text \<open>The stall of both endpoints, with which an invalid command block is answered.\<close>

definition stalls_both :: "USB_ClassInfo_MS_Device_t \<Rightarrow> io list \<Rightarrow> bool" where
  "stalls_both I t \<longleftrightarrow> (\<exists>u c e. t = u @ [Rd UECONX c, Wr UECONX (ucast ((ucast c :: u8) OR STALLRQ)),
     Wr UENUM (ucast (EP_Address (MS_DataINEndpoint I) AND ENDPOINT_EPNUM_MASK)),
     Rd UECONX e, Wr UECONX (ucast ((ucast e :: u8) OR STALLRQ))])"

definition command_read :: "USB_ClassInfo_MS_Device_t \<Rightarrow> usb_st \<Rightarrow> bool \<times> usb_st \<Rightarrow> bool" where
  "command_read I s = (\<lambda>(ok, s'). \<exists>t m. s' = ev (s\<lparr>ram := m\<rparr>) t \<and> length (fifo_in t) \<le> 31 \<and> fifo_out t = [] \<and>
     (\<forall>x. 31 \<le> unat (x - MS_State I) \<longrightarrow> m x = ram s x) \<and>
     (if ok then \<not> command_block_invalid I s' else saw_reset s' \<or> stalls_both I t))"

lemma command_block_invalid_cong:
  assumes "ram s (MS_State I) = ram s' (MS_State I)" "ram s (MS_State I + 1) = ram s' (MS_State I + 1)"
    "ram s (MS_State I + 2) = ram s' (MS_State I + 2)" "ram s (MS_State I + 3) = ram s' (MS_State I + 3)"
    "ram s (MS_State I + 12) = ram s' (MS_State I + 12)" "ram s (MS_State I + 13) = ram s' (MS_State I + 13)"
    "ram s (MS_State I + 14) = ram s' (MS_State I + 14)"
  shows "command_block_invalid I s \<longleftrightarrow> command_block_invalid I s'"
  using assms by (simp add: command_block_invalid_def ram_u32_def)

lemma filled_far: "length bs \<le> n \<Longrightarrow> n \<le> unat (x - a) \<Longrightarrow> filled a bs m x = m x"
  by (simp add: filled_def)

lemma second_part:
  fixes a x :: u16
  assumes "31 \<le> unat (x - a)"
  shows "16 \<le> unat (x - (a + 15))"
proof -
  have "(15 :: u16) \<le> x - a" using assms by (simp add: word_le_nat_alt)
  from unat_sub [OF this] have "unat (x - a - 15) = unat (x - a) - 15" by simp
  with assms show ?thesis by (simp add: diff_diff_eq)
qed

lemma MS_Device_ReadInCommandBlock_reads:
  assumes "INTERRUPT_CONTROL_ENDPOINT App"
  shows "always (command_read I s) (MS_Device_ReadInCommandBlock App I s)"
  unfolding MS_Device_ReadInCommandBlock_def Let_def
proof (rule always_bind [OF ms_read [OF assms]], clarify)
  fix go1 t1
  let ?out = "ucast (EP_Address (MS_DataOUTEndpoint I) AND ENDPOINT_EPNUM_MASK) :: u16"
  let ?s0 = "Endpoint_SelectEndpoint (EP_Address (MS_DataOUTEndpoint I)) s"
  let ?s1 = "ev (?s0\<lparr>ram := filled (MS_State I) (fifo_in t1) (ram ?s0)\<rparr>) t1"
  assume t1: "length (fifo_in t1) \<le> unat (15 :: u16)" "fifo_out t1 = []" "go1 \<or> saw_reset ?s1"
  have s1: "?s1 = ev (s\<lparr>ram := filled (MS_State I) (fifo_in t1) (ram s)\<rparr>) (Wr UENUM ?out # t1)"
    by (simp add: Endpoint_SelectEndpoint_def io_simps ev_def)
  have far: "\<forall>x. 31 \<le> unat (x - MS_State I) \<longrightarrow> filled (MS_State I) (fifo_in t1) (ram s) x = ram s x"
    using t1(1) by (auto intro!: filled_outside)
  have read: "length (fifo_in (Wr UENUM ?out # t1)) \<le> 31" "fifo_out (Wr UENUM ?out # t1) = []" using t1 by auto
  show "always (command_read I s) (if \<not> go1 then Some (False, ?s1) else if command_block_invalid I ?s1 then
      Some (False, Endpoint_StallTransaction (Endpoint_SelectEndpoint (EP_Address (MS_DataINEndpoint I)) (Endpoint_StallTransaction ?s1)))
    else ms_stream_loop (Endpoint_Read_Stream_LE App (MS_State I + 15) (ucast (ram ?s1 (MS_State I + 14)))) (Some 0) ?s1 \<bind>
      (\<lambda>(go, s). if \<not> go then Some (False, s) else Some (True, Endpoint_ClearOUT s)))"
  proof (intro always_if)
    assume "\<not> go1"
    with t1(3) have "saw_reset ?s1" by simp
    then show "always (command_read I s) (Some (False, ?s1))"
      using far read unfolding s1 by (auto simp: command_read_def intro!: exI [of _ "Wr UENUM ?out # t1"])
  next
    assume "command_block_invalid I ?s1"
    show "always (command_read I s)
      (Some (False, Endpoint_StallTransaction (Endpoint_SelectEndpoint (EP_Address (MS_DataINEndpoint I)) (Endpoint_StallTransaction ?s1))))"
      using far read unfolding s1
      by (simp add: command_read_def Endpoint_StallTransaction_def Endpoint_SelectEndpoint_def io_simps)
         (intro exI conjI, rule refl, auto simp: stalls_both_def)
  next
    assume valid: "\<not> command_block_invalid I ?s1"
    let ?L = "ucast (ram ?s1 (MS_State I + 14)) :: u16"
    have L: "unat ?L \<le> 16" using valid by (simp add: command_block_invalid_def not_less word_le_nat_alt)
    show "always (command_read I s) (ms_stream_loop (Endpoint_Read_Stream_LE App (MS_State I + 15) ?L) (Some 0) ?s1 \<bind>
        (\<lambda>(go, s). if \<not> go then Some (False, s) else Some (True, Endpoint_ClearOUT s)))"
    proof (rule always_bind [OF ms_read [OF assms]], clarify)
      fix go2 t2
      let ?m = "filled (MS_State I + 15) (fifo_in t2) (ram ?s1)"
      let ?s2 = "ev (?s1\<lparr>ram := ?m\<rparr>) t2"
      assume t2: "length (fifo_in t2) \<le> unat ?L" "fifo_out t2 = []" "go2 \<or> saw_reset ?s2"
      have l2: "length (fifo_in t2) \<le> 16" using t2(1) L by simp
      have s2: "?s2 = ev (s\<lparr>ram := ?m\<rparr>) (Wr UENUM ?out # t1 @ t2)"
        unfolding s1 by (simp add: ev_def)
      have r1: "ram ?s1 = filled (MS_State I) (fifo_in t1) (ram s)" unfolding s1 by simp
      have far2: "?m x = ram s x" if "31 \<le> unat (x - MS_State I)" for x
        using filled_far [OF l2 second_part [OF that]] far that unfolding r1 by simp
      have same: "command_block_invalid I s3 \<longleftrightarrow> command_block_invalid I ?s1" if "ram s3 = ?m" for s3
        by (rule command_block_invalid_cong) (simp_all only: that header_kept [OF l2])
      obtain x y where c: "Endpoint_ClearOUT ?s2 = ev (s\<lparr>ram := ?m\<rparr>) (Wr UENUM ?out # t1 @ t2 @ [Rd UEINTX x, Wr UEINTX y])"
        unfolding s2 by (simp add: Endpoint_ClearOUT_def io_simps)
      have "command_read I s (False, ?s2)" if "saw_reset ?s2"
        using that far2 t1 t2 l2 unfolding s2
        by (auto simp: command_read_def intro!: exI [of _ "Wr UENUM ?out # t1 @ t2"] exI [of _ ?m])
      moreover have "command_read I s (True, Endpoint_ClearOUT ?s2)"
        using far2 t1 t2 l2 same [of "Endpoint_ClearOUT ?s2"] valid unfolding c
        by (auto simp: command_read_def intro!: exI [of _ "Wr UENUM ?out # t1 @ t2 @ [Rd UEINTX x, Wr UEINTX y]"] exI [of _ ?m])
      ultimately show "always (command_read I s) (if \<not> go2 then Some (False, ?s2) else Some (True, Endpoint_ClearOUT ?s2))"
        using t2(3) by (cases go2) simp_all
    qed
  qed
qed

text \<open>
  C39. Reading a command block. Whatever the hardware and the host do, at most 31 bytes are taken from the FIFO, none is written, and
  memory changes only within the 31 bytes of \<open>CommandBlock\<close>. A command is accepted only with the right signature, a logical unit that
  exists, no reserved flag and a command of 1 to 16 bytes; it is refused only because a reset was requested or with both endpoints
  stalled.
\<close>

theorem MS_Device_ReadInCommandBlock_checked:
  assumes "INTERRUPT_CONTROL_ENDPOINT App" and "MS_Device_ReadInCommandBlock App I s = Some (ok, s')"
  shows "\<exists>t m. s' = ev (s\<lparr>ram := m\<rparr>) t \<and> length (fifo_in t) \<le> 31 \<and> fifo_out t = [] \<and>
    (\<forall>x. 31 \<le> unat (x - MS_State I) \<longrightarrow> m x = ram s x) \<and>
    (if ok then ram_u32 (CB_Signature I) s' = MS_CBW_SIGNATURE \<and> ram s' (CB_LUN I) < TotalLUNs I \<and> ram s' (CB_Flags I) AND 0x1F = 0 \<and>
       ram s' (CB_SCSICommandLength I) \<in> {1..16}
     else saw_reset s' \<or> stalls_both I t)"
proof -
  have "command_read I s (ok, s')" by (rule alwaysD [OF MS_Device_ReadInCommandBlock_reads [OF assms(1)] assms(2)])
  moreover have "ram_u32 (CB_Signature I) s' = MS_CBW_SIGNATURE \<and> ram s' (CB_LUN I) < TotalLUNs I \<and> ram s' (CB_Flags I) AND 0x1F = 0 \<and>
      ram s' (CB_SCSICommandLength I) \<in> {1..16}" if "\<not> command_block_invalid I s'"
    using that by (auto simp: command_block_invalid_def not_less word_le_nat_alt word_less_nat_alt unat_eq_zero Suc_le_eq unat_gt_0)
  ultimately show ?thesis
    unfolding command_read_def prod.case by (cases ok) (simp_all only: if_True if_False, blast+)
qed

text \<open>An interface at address 0x100 whose memory holds a command block that asks for the state of unit 0, on a bus without a host.\<close>

definition sample_ms :: USB_ClassInfo_MS_Device_t where
  "sample_ms = \<lparr>MS_InterfaceNumber = 0, MS_DataINEndpoint = \<lparr>EP_Address = 0x83, EP_Size = 64, EP_Type = EP_TYPE_BULK, EP_Banks = 1\<rparr>,
     MS_DataOUTEndpoint = \<lparr>EP_Address = 0x04, EP_Size = 64, EP_Type = EP_TYPE_BULK, EP_Banks = 1\<rparr>, TotalLUNs = 1, MS_State = 0x100\<rparr>"

definition stale_command :: usb_st where
  "stale_command = (boot_st (\<lambda>t l. 0))\<lparr>ram := (\<lambda>x. if x = 0x100 then 0x55 else if x = 0x101 then 0x53 else if x = 0x102 then 0x42
     else if x = 0x103 then 0x43 else if x = 0x10E then 6 else 0)\<rparr>"

text \<open>
  The loop takes every error of the stream for success: if the host is gone, the command block that is still in memory from the last
  command is accepted, though not one byte has been received.
\<close>

lemma stale_command_accepted:
  "\<exists>s'. MS_Device_ReadInCommandBlock interrupt_app sample_ms stale_command = Some (True, s') \<and> fifo_in (trace s') = []"
proof -
  have "map_option (\<lambda>(ok, s). ok \<and> fifo_in (trace s) = []) (MS_Device_ReadInCommandBlock interrupt_app sample_ms stale_command) = Some True"
    by code_simp
  then show ?thesis by auto
qed

theorem MS_Device_ReadInCommandBlock_checked_witness:
  "\<exists>s'. MS_Device_ReadInCommandBlock interrupt_app sample_ms stale_command = Some (True, s') \<and> ram s' 0x10E \<in> {1..16} \<and>
     ram s' 0x200 = ram stale_command 0x200"
proof -
  obtain s' where s': "MS_Device_ReadInCommandBlock interrupt_app sample_ms stale_command = Some (True, s')" using stale_command_accepted by blast
  have i: "INTERRUPT_CONTROL_ENDPOINT interrupt_app" by (simp add: interrupt_app_def)
  have far: "31 \<le> unat ((0x200 :: u16) - MS_State sample_ms)" by (simp add: sample_ms_def)
  have "ram s' 0x200 = ram stale_command 0x200 \<and> ram s' (MS_State sample_ms + 14) \<in> {1..16}"
    using MS_Device_ReadInCommandBlock_checked [OF i s'] far by auto
  with s' show ?thesis by (simp add: sample_ms_def)
qed

section \<open>A host that keeps up\<close>

text \<open>No reset is requested from now on.\<close>

definition no_reset :: "usb_st \<Rightarrow> bool" where
  "no_reset s \<longleftrightarrow> (\<forall>t. ucast (hw s (trace s @ t) IsMassStoreReset) = (0 :: u8))"

lemma no_reset_later: "no_reset s \<Longrightarrow> hw s' = hw s \<Longrightarrow> trace s' = trace s @ t \<Longrightarrow> no_reset s'"
  unfolding no_reset_def by (metis append_assoc)

lemma moved_later:
  assumes "moved fifo mv xfer k p s s'" and "\<And>p s. hw (xfer p s) = hw s \<and> (\<exists>t. trace (xfer p s) = trace s @ t)"
  shows "hw s' = hw s \<and> (\<exists>t. trace s' = trace s @ t)"
  using assms(1)
proof (induction rule: moved.induct)
  case (byte k p s s')
  then show ?case using assms(2) [of p s] by auto
qed auto

text \<open>The loop ends: every call but the first moves at least one byte.\<close>

lemma ms_stream_loop_ends:
  assumes res: "\<And>n s. unat n \<le> unat L \<Longrightarrow> always (resumes UEDATX ENDPOINT_RWSTREAM_IncompleteTransfer mv xfer p L n s) (stream (Some n) s)"
    and go: "\<And>n s. ready_ep N s \<Longrightarrow> returns (goes_on N n (L - n) s) (stream (Some n) s)"
    and xfer: "\<And>p s. hw (xfer p s) = hw s \<and> (\<exists>t. trace (xfer p s) = trace s @ t)"
    and "ready_ep N s" "no_reset s" "unat n \<le> unat L"
  shows "returns (\<lambda>(go, s'). go \<and> moved UEDATX mv xfer (unat L - unat n) ((mv ^^ unat n) p) s s') (ms_stream_loop stream (Some n) s)"
  using assms(4-6)
proof (induction "2 * (unat L - unat n) + (if banked 0 (trace s) < N then 0 else 1)" arbitrary: n s rule: less_induct)
  case less
  obtain code bp s1 where s1: "stream (Some n) s = Some (code, bp, s1)" "goes_on N n (L - n) s (code, bp, s1)"
    using go [OF less.prems(1), of n] unfolding returns_def by auto
  obtain k where k: "moved UEDATX mv xfer k ((mv ^^ unat n) p) s s1" "k \<le> unat L - unat n" "code = 0 \<longrightarrow> k = unat L - unat n"
      "code = ENDPOINT_RWSTREAM_IncompleteTransfer \<longrightarrow> k < unat L - unat n \<and> bp = Some (n + of_nat k)"
    using alwaysD [OF res [OF less.prems(3)] s1(1)] unfolding resumes_def by auto
  show ?case
  proof (cases "code = 0")
    case True
    with k s1(1) show ?thesis by (subst ms_stream_loop.simps) simp
  next
    case False
    then have c: "code = ENDPOINT_RWSTREAM_IncompleteTransfer" "ready_ep N s1" "banked 0 (trace s1) = 0" using s1(2) by (auto simp: goes_on_def)
    then have k': "k < unat L - unat n" "bp = Some (n + of_nat k)" using k(4) by auto
    let ?m = "n + of_nat k" let ?w = "hw s1 (trace s1) IsMassStoreReset" let ?s2 = "ev s1 [Rd IsMassStoreReset ?w]"
    have m: "unat ?m = unat n + k" using k'(1) by (rule unat_counter)
    have "0 < k" if b: "banked 0 (trace s) < N"
    proof -
      obtain j where j: "j \<le> unat (L - n)" "of_nat j = (of_nat k :: u16)" "0 < j" using s1(2) False k'(2) b by (auto simp: goes_on_def)
      have "unat (L - n) < 2 ^ 16" using unsigned_less [of "L - n"] by simp
      with j show ?thesis using of_nat_neq_0_word [of j, where 'a = 16] by (cases k) auto
    qed
    then have dec: "2 * (unat L - unat ?m) + (if banked 0 (trace ?s2) < N then 0 else 1) < 2 * (unat L - unat n) + (if banked 0 (trace s) < N then 0 else 1)"
      using k'(1) c(2,3) m by (auto simp: banked_append ready_ep_def)
    obtain t where "hw s1 = hw s" "trace s1 = trace s @ t" using moved_later [OF k(1) xfer] by blast
    then have n1: "no_reset s1" by (rule no_reset_later [OF less.prems(2)])
    then have n2: "no_reset ?s2" "ucast ?w = (0 :: u8)"
      using spec [OF n1 [unfolded no_reset_def], of "[]"] by (auto intro: no_reset_later)
    have "returns (\<lambda>(go, s'). go \<and> moved UEDATX mv xfer (unat L - unat ?m) ((mv ^^ unat ?m) p) ?s2 s') (ms_stream_loop stream (Some ?m) ?s2)"
      by (rule less.hyps [OF dec]) (use c(2) n2(1) k'(1) m in simp_all)
    then have "returns (\<lambda>(go, s'). go \<and> moved UEDATX mv xfer (unat L - unat n) ((mv ^^ unat n) p) s s') (ms_stream_loop stream (Some ?m) ?s2)"
    proof (rule returns_mono, clarify)
      fix s' assume "moved UEDATX mv xfer (unat L - unat ?m) ((mv ^^ unat ?m) p) ?s2 s'"
      then have "moved UEDATX mv xfer (unat L - unat ?m) ((mv ^^ unat ?m) p) s1 s'" by (rule moved.other [rotated]) simp
      then have "moved UEDATX mv xfer (k + (unat L - unat ?m)) ((mv ^^ unat n) p) s s'"
        by (intro moved_trans [OF k(1)]) (simp add: m funpow_add [symmetric] add.commute [of k] flip: comp_apply [of "mv ^^ k"])
      then show "moved UEDATX mv xfer (unat L - unat n) ((mv ^^ unat n) p) s s'" using m k'(1) by simp
    qed
    with c(1) s1(1) k'(2) n2(2) show ?thesis by (subst ms_stream_loop.simps) (simp add: io_simps)
  qed
qed

lemma read_extends: "hw (read_ram p s) = hw s \<and> (\<exists>t. trace (read_ram p s) = trace s @ t)"
  by (simp add: read_ram_def Endpoint_Read_8_def io_simps)

lemma write_extends: "hw (write_ram p s) = hw s \<and> (\<exists>t. trace (write_ram p s) = trace s @ t)"
  by (simp add: write_ram_def Endpoint_Write_8_def io_simps)

lemma ms_write_ready:
  assumes "ready_ep N s" "no_reset s" "INTERRUPT_CONTROL_ENDPOINT App"
  shows "\<exists>t. ms_stream_loop (Endpoint_Write_Stream_LE App B L) (Some 0) s = Some (True, ev s t) \<and>
    fifo_out t = mem_bytes (ram s) B (unat L) \<and> fifo_in t = []"
proof -
  have f: "always (resumes UEDATX ENDPOINT_RWSTREAM_IncompleteTransfer le_move write_ram B L n s) (Endpoint_Write_Stream_LE App B L (Some n) s)"
    if "unat n \<le> unat L" for n s
    using template_resumes(1) [OF assms(3) that, of Endpoint_ClearIN write_ram B le_offset s]
    by (simp add: Endpoint_Write_Stream_LE_def le_offset_def)
  have g: "returns (goes_on N n (L - n) s) (Endpoint_Write_Stream_LE App B L (Some n) s)" if "ready_ep N s" for n s
    unfolding Endpoint_Write_Stream_LE_def by (rule Template_Endpoint_RW_goes_on [OF that assms(3)]) (simp_all add: write_extends)
  obtain s' where "ms_stream_loop (Endpoint_Write_Stream_LE App B L) (Some 0) s = Some (True, s')" "moved UEDATX le_move write_ram (unat L) B s s'"
    using ms_stream_loop_ends [where n = 0, OF f g write_extends assms(1,2)] unfolding returns_def by auto
  with moved_out show ?thesis by blast
qed

lemma ms_stall_wait_quiet:
  assumes "INTERRUPT_CONTROL_ENDPOINT App"
  shows "always (\<lambda>(go, s'). \<exists>t. s' = ev s t \<and> quiet UEDATX t) (ms_stall_wait App s)"
proof -
  let ?Q = "\<lambda>s (go :: bool, s'). \<exists>t. s' = ev s t \<and> quiet UEDATX t"
  have "?Q s r" if ret: "ms_stall_wait App s = Some r" for r
  proof -
    have "App = App \<longrightarrow> ?Q s r"
    proof (rule ms_stall_wait.raw_induct [where P = "\<lambda>App' s r. App' = App \<longrightarrow> ?Q s r", OF _ ret], intro impI)
      fix F App' s r
      assume IH: "\<And>App' s r. F App' s = Some r \<Longrightarrow> App' = App \<longrightarrow> ?Q s r" and eq: "App' = App"
        and body: "(let (stalled, s) = Endpoint_IsStalled s in if stalled then (if INTERRUPT_CONTROL_ENDPOINT App' then Some s else USB_USBTask App' s) \<bind>
            (\<lambda>s. let (reset, s) = rd8 IsMassStoreReset s in if reset \<noteq> 0 then Some (False, s) else F App' s) else Some (True, s)) = Some r"
      have IH': "always (?Q s) (F App s)" for s using IH by (auto simp: always_def)
      have again: "always (?Q s) (F App (ev s [Rd UECONX x, Rd IsMassStoreReset y]))" for x y
        by (rule always_mono [OF IH']) auto
      have "always (?Q s) (let (stalled, s) = Endpoint_IsStalled s in if stalled then (if INTERRUPT_CONTROL_ENDPOINT App then Some s else USB_USBTask App s) \<bind>
            (\<lambda>s. let (reset, s) = rd8 IsMassStoreReset s in if reset \<noteq> 0 then Some (False, s) else F App s) else Some (True, s))"
        using again assms by (simp add: Endpoint_IsStalled_def io_simps)
      from alwaysD [OF this body [unfolded eq]] show "?Q s r" .
    qed
    then show ?thesis by simp
  qed
  then show ?thesis by (simp add: always_def)
qed

section \<open>The command status\<close>

definition u32_bytes :: "u32 \<Rightarrow> u8 list" where
  "u32_bytes w = [ucast w, ucast (drop_bit 8 w), ucast (drop_bit 16 w), ucast (drop_bit 24 w)]"

definition csw :: "USB_ClassInfo_MS_Device_t \<Rightarrow> bool \<Rightarrow> usb_st \<Rightarrow> u8 list" where
  "csw I ok s = u32_bytes MS_CSW_SIGNATURE @ u32_bytes (ram_u32 (CB_Tag I) s) @ u32_bytes (ram_u32 (CB_DataTransferLength I) s) @
     [if ok then MS_SCSI_COMMAND_Pass else MS_SCSI_COMMAND_Fail]"

definition status_stored :: "USB_ClassInfo_MS_Device_t \<Rightarrow> bool \<Rightarrow> usb_st \<Rightarrow> usb_st" where
  "status_stored I ok s = s\<lparr>ram := filled (CS_Signature I) (csw I ok s) (ram s)\<rparr>"

lemma upd_filled:
  "length bs < 2 ^ 16 \<Longrightarrow> (filled (a + 1) bs m)(a := b) = filled a (b # bs) m"
proof (rule ext)
  fix x assume l: "length bs < 2 ^ 16"
  show "((filled (a + 1) bs m)(a := b)) x = filled a (b # bs) m x"
  proof (cases "x = a")
    case False
    then have "x - a \<noteq> 0" by simp
    then have "unat (x - a) = Suc (unat (x - (a + 1)))"
      using unat_pred_word [of "x - a"] by (simp add: unat_gt_0 diff_diff_eq [symmetric])
    with False show ?thesis by (simp add: filled_def)
  qed (simp add: filled_def)
qed

lemma filled_13:
  "filled a [b0, b1, b2, b3, b4, b5, b6, b7, b8, b9, b10, b11, b12] m = m(a + 12 := b12, a := b0, a + 1 := b1, a + 2 := b2, a + 3 := b3,
     a + 4 := b4, a + 5 := b5, a + 6 := b6, a + 7 := b7, a + 8 := b8, a + 9 := b9, a + 10 := b10, a + 11 := b11)"
  unfolding fun_eq_iff
  by (simp add: upd_filled [symmetric] add.assoc)

lemma status_written:
  "(let s = write_ram8 (CS_Status I) (if ok then MS_SCSI_COMMAND_Pass else MS_SCSI_COMMAND_Fail) s;
        s = write_ram32 (CS_Signature I) MS_CSW_SIGNATURE s;
        s = write_ram32 (CS_Tag I) (ram_u32 (CB_Tag I) s) s
    in write_ram32 (CS_DataTransferResidue I) (ram_u32 (CB_DataTransferLength I) s) s) = status_stored I ok s"
  by (simp add: write_ram8_def write_ram32_def ram_u32_def status_stored_def csw_def u32_bytes_def filled_13 add.assoc)

lemma MS_Device_ReturnCommandStatus_sends:
  assumes "INTERRUPT_CONTROL_ENDPOINT App"
  shows "always (\<lambda>s'. \<exists>t k. s' = ev s t \<and> k \<le> 13 \<and> fifo_out t = mem_bytes (ram s) (CS_Signature I) k \<and> fifo_in t = [])
    (MS_Device_ReturnCommandStatus App I s)"
proof -
  let ?Q = "\<lambda>s'. \<exists>t k. s' = ev s t \<and> k \<le> 13 \<and> fifo_out t = mem_bytes (ram s) (CS_Signature I) k \<and> fifo_in t = []"
  have none: "?Q (ev s t)" if "quiet UEDATX t" for t
    using that by (intro exI [of _ t] exI [of _ 0]) (simp add: quiet_fifo mem_bytes_def)
  have select: "Endpoint_SelectEndpoint a s1 = ev s1 [Wr UENUM (ucast (a AND ENDPOINT_EPNUM_MASK))]" for a s1
    by (simp add: Endpoint_SelectEndpoint_def io_simps)
  have send: "always ?Q (ms_stream_loop (Endpoint_Write_Stream_LE App (CS_Signature I) 13) (Some 0) (ev s t) \<bind>
      (\<lambda>(go, s). Some (if \<not> go then s else Endpoint_ClearIN s)))" if t: "quiet UEDATX t" for t
  proof (rule always_bind [OF ms_write [OF assms]], clarify)
    fix go u k assume u: "k \<le> unat (13 :: u16)" "fifo_out u = mem_bytes (ram (ev s t)) (CS_Signature I) k" "fifo_in u = []"
    obtain x y where "Endpoint_ClearIN (ev (ev s t) u) = ev s (t @ u @ [Rd UEINTX x, Wr UEINTX y])"
      by (simp add: Endpoint_ClearIN_def io_simps)
    moreover have "?Q (ev s (t @ u @ v))" if "quiet UEDATX v" for v
      using u t that by (intro exI [of _ "t @ u @ v"] exI [of _ k]) (simp add: quiet_fifo)
    from this [of "[]"] this [of "[Rd UEINTX x, Wr UEINTX y]"] have "?Q (ev s (t @ u))" "?Q (ev s (t @ u @ [Rd UEINTX x, Wr UEINTX y]))" by simp_all
    ultimately show "always ?Q (Some (if \<not> go then ev (ev s t) u else Endpoint_ClearIN (ev (ev s t) u)))" by simp
  qed
  show ?thesis
    unfolding MS_Device_ReturnCommandStatus_def select
  proof (rule always_bind [OF ms_stall_wait_quiet [OF assms]], clarify)
    fix go t1 assume t1: "quiet UEDATX t1"
    let ?t1 = "Wr UENUM (ucast (EP_Address (MS_DataOUTEndpoint I) AND ENDPOINT_EPNUM_MASK)) # t1"
    let ?in = "Wr UENUM (ucast (EP_Address (MS_DataINEndpoint I) AND ENDPOINT_EPNUM_MASK))"
    have "always ?Q (ms_stall_wait App (ev s (?t1 @ [?in])) \<bind> (\<lambda>(go, s). if \<not> go then Some s else
        ms_stream_loop (Endpoint_Write_Stream_LE App (CS_Signature I) 13) (Some 0) s \<bind> (\<lambda>(go, s). Some (if \<not> go then s else Endpoint_ClearIN s))))"
    proof (rule always_bind [OF ms_stall_wait_quiet [OF assms]], clarify)
      fix go t2 assume "quiet UEDATX t2"
      with t1 have q: "quiet UEDATX ((?t1 @ [?in]) @ t2)" by simp
      from none [OF q] send [OF q] show "always ?Q (if \<not> go then Some (ev (ev s (?t1 @ [?in])) t2) else
          ms_stream_loop (Endpoint_Write_Stream_LE App (CS_Signature I) 13) (Some 0) (ev (ev s (?t1 @ [?in])) t2) \<bind>
            (\<lambda>(go, s). Some (if \<not> go then s else Endpoint_ClearIN s)))"
        by (cases go) (simp_all only: ev_simps if_True if_False simp_thms always_simps)
    qed
    moreover have "?Q (ev s ?t1)" using none [of ?t1] t1 by simp
    ultimately show "always ?Q (if \<not> go then Some (ev (ev s [Wr UENUM (ucast (EP_Address (MS_DataOUTEndpoint I) AND ENDPOINT_EPNUM_MASK))]) t1)
        else ms_stall_wait App (ev (ev (ev s [Wr UENUM (ucast (EP_Address (MS_DataOUTEndpoint I) AND ENDPOINT_EPNUM_MASK))]) t1) [?in]) \<bind>
          (\<lambda>(go, s). if \<not> go then Some s else
            ms_stream_loop (Endpoint_Write_Stream_LE App (CS_Signature I) 13) (Some 0) s \<bind> (\<lambda>(go, s). Some (if \<not> go then s else Endpoint_ClearIN s))))"
      by (cases go) (simp_all only: ev_simps if_True if_False simp_thms always_simps append.simps append_assoc)
  qed
qed

lemma u32_of_u32_bytes:
  "u32_of_bytes (ucast w) (ucast (drop_bit 8 w)) (ucast (drop_bit 16 w)) (ucast (drop_bit 24 w)) = w"
proof -
  have "ucast (w AND 0xFF) = (ucast w :: u8)" by (rule bit_word_eqI) (simp add: bit_simps)
  then show ?thesis using u32_of_bytes_split [of w] by simp
qed

lemma status_residue: "ram_u32 (CS_DataTransferResidue I) (status_stored I ok s) = ram_u32 (CB_DataTransferLength I) s"
  using u32_of_u32_bytes [of "ram_u32 (CB_DataTransferLength I) s"]
  by (simp add: ram_u32_def [of "MS_State I + 39"] status_stored_def csw_def u32_bytes_def filled_13 add.assoc)

lemma status_bytes: "k \<le> 13 \<Longrightarrow> mem_bytes (ram (status_stored I ok s)) (CS_Signature I) k = take k (csw I ok s)"
proof -
  have "length (csw I ok s) = 13" by (simp add: csw_def u32_bytes_def)
  with mem_bytes_filled [of "csw I ok s" "CS_Signature I" "ram s"]
  have "mem_bytes (ram (status_stored I ok s)) (CS_Signature I) 13 = csw I ok s" by (simp add: status_stored_def)
  then show "k \<le> 13 \<Longrightarrow> mem_bytes (ram (status_stored I ok s)) (CS_Signature I) k = take k (csw I ok s)"
    by (metis take_mem_bytes)
qed

lemma ms_command_done_eq:
  "ms_command_done App I ok s = MS_Device_ReturnCommandStatus App I
     (if \<not> ok \<and> ram_u32 (CB_DataTransferLength I) s \<noteq> 0 then Endpoint_StallTransaction (status_stored I ok s) else status_stored I ok s)"
  unfolding ms_command_done_def Let_def status_written [unfolded Let_def] status_residue by (rule refl)

text \<open>
  C40. The answer to a command. Once the application has processed a command, what goes to the host is a prefix of the 13 bytes of the
  command status: its signature, the tag of the command, the number of bytes the application left over and whether it succeeded. If it
  failed with bytes left over, the endpoint is stalled before. Nothing is read from the FIFO, and memory changes only in
  \<open>CommandStatus\<close>.
\<close>

theorem MS_command_status:
  assumes "INTERRUPT_CONTROL_ENDPOINT App" and "ms_command_done App I ok s = Some s'"
  shows "\<exists>t k. s' = ev (s\<lparr>ram := filled (CS_Signature I) (csw I ok s) (ram s)\<rparr>) t \<and> fifo_out t = take k (csw I ok s) \<and> fifo_in t = [] \<and>
    (\<not> ok \<and> ram_u32 (CB_DataTransferLength I) s \<noteq> 0 \<longrightarrow>
       (\<exists>c u. t = Rd UECONX c # Wr UECONX (ucast ((ucast c :: u8) OR STALLRQ)) # u \<and> fifo_out u = fifo_out t))"
proof (cases "\<not> ok \<and> ram_u32 (CB_DataTransferLength I) s \<noteq> 0")
  case False
  then have "ms_command_done App I ok s = MS_Device_ReturnCommandStatus App I (status_stored I ok s)" by (auto simp: ms_command_done_eq)
  then have ret: "MS_Device_ReturnCommandStatus App I (status_stored I ok s) = Some s'" using assms(2) by simp
  obtain t k where "s' = ev (status_stored I ok s) t" "k \<le> 13" "fifo_out t = mem_bytes (ram (status_stored I ok s)) (CS_Signature I) k" "fifo_in t = []"
    using alwaysD [OF MS_Device_ReturnCommandStatus_sends [OF assms(1)] ret] by (elim exE conjE)
  then have "s' = ev (status_stored I ok s) t" "fifo_out t = take k (csw I ok s)" "fifo_in t = []" by (simp_all add: status_bytes)
  with False show ?thesis unfolding status_stored_def by blast
next
  case True
  let ?c = "hw s (trace s) UECONX"
  let ?u = "[Rd UECONX ?c, Wr UECONX (ucast ((ucast ?c :: u8) OR STALLRQ))]"
  have "Endpoint_StallTransaction (status_stored I ok s) = ev (status_stored I ok s) ?u"
    by (simp add: Endpoint_StallTransaction_def io_simps status_stored_def)
  then have "ms_command_done App I ok s = MS_Device_ReturnCommandStatus App I (ev (status_stored I ok s) ?u)" using True by (auto simp: ms_command_done_eq)
  then have ret: "MS_Device_ReturnCommandStatus App I (ev (status_stored I ok s) ?u) = Some s'" using assms(2) by simp
  obtain t k where "s' = ev (ev (status_stored I ok s) ?u) t" "k \<le> 13"
      "fifo_out t = mem_bytes (ram (ev (status_stored I ok s) ?u)) (CS_Signature I) k" "fifo_in t = []"
    using alwaysD [OF MS_Device_ReturnCommandStatus_sends [OF assms(1)] ret] by (elim exE conjE)
  then have t: "s' = ev (ev (status_stored I ok s) ?u) t" "fifo_out t = take k (csw I ok s)" "fifo_in t = []"
    by (simp_all only: ev_simps status_bytes)
  have "s' = ev (status_stored I ok s) (?u @ t)" "fifo_out (?u @ t) = take k (csw I ok s)" "fifo_in (?u @ t) = []"
    "?u @ t = Rd UECONX ?c # Wr UECONX (ucast ((ucast ?c :: u8) OR STALLRQ)) # t" "fifo_out t = fifo_out (?u @ t)" using t by simp_all
  then show ?thesis unfolding status_stored_def by metis
qed

text \<open>A host that takes all data, never asks for a reset and leaves no endpoint stalled gets the whole status.\<close>

definition good_host :: "nat \<Rightarrow> usb_st \<Rightarrow> bool" where
  "good_host N s \<longleftrightarrow> ready_ep N s \<and> no_reset s \<and> (\<forall>t. (ucast (hw s (trace s @ t) UECONX) :: u8) AND STALLRQ = 0)"

lemma good_host_later: "good_host N s \<Longrightarrow> hw s' = hw s \<Longrightarrow> trace s' = trace s @ t \<Longrightarrow> good_host N s'"
  unfolding good_host_def by (metis ready_ep_later no_reset_later append_assoc)

lemma good_host_simps [simp]: "good_host N s \<Longrightarrow> good_host N (ev s t)" "good_host N (s\<lparr>ram := m\<rparr>) \<longleftrightarrow> good_host N s"
  by (erule good_host_later; simp) (simp add: good_host_def ready_ep_def no_reset_def)

lemma ms_stall_wait_good:
  assumes "good_host N s"
  shows "\<exists>c. ms_stall_wait App s = Some (True, ev s [Rd UECONX c])"
proof -
  have "(ucast (hw s (trace s) UECONX) :: u8) AND STALLRQ = 0" using assms unfolding good_host_def by (metis append_Nil2)
  then show ?thesis by (subst ms_stall_wait.simps) (simp add: Endpoint_IsStalled_def io_simps)
qed

lemma MS_Device_ReturnCommandStatus_good:
  assumes "good_host N s" "INTERRUPT_CONTROL_ENDPOINT App"
  shows "\<exists>t. MS_Device_ReturnCommandStatus App I s = Some (ev s t) \<and> fifo_out t = mem_bytes (ram s) (CS_Signature I) 13 \<and> fifo_in t = []"
proof -
  let ?a = "ev s [Wr UENUM (ucast (EP_Address (MS_DataOUTEndpoint I) AND ENDPOINT_EPNUM_MASK))]"
  obtain c where c: "ms_stall_wait App ?a = Some (True, ev ?a [Rd UECONX c])" using ms_stall_wait_good [of N ?a] assms(1) by auto
  let ?b = "ev (ev ?a [Rd UECONX c]) [Wr UENUM (ucast (EP_Address (MS_DataINEndpoint I) AND ENDPOINT_EPNUM_MASK))]"
  obtain d where d: "ms_stall_wait App ?b = Some (True, ev ?b [Rd UECONX d])" using ms_stall_wait_good [of N ?b] assms(1) by auto
  let ?e = "ev ?b [Rd UECONX d]"
  have "good_host N ?e" using assms(1) by simp
  then obtain t where t: "ms_stream_loop (Endpoint_Write_Stream_LE App (CS_Signature I) 13) (Some 0) ?e = Some (True, ev ?e t)"
      "fifo_out t = mem_bytes (ram ?e) (CS_Signature I) (unat (13 :: u16))" "fifo_in t = []"
    using ms_write_ready [OF _ _ assms(2), of N ?e] unfolding good_host_def by blast
  have "\<exists>x y. MS_Device_ReturnCommandStatus App I s = Some (ev (ev ?e t) [Rd UEINTX x, Wr UEINTX y])"
    using c d t(1) by (simp add: MS_Device_ReturnCommandStatus_def Endpoint_SelectEndpoint_def Endpoint_ClearIN_def io_simps)
  with t(2,3) show ?thesis by auto
qed

lemma ms_command_done_good:
  assumes "good_host N s" "INTERRUPT_CONTROL_ENDPOINT App" "ok \<or> ram_u32 (CB_DataTransferLength I) s = 0"
  shows "\<exists>t. ms_command_done App I ok s = Some (ev (status_stored I ok s) t) \<and> fifo_out t = csw I ok s \<and> fifo_in t = []"
proof -
  have "good_host N (status_stored I ok s)" using assms(1) by (simp add: status_stored_def)
  from MS_Device_ReturnCommandStatus_good [OF this assms(2), of I]
  obtain t where t: "MS_Device_ReturnCommandStatus App I (status_stored I ok s) = Some (ev (status_stored I ok s) t)"
      "fifo_out t = mem_bytes (ram (status_stored I ok s)) (CS_Signature I) 13" "fifo_in t = []" by blast
  have "length (csw I ok s) = 13" by (simp add: csw_def u32_bytes_def)
  with t(2) have "fifo_out t = csw I ok s" by (simp add: status_bytes)
  with t assms(3) show ?thesis by (auto simp: ms_command_done_eq)
qed

theorem MS_command_status_witness:
  "let s = boot_st (\<lambda>t l. if l = UEINTX then 0xFF else 0)
   in \<exists>s' t k. ms_command_done interrupt_app sample_ms True s = Some s' \<and> fifo_out t = take k (csw sample_ms True s) \<and> trace s' = t"
proof -
  let ?s = "boot_st (\<lambda>t l. if l = UEINTX then 0xFF else 0)"
  have g: "good_host 1 ?s" by (simp add: good_host_def ready_ep_def no_reset_def)
  have i: "INTERRUPT_CONTROL_ENDPOINT interrupt_app" by (simp add: interrupt_app_def)
  obtain s' where s': "ms_command_done interrupt_app sample_ms True ?s = Some s'" using ms_command_done_good [OF g i] by blast
  obtain t k where "s' = ev (?s\<lparr>ram := filled (CS_Signature sample_ms) (csw sample_ms True ?s) (ram ?s)\<rparr>) t" "fifo_out t = take k (csw sample_ms True ?s)"
    using MS_command_status [OF i s'] by blast
  then have "trace s' = t" "fifo_out t = take k (csw sample_ms True ?s)" by (simp_all add: boot_st_def)
  with s' show ?thesis unfolding Let_def by blast
qed

end
