(* ===== verification/Bulk_Transactions.thy ===== *)
theory Bulk_Transactions
  imports Mass_Storage_Device
begin

text \<open>
  Whole commands of the bulk-only transport, with a host that keeps up (\<open>good_host\<close>): the bytes it sends are the bytes the driver
  reads, so the round of the driver that receives a command block calls the application with that block in memory, and the application's
  answer is followed by the command status.
\<close>

section \<open>What the host sends\<close>

text \<open>From now on the FIFO delivers the bytes \<open>bs\<close>, one with each read, and then anything.\<close>

definition host_sends :: "u8 list \<Rightarrow> usb_st \<Rightarrow> bool" where
  "host_sends bs s \<longleftrightarrow> (\<forall>t. length (fifo_in t) < length bs \<longrightarrow> ucast (hw s (trace s @ t) UEDATX) = bs ! length (fifo_in t))"

lemma host_sends_later:
  assumes "host_sends bs s" "hw s' = hw s" "trace s' = trace s @ t"
  shows "host_sends (drop (length (fifo_in t)) bs) s'"
  unfolding host_sends_def
proof (intro allI impI)
  fix u assume "length (fifo_in u) < length (drop (length (fifo_in t)) bs)"
  moreover from this have "ucast (hw s (trace s @ t @ u) UEDATX) = bs ! length (fifo_in (t @ u))"
    using assms(1) unfolding host_sends_def by (metis fifo_simps(6) length_append length_drop less_diff_conv add.commute)
  ultimately show "ucast (hw s' (trace s' @ u) UEDATX) = drop (length (fifo_in t)) bs ! length (fifo_in u)"
    using assms(2,3) by simp
qed

lemma host_sends_ram [simp]: "host_sends bs (s\<lparr>ram := m\<rparr>) \<longleftrightarrow> host_sends bs s"
  by (simp add: host_sends_def)

lemma host_sends_ev: "host_sends bs s \<Longrightarrow> fifo_in t = [] \<Longrightarrow> host_sends bs (ev s t)"
  using host_sends_later [of bs s "ev s t" t] by simp

lemma moved_takes:
  assumes "moved UEDATX le_move read_ram k p s s'" "host_sends bs s" "k \<le> length bs"
  shows "\<exists>t. hw s' = hw s \<and> trace s' = trace s @ t \<and> fifo_in t = take k bs"
  using assms
proof (induction arbitrary: bs rule: moved.induct)
  case (other t k p s s')
  then have "host_sends bs (ev s t)" by (simp add: host_sends_ev quiet_fifo)
  then obtain u where "hw s' = hw s" "trace s' = trace s @ t @ u" "fifo_in u = take k bs"
    using other.IH [of bs] other.prems(2) by auto
  with other.hyps(1) show ?case by (intro exI [of _ "t @ u"]) (simp add: quiet_fifo)
next
  case (byte k p s s')
  let ?w = "hw s (trace s) UEDATX"
  have x: "hw (read_ram p s) = hw s" "trace (read_ram p s) = trace s @ [Rd UEDATX ?w]"
    by (simp_all add: read_ram_def Endpoint_Read_8_def io_simps)
  obtain b c where bs: "bs = b # c" using byte.prems(2) by (cases bs) auto
  have w: "ucast ?w = b" using byte.prems(1) [unfolded host_sends_def, THEN spec, of "[]"] by (simp add: bs)
  have "host_sends c (read_ram p s)" using host_sends_later [OF byte.prems(1) x] by (simp add: bs)
  then obtain t where "hw s' = hw s" "trace s' = trace s @ Rd UEDATX ?w # t" "fifo_in t = take k c"
    using byte.IH [of c] byte.prems(2) x by (auto simp: bs)
  with w show ?case by (auto simp: bs intro!: exI [of _ "Rd UEDATX ?w # t"])
qed auto

lemma unat_u16: "unat (L :: u16) \<le> 2 ^ 16"
proof -
  have "unat L < 2 ^ 16" using unsigned_less [of L] by simp
  then show ?thesis by simp
qed

lemma moved_in_sent:
  assumes "moved UEDATX le_move read_ram k p s s'" "host_sends bs s" "k \<le> length bs" "k \<le> 2 ^ 16"
  shows "\<exists>t. s' = ev (s\<lparr>ram := filled p (take k bs) (ram s)\<rparr>) t \<and> fifo_in t = take k bs \<and> fifo_out t = []"
proof -
  obtain t where t: "s' = ev (s\<lparr>ram := filled p (fifo_in t) (ram s)\<rparr>) t" "fifo_out t = []" using moved_in [OF assms(1,4)] by blast
  obtain u where "trace s' = trace s @ u" "fifo_in u = take k bs" using moved_takes [OF assms(1-3)] by blast
  with t(1) have "fifo_in t = take k bs" by simp
  with t show ?thesis by auto
qed

lemma ms_read_sent:
  assumes "ready_ep N s" "no_reset s" "INTERRUPT_CONTROL_ENDPOINT App" "host_sends bs s" "unat L \<le> length bs"
  shows "\<exists>t. ms_stream_loop (Endpoint_Read_Stream_LE App B L) (Some 0) s = Some (True, ev (s\<lparr>ram := filled B (take (unat L) bs) (ram s)\<rparr>) t) \<and>
    fifo_in t = take (unat L) bs \<and> fifo_out t = []"
proof -
  have f: "always (resumes UEDATX ENDPOINT_RWSTREAM_IncompleteTransfer le_move read_ram B L n s) (Endpoint_Read_Stream_LE App B L (Some n) s)"
    if "unat n \<le> unat L" for n s
    using template_resumes(1) [OF assms(3) that, of Endpoint_ClearOUT read_ram B le_offset s]
    by (simp add: Endpoint_Read_Stream_LE_def le_offset_def)
  have g: "returns (goes_on N n (L - n) s) (Endpoint_Read_Stream_LE App B L (Some n) s)" if "ready_ep N s" for n s
    unfolding Endpoint_Read_Stream_LE_def by (rule Template_Endpoint_RW_goes_on [OF that assms(3)]) (simp_all add: read_extends)
  obtain s' where "ms_stream_loop (Endpoint_Read_Stream_LE App B L) (Some 0) s = Some (True, s')" "moved UEDATX le_move read_ram (unat L) B s s'"
    using ms_stream_loop_ends [where n = 0, OF f g read_extends assms(1,2)] unfolding returns_def by auto
  from this(1) moved_in_sent [OF this(2) assms(4,5) unat_u16] show ?thesis by auto
qed

lemma Endpoint_Read_Stream_LE_sent:
  assumes "ready_ep N s" "INTERRUPT_CONTROL_ENDPOINT App" "host_sends bs s" "unat L \<le> length bs"
  shows "\<exists>bp t. Endpoint_Read_Stream_LE App B L None s = Some (0, bp, ev (s\<lparr>ram := filled B (take (unat L) bs) (ram s)\<rparr>) t) \<and>
    fifo_in t = take (unat L) bs \<and> fifo_out t = []"
proof -
  have "returns (\<lambda>(code, _, _). code = 0) (Endpoint_Read_Stream_LE App B L None s)"
    unfolding Endpoint_Read_Stream_LE_def
    by (rule Template_Endpoint_RW_ready [OF assms(1,2)]) (simp_all add: read_extends)
  moreover have "always (\<lambda>(code, bp, s'). bp = None \<and> (\<exists>k. moved UEDATX (le_move) read_ram k B s s' \<and> k \<le> unat L \<and> (code = 0 \<longrightarrow> k = unat L)))
      (Endpoint_Read_Stream_LE App B L None s)"
    using Template_Endpoint_RW_null [OF assms(2), of Endpoint_ClearOUT le_advance read_ram B le_offset L s]
    by (simp add: Endpoint_Read_Stream_LE_def advance_eq le_offset_def)
  ultimately obtain bp s' where s': "Endpoint_Read_Stream_LE App B L None s = Some (0, bp, s')" "moved UEDATX le_move read_ram (unat L) B s s'"
    unfolding returns_def always_def by auto
  from moved_in_sent [OF s'(2) assms(3,4) unat_u16] s'(1) show ?thesis by auto
qed

section \<open>A round with a command\<close>

lemma filled_append:
  fixes a :: u16
  assumes "length bs + length cs \<le> 2 ^ 16" "w = of_nat (length bs)"
  shows "filled (a + w) cs (filled a bs m) = filled a (bs @ cs) m"
proof
  fix x
  show "filled (a + w) cs (filled a bs m) x = filled a (bs @ cs) m x"
  proof (cases "unat (x - a) < length bs")
    case True
    have "unat (x - a - of_nat (length bs)) = 2 ^ 16 + unat (x - a) - length bs" if "length bs < 2 ^ 16"
      using True that by (simp add: unat_sub_if' unat_of_nat take_bit_nat_eq_self)
    then have "cs = [] \<or> length cs \<le> unat (x - a - of_nat (length bs))" using assms(1) by (cases cs) auto
    with True show ?thesis by (auto simp: filled_def nth_append assms(2) diff_diff_eq [symmetric])
  next
    case False
    have "unat (x - a) < 2 ^ 16" using unsigned_less [of "x - a"] by simp
    with False have "length bs < 2 ^ 16" by simp
    with False have "unat (x - a - of_nat (length bs)) = unat (x - a) - length bs"
      by (simp add: unat_sub_if' unat_of_nat take_bit_nat_eq_self)
    with False show ?thesis by (auto simp: filled_def nth_append assms(2) diff_diff_eq [symmetric])
  qed
qed

text \<open>A command block as the host sends it: 15 bytes and the bytes of the command.\<close>

definition cbw :: "u32 \<Rightarrow> u32 \<Rightarrow> u8 \<Rightarrow> u8 \<Rightarrow> u8 list \<Rightarrow> u8 list" where
  "cbw tag len flags lun command = u32_bytes MS_CBW_SIGNATURE @ u32_bytes tag @ u32_bytes len @ [flags, lun, of_nat (length command)] @ command"

text \<open>The state of the interface in memory after the command block was received.\<close>

definition received :: "USB_ClassInfo_MS_Device_t \<Rightarrow> u8 list \<Rightarrow> usb_st \<Rightarrow> usb_st" where
  "received I c s = s\<lparr>ram := filled (MS_State I) c (ram s)\<rparr>"

lemma filled_nth: "i < length c \<Longrightarrow> i < 2 ^ 16 \<Longrightarrow> filled a c m (a + of_nat i) = c ! i"
  using unat_offset [of i a] by (simp add: filled_def)

lemma ram_received [simp]:
  assumes "i < length c" "i < 2 ^ 16"
  shows "ram (received I c s) (MS_State I + of_nat i) = c ! i"
  using filled_nth [OF assms] by (simp add: received_def)

lemma length_cbw: "length (cbw tag len flags lun command) = 15 + length command"
  by (simp add: cbw_def u32_bytes_def)

lemma received_cbw:
  assumes "length command \<le> 16"
  shows "ram_u32 (CB_Signature I) (received I (cbw tag len flags lun command) s) = MS_CBW_SIGNATURE"
    "ram_u32 (CB_Tag I) (received I (cbw tag len flags lun command) s) = tag"
    "ram_u32 (CB_DataTransferLength I) (received I (cbw tag len flags lun command) s) = len"
    "ram (received I (cbw tag len flags lun command) s) (CB_Flags I) = flags"
    "ram (received I (cbw tag len flags lun command) s) (CB_LUN I) = lun"
    "ram (received I (cbw tag len flags lun command) s) (CB_SCSICommandLength I) = of_nat (length command)"
    "\<And>i. i < length command \<Longrightarrow> ram (received I (cbw tag len flags lun command) s) (CB_SCSICommandData I + of_nat i) = command ! i"
proof -
  let ?c = "cbw tag len flags lun command" and ?r = "received I (cbw tag len flags lun command) s"
  have at: "ram ?r (MS_State I + of_nat i) = ?c ! i" if "i < 15 + length command" for i
    by (rule ram_received) (use that assms in \<open>simp_all add: length_cbw\<close>)
  show "ram_u32 (CB_Signature I) ?r = MS_CBW_SIGNATURE"
    using at [of 0] at [of 1] at [of 2] at [of 3] by (simp add: ram_u32_def cbw_def u32_bytes_def u32_of_bytes_def)
  show "ram_u32 (CB_Tag I) ?r = tag"
    using at [of 4] at [of 5] at [of 6] at [of 7] u32_of_u32_bytes [of tag] by (simp add: ram_u32_def cbw_def u32_bytes_def add.assoc)
  show "ram_u32 (CB_DataTransferLength I) ?r = len"
    using at [of 8] at [of 9] at [of 10] at [of 11] u32_of_u32_bytes [of len] by (simp add: ram_u32_def cbw_def u32_bytes_def add.assoc)
  show "ram ?r (CB_Flags I) = flags" "ram ?r (CB_LUN I) = lun" "ram ?r (CB_SCSICommandLength I) = of_nat (length command)"
    using at [of 12] at [of 13] at [of 14] by (simp_all add: cbw_def u32_bytes_def)
  show "ram ?r (CB_SCSICommandData I + of_nat i) = command ! i" if "i < length command" for i
    using at [of "15 + i"] that by (simp add: cbw_def u32_bytes_def add.assoc)
qed

lemma MS_Device_ReadInCommandBlock_good:
  assumes g: "good_host N s" and i: "INTERRUPT_CONTROL_ENDPOINT App" and "host_sends (cbw tag len flags lun command @ rest) s"
    and "lun < TotalLUNs I" "flags AND 0x1F = 0" "command \<noteq> []" "length command \<le> 16"
  shows "\<exists>t. MS_Device_ReadInCommandBlock App I s = Some (True, ev (received I (cbw tag len flags lun command) s) t) \<and>
    fifo_in t = cbw tag len flags lun command \<and> fifo_out t = []"
proof -
  let ?c = "cbw tag len flags lun command"
  define s0 where "s0 = Endpoint_SelectEndpoint (EP_Address (MS_DataOUTEndpoint I)) s"
  obtain x where s0: "s0 = ev s [Wr UENUM x]" by (simp add: s0_def Endpoint_SelectEndpoint_def io_simps)
  have g0: "ready_ep N s0" "no_reset s0" using g good_host_simps(1) [of N s "[Wr UENUM x]"] by (auto simp: s0 good_host_def)
  have h0: "host_sends (?c @ rest) s0" using host_sends_ev [OF assms(3), of "[Wr UENUM x]"] by (simp add: s0)
  have u15: "unat (15 :: u16) = 15" by simp
  obtain t1 where t1: "ms_stream_loop (Endpoint_Read_Stream_LE App (CB_Signature I) 15) (Some 0) s0 =
      Some (True, ev (s0\<lparr>ram := filled (MS_State I) (take 15 ?c) (ram s0)\<rparr>) t1)" "fifo_in t1 = take 15 ?c" "fifo_out t1 = []"
    using ms_read_sent [OF g0 i h0, of 15 "CB_Signature I", unfolded u15] by (auto simp: length_cbw)
  define s1 where "s1 = ev (s0\<lparr>ram := filled (MS_State I) (take 15 ?c) (ram s0)\<rparr>) t1"
  have l14: "take 15 ?c ! 14 = of_nat (length command)" by (simp add: cbw_def u32_bytes_def)
  have c15: "take 15 ?c @ command = ?c" by (simp add: cbw_def u32_bytes_def)
  have r1: "ram s1 = ram (received I (take 15 ?c) s)" by (simp add: s1_def s0 received_def)
  have ram1: "ram s1 (MS_State I + of_nat i) = ram (received I ?c s) (MS_State I + of_nat i)" if "i < 15" for i
    using that by (simp add: r1 length_cbw)
  have same: "command_block_invalid I s1 \<longleftrightarrow> command_block_invalid I (received I ?c s)"
    by (rule command_block_invalid_cong) (use ram1 [of 0] ram1 [of 1] ram1 [of 2] ram1 [of 3] ram1 [of 12] ram1 [of 13] ram1 [of 14] in simp_all)
  have "(of_nat (length command) :: u8) \<noteq> 0" "\<not> of_nat (length command) > (16 :: u8)"
    using assms(6,7) by (simp_all add: word_unat_eq_iff word_less_nat_alt unat_of_nat take_bit_nat_eq_self)
  then have "\<not> command_block_invalid I (received I ?c s)"
    using assms(4,5) received_cbw(1-6) [OF assms(7)] by (simp add: command_block_invalid_def not_le)
  then have valid: "\<not> command_block_invalid I s1 \<and> ram s1 (CB_SCSICommandLength I) = of_nat (length command)"
    using same ram1 [of 14] received_cbw(6) [OF assms(7)] by simp
  have L: "unat (ucast (of_nat (length command) :: u8) :: u16) = length command"
    using assms(7) by (simp add: unsigned_ucast_eq unat_of_nat take_bit_nat_eq_self)
  have g1: "ready_ep N s1" "no_reset s1"
    using good_host_simps(1) [of N s "[Wr UENUM x] @ t1"] g by (auto simp: s1_def s0 good_host_def no_reset_def)
  have h1: "host_sends (command @ rest) s1"
    using host_sends_later [OF h0, of s1 t1] t1(2) by (simp add: s1_def length_cbw) (simp add: cbw_def u32_bytes_def)
  obtain t2 where t2: "ms_stream_loop (Endpoint_Read_Stream_LE App (CB_SCSICommandData I) (ucast (ram s1 (CB_SCSICommandLength I)))) (Some 0) s1 =
      Some (True, ev (s1\<lparr>ram := filled (CB_SCSICommandData I) command (ram s1)\<rparr>) t2)" "fifo_in t2 = command" "fifo_out t2 = []"
    using ms_read_sent [OF g1 i h1, of "ucast (ram s1 (CB_SCSICommandLength I))" "CB_SCSICommandData I"] valid L by auto
  have "filled (CB_SCSICommandData I) command (ram s1) = filled (MS_State I) ?c (ram s)"
    using filled_append [of "take 15 ?c" command 15 "MS_State I" "ram s"] assms(7)
    by (simp add: r1 received_def c15 length_cbw min_def)
  then have e: "ev (s1\<lparr>ram := filled (CB_SCSICommandData I) command (ram s1)\<rparr>) t2 = ev (received I ?c s) ([Wr UENUM x] @ t1 @ t2)"
    by (simp add: s1_def s0 received_def ev_def)
  obtain y z where "Endpoint_ClearOUT (ev (received I ?c s) ([Wr UENUM x] @ t1 @ t2)) =
      ev (received I ?c s) ([Wr UENUM x] @ t1 @ t2 @ [Rd UEINTX y, Wr UEINTX z])"
    by (simp add: Endpoint_ClearOUT_def io_simps)
  then have "MS_Device_ReadInCommandBlock App I s = Some (True, ev (received I ?c s) ([Wr UENUM x] @ t1 @ t2 @ [Rd UEINTX y, Wr UEINTX z]))"
    using t1(1) [folded s1_def] valid t2(1) [unfolded e] unfolding MS_Device_ReadInCommandBlock_def s0_def [symmetric] Let_def by simp
  moreover have "fifo_in ([Wr UENUM x] @ t1 @ t2 @ [Rd UEINTX y, Wr UEINTX z]) = ?c" using t1(2) t2(2) c15 by simp
  ultimately show ?thesis using t1(3) t2(3) by fastforce
qed

text \<open>The round that receives a command: the application is called with the command block in memory and its bytes taken from the FIFO.\<close>

lemma MS_Device_USBTask_good:
  assumes g: "good_host N s" and i: "INTERRUPT_CONTROL_ENDPOINT App" and "ucast (hw s (trace s) USB_DeviceState) = DEVICE_STATE_Configured"
    and h: "host_sends (cbw tag len flags lun command @ rest) s"
    and ok: "lun < TotalLUNs I" "flags AND 0x1F = 0" "command \<noteq> []" "length command \<le> 16"
  shows "\<exists>t. fifo_in t = cbw tag len flags lun command \<and> fifo_out t = [] \<and> MS_Device_USBTask App callback I (d, s) =
    (callback (d, ev (received I (cbw tag len flags lun command) s) t) \<bind> (\<lambda>(ok, d, s). ms_command_done App I ok s \<bind>
      (\<lambda>s. let (reset, s) = rd8 IsMassStoreReset s in Some (d, if reset \<noteq> 0 then ms_reset I s else s))))"
proof -
  let ?c = "cbw tag len flags lun command" and ?w = "hw s (trace s) USB_DeviceState"
  let ?a = "Wr UENUM (ucast (EP_Address (MS_DataOUTEndpoint I) AND ENDPOINT_EPNUM_MASK))"
  let ?s1 = "ev s [Rd USB_DeviceState ?w, ?a]"
  define v where "v = hw ?s1 (trace ?s1) UEINTX"
  let ?s2 = "ev s [Rd USB_DeviceState ?w, ?a, Rd UEINTX v]"
  have "ready_ep N ?s1" using g by (simp add: good_host_def)
  then have v: "(ucast v :: u8) AND RXOUTI \<noteq> 0" by (rule ready_ep_reading(2)) (simp add: reading_def v_def)
  have "host_sends (?c @ rest) ?s2" using host_sends_ev [OF h] by simp
  from MS_Device_ReadInCommandBlock_good [OF good_host_simps(1) [OF g] i this ok]
  obtain t where t: "MS_Device_ReadInCommandBlock App I ?s2 = Some (True, ev (received I ?c ?s2) t)" "fifo_in t = ?c" "fifo_out t = []" by blast
  let ?in = "if flags AND MS_COMMAND_DIR_DATA_IN \<noteq> 0 then [Wr UENUM (ucast (EP_Address (MS_DataINEndpoint I) AND ENDPOINT_EPNUM_MASK))] else []"
  let ?t = "[Rd USB_DeviceState ?w, ?a, Rd UEINTX v] @ t @ ?in"
  define x where "x = ev (received I ?c ?s2) t"
  have f: "ram x (CB_Flags I) = flags" using received_cbw(4) [OF ok(4)] by (simp add: x_def)
  have s3: "(if ram x (CB_Flags I) AND MS_COMMAND_DIR_DATA_IN \<noteq> 0 then Endpoint_SelectEndpoint (EP_Address (MS_DataINEndpoint I)) x else x) =
      ev (received I ?c s) ?t"
    unfolding f by (simp add: x_def Endpoint_SelectEndpoint_def io_simps received_def)
  have "Endpoint_IsOUTReceived ?s1 = (True, ?s2)" using v by (simp add: Endpoint_IsOUTReceived_def io_simps v_def)
  moreover have "Endpoint_SelectEndpoint (EP_Address (MS_DataOUTEndpoint I)) (ev s [Rd USB_DeviceState ?w]) = ?s1"
    by (simp add: Endpoint_SelectEndpoint_def io_simps)
  ultimately have "MS_Device_USBTask App callback I (d, s) =
    (callback (d, ev (received I ?c s) ?t) \<bind> (\<lambda>(ok, d, s). ms_command_done App I ok s \<bind>
      (\<lambda>s. let (reset, s) = rd8 IsMassStoreReset s in Some (d, if reset \<noteq> 0 then ms_reset I s else s))))"
    using assms(3) t(1) [folded x_def] unfolding MS_Device_USBTask_def s3 [symmetric]
    by (simp add: io_simps split del: if_split) (auto intro!: Option.bind_cong)
  then show ?thesis using t(2,3) by (intro exI [of _ ?t]) simp
qed

end
