(* ===== verification/Virtual_FAT.thy ===== *)
theory Virtual_FAT
  imports Lufa_Prelude
begin

text \<open>
  The virtual disk of the mass storage bootloader (\<^verbatim>\<open>Bootloaders/MassStorage/Lib/VirtualFAT.c\<close> and \<^verbatim>\<open>.h\<close>,
  \<^verbatim>\<open>BootloaderAPI.c\<close>), in the configuration of its makefile (AT90USB1287, 8 KB boot section): a FAT12 file system whose two
  files are the flash and the EEPROM memory. A sector is a list of 512 bytes, the packed structures are their bytes. Programming the
  flash is done by the self-programming hardware, which is a parameter with the laws \<open>spm_laws\<close>.
\<close>

abbreviation (input) SECTOR_SIZE_BYTES :: nat where "SECTOR_SIZE_BYTES \<equiv> 512"
abbreviation (input) SECTOR_PER_CLUSTER :: nat where "SECTOR_PER_CLUSTER \<equiv> 4"
abbreviation (input) CLUSTER_SIZE_BYTES :: nat where "CLUSTER_SIZE_BYTES \<equiv> 2048"
abbreviation (input) FLASHEND :: nat where "FLASHEND \<equiv> 0x1FFFF"
abbreviation (input) BOOT_START_ADDR :: nat where "BOOT_START_ADDR \<equiv> 0x1E000"
abbreviation (input) AUX_BOOT_SECTION_SIZE :: nat where "AUX_BOOT_SECTION_SIZE \<equiv> 0"
abbreviation (input) E2END :: nat where "E2END \<equiv> 0xFFF"
abbreviation (input) SPM_PAGESIZE :: u32 where "SPM_PAGESIZE \<equiv> 256"
abbreviation (input) DISK_BLOCK_BootBlock :: u16 where "DISK_BLOCK_BootBlock \<equiv> 0"
abbreviation (input) DISK_BLOCK_FATBlock1 :: u16 where "DISK_BLOCK_FATBlock1 \<equiv> 1"
abbreviation (input) DISK_BLOCK_FATBlock2 :: u16 where "DISK_BLOCK_FATBlock2 \<equiv> 2"
abbreviation (input) DISK_BLOCK_RootFilesBlock :: u16 where "DISK_BLOCK_RootFilesBlock \<equiv> 3"
abbreviation (input) DISK_BLOCK_DataStartBlock :: u16 where "DISK_BLOCK_DataStartBlock \<equiv> 4"

definition FLASH_FILE_SIZE_BYTES :: nat where
  "FLASH_FILE_SIZE_BYTES = FLASHEND - (FLASHEND - BOOT_START_ADDR) - AUX_BOOT_SECTION_SIZE"

definition EEPROM_FILE_SIZE_BYTES :: nat where
  "EEPROM_FILE_SIZE_BYTES = E2END"

definition FILE_SECTORS :: "nat \<Rightarrow> nat" where
  "FILE_SECTORS n = n div SECTOR_SIZE_BYTES + (if n mod SECTOR_SIZE_BYTES \<noteq> 0 then 1 else 0)"

definition FILE_CLUSTERS :: "nat \<Rightarrow> nat" where
  "FILE_CLUSTERS n = n div CLUSTER_SIZE_BYTES + (if n mod CLUSTER_SIZE_BYTES \<noteq> 0 then 1 else 0)"

definition LUN_MEDIA_BLOCKS :: nat where
  "LUN_MEDIA_BLOCKS = FILE_SECTORS FLASH_FILE_SIZE_BYTES + FILE_SECTORS EEPROM_FILE_SIZE_BYTES + 32"

section \<open>The allocation table\<close>

definition UpdateFAT12ClusterEntry :: "u16 \<Rightarrow> u16 \<Rightarrow> u8 list \<Rightarrow> u8 list" where
  "UpdateFAT12ClusterEntry Index ChainEntry FATTable =
     (let FATOffset = ucast (Index + drop_bit 1 Index) :: u8;
          UpperNibble = (Index AND 1 \<noteq> 0);
          o0 = unat FATOffset; o1 = unat FATOffset + 1
      in if UpperNibble
         then let FATTable = FATTable[o0 := (FATTable ! o0 AND 0x0F) OR ucast (push_bit 4 (ChainEntry AND 0x0F))]
              in FATTable[o1 := ucast (drop_bit 4 ChainEntry)]
         else let FATTable = FATTable[o0 := ucast ChainEntry]
              in FATTable[o1 := (FATTable ! o1 AND 0xF0) OR ucast (drop_bit 8 ChainEntry)])"

definition UpdateFAT12ClusterChain :: "u16 \<Rightarrow> u8 \<Rightarrow> u8 list \<Rightarrow> u8 list" where
  "UpdateFAT12ClusterChain Index ChainLength FATTable =
     fold (\<lambda>i FATTable.
         let CurrentCluster = Index + of_nat i;
             NextCluster = (if i = unat ChainLength - 1 then 0xFFF else CurrentCluster + 1)
         in UpdateFAT12ClusterEntry CurrentCluster NextCluster FATTable)
       [0..<unat ChainLength] FATTable"

text \<open>A FAT12 table read the way the file system defines it: entry \<open>i\<close> is the 12 bits from bit \<open>12 * i\<close> on.\<close>

definition fat12 :: "u8 list \<Rightarrow> nat \<Rightarrow> u16" where
  "fat12 t i =
     (let w = ucast (t ! (i + i div 2)) OR push_bit 8 (ucast (t ! (i + i div 2 + 1))) :: u16
      in if odd i then drop_bit 4 w else w AND 0xFFF)"

text \<open>The entries whose offset fits into the eight bits of \<open>FATOffset\<close>.\<close>

definition fat_entry :: "nat \<Rightarrow> bool" where
  "fat_entry i \<longleftrightarrow> i \<le> 170"

lemma low12: "(0xFFF :: u16) = mask 12" "(0x0F :: u16) = mask 4" "(0x0F :: u8) = mask 4" "(0xF0 :: u8) = push_bit 4 (mask 4)"
  by (simp_all add: mask_eq_exp_minus_1)

lemma fat_offset:
  assumes "fat_entry i"
  shows "unat (ucast (of_nat i + drop_bit 1 (of_nat i) :: u16) :: u8) = i + i div 2" "(of_nat i :: u16) AND 1 \<noteq> 0 \<longleftrightarrow> odd i"
proof -
  have i: "i < 2 ^ 16" "i + i div 2 < 2 ^ 8" using assms by (auto simp: fat_entry_def)
  have "drop_bit 1 (of_nat i :: u16) = of_nat (i div 2)" 
    using i by (simp add: word_unat_eq_iff drop_bit_eq_div unat_div unat_of_nat take_bit_nat_eq_self)
  then have "of_nat i + drop_bit 1 (of_nat i) = (of_nat (i + i div 2) :: u16)" by simp
  then show "unat (ucast (of_nat i + drop_bit 1 (of_nat i) :: u16) :: u8) = i + i div 2"
    using i by (simp only: unsigned_ucast_eq unat_of_nat) (simp add: take_bit_nat_eq_self)
  show "(of_nat i :: u16) AND 1 \<noteq> 0 \<longleftrightarrow> odd i"
  proof -
    have "(of_nat i :: u16) AND 1 = of_nat (i mod 2)"
      using i(1) by (simp add: word_unat_eq_iff and_one_eq unat_mod unat_of_nat take_bit_nat_eq_self)
    then show ?thesis by (cases "odd i") (simp_all add: odd_iff_mod_2_eq_one even_iff_mod_2_eq_zero)
  qed
qed

lemma u8_bit: "bit (x :: u8) n \<Longrightarrow> n < 8"
  using bit_imp_le_length [of x n] by simp

lemma fat12_eq:
  "fat12 t (2 * k) = ucast (t ! (3 * k)) OR push_bit 8 (ucast (t ! (3 * k + 1) AND 0x0F))"
  "fat12 t (2 * k + 1) = ucast (drop_bit 4 (t ! (3 * k + 1))) OR push_bit 4 (ucast (t ! (3 * k + 2)))"
  by (auto simp: fat12_def Let_def low12 bit_simps intro!: bit_word_eqI) (auto dest!: u8_bit)

lemma update_eq:
  assumes "fat_entry i" "length t = SECTOR_SIZE_BYTES"
  shows "i = 2 * k \<Longrightarrow> UpdateFAT12ClusterEntry (of_nat i) v t =
      t[3 * k := ucast v, 3 * k + 1 := (t ! (3 * k + 1) AND 0xF0) OR ucast (drop_bit 8 v)]"
    "i = 2 * k + 1 \<Longrightarrow> UpdateFAT12ClusterEntry (of_nat i) v t =
      t[3 * k + 1 := (t ! (3 * k + 1) AND 0x0F) OR ucast (push_bit 4 (v AND 0x0F)), 3 * k + 2 := ucast (drop_bit 4 v)]"
  using fat_offset [OF assms(1)] by (simp_all add: UpdateFAT12ClusterEntry_def Let_def)

lemma parity_cases:
  obtains k where "i = 2 * k" | k where "i = 2 * k + (1 :: nat)"
  by (cases "even i") (auto elim: evenE oddE)

lemma fat12_update:
  assumes "fat_entry i" "fat_entry j" "length t = SECTOR_SIZE_BYTES" "v < 0x1000"
  shows "fat12 (UpdateFAT12ClusterEntry (of_nat i) v t) j = (if j = i then v else fat12 t j)"
proof -
  have len: "i \<le> 170" "j \<le> 170" using assms(1,2) by (simp_all add: fat_entry_def)
  have v: "bit v n \<Longrightarrow> n < 12" for n
  proof -
    assume "bit v n"
    moreover have "v = take_bit 12 v" using assms(4) by (simp add: word_unat_eq_iff unsigned_take_bit_eq word_less_nat_alt take_bit_nat_eq_self)
    ultimately show "n < 12" by (metis bit_take_bit_iff)
  qed
  show ?thesis
  proof (cases i rule: parity_cases)
    case (1 k)
    note u = update_eq(1) [OF assms(1,3) 1]
    show ?thesis
    proof (cases j rule: parity_cases)
      case (1 m)
      show ?thesis
        unfolding u 1 fat12_eq
        using len assms(3) \<open>i = 2 * k\<close> 1 
        by (auto simp: nth_list_update low12 bit_simps intro!: bit_word_eqI; auto dest!: v u8_bit)
    next
      case (2 m)
      show ?thesis
        unfolding u 2 fat12_eq
        using len assms(3) \<open>i = 2 * k\<close> 2 
        by (auto simp: nth_list_update low12 bit_simps intro!: bit_word_eqI; auto dest!: v u8_bit)
    qed
  next
    case (2 k)
    note u = update_eq(2) [OF assms(1,3) 2]
    show ?thesis
    proof (cases j rule: parity_cases)
      case (1 m)
      show ?thesis
        unfolding u 1 fat12_eq
        using len assms(3) \<open>i = 2 * k + 1\<close> 1 
        by (auto simp: nth_list_update low12 bit_simps intro!: bit_word_eqI; auto dest!: v u8_bit)
    next
      case (2 m)
      show ?thesis
        unfolding u 2 fat12_eq
        using len assms(3) \<open>i = 2 * k + 1\<close> 2 
        by (auto simp: nth_list_update low12 bit_simps intro!: bit_word_eqI; auto dest!: v u8_bit)
    qed
  qed
qed

text \<open>What the writer of a chain relies on: an entry is updated and no other one changes.\<close>

locale entry_table =
  fixes upd :: "nat \<Rightarrow> 'v \<Rightarrow> 't \<Rightarrow> 't"
    and get :: "'t \<Rightarrow> nat \<Rightarrow> 'v"
    and index :: "nat \<Rightarrow> bool"
    and val :: "'v \<Rightarrow> bool"
    and shape :: "'t \<Rightarrow> bool"
  assumes get_upd: "index i \<Longrightarrow> index j \<Longrightarrow> shape t \<Longrightarrow> val v \<Longrightarrow> get (upd i v t) j = (if j = i then v else get t j)"
    and shape_upd: "shape t \<Longrightarrow> shape (upd i v t)"
begin

lemma shape_run: "shape t \<Longrightarrow> shape (fold (\<lambda>i. upd (a + i) (f i)) is t)"
  by (induction "is" arbitrary: t) (simp_all add: shape_upd)

text \<open>A run of updates of consecutive entries.\<close>

lemma get_run:
  assumes "shape t" "index j" "\<forall>i<n. index (a + i) \<and> val (f i)"
  shows "get (fold (\<lambda>i. upd (a + i) (f i)) [0..<n] t) j = (if a \<le> j \<and> j < a + n then f (j - a) else get t j)"
  using assms(3)
proof (induction n)
  case (Suc n)
  then show ?case
    using get_upd [of "a + n" j "fold (\<lambda>i. upd (a + i) (f i)) [0..<n] t" "f n"] assms(1,2) shape_run [OF assms(1)]
    by auto
qed auto

end

interpretation fat: entry_table "\<lambda>i v t. UpdateFAT12ClusterEntry (of_nat i) v t" fat12 fat_entry "\<lambda>v. v < 0x1000"
  "\<lambda>t. length t = SECTOR_SIZE_BYTES"
proof unfold_locales
  show "length (UpdateFAT12ClusterEntry (of_nat i) v t) = SECTOR_SIZE_BYTES" if "length t = SECTOR_SIZE_BYTES" for i v t
    using that by (simp add: UpdateFAT12ClusterEntry_def Let_def)
qed (simp add: fat12_update)

lemma chain_run:
  "UpdateFAT12ClusterChain (of_nat a) n t = fold (\<lambda>i. UpdateFAT12ClusterEntry (of_nat (a + i))
     (if i = unat n - 1 then 0xFFF else of_nat (a + i + 1))) [0..<unat n] t"
  unfolding UpdateFAT12ClusterChain_def Let_def of_nat_add of_nat_1 by (rule refl)

lemma fat12_chain:
  assumes "length t = SECTOR_SIZE_BYTES" "fat_entry j" "a + unat n \<le> 171"
  shows "fat12 (UpdateFAT12ClusterChain (of_nat a) n t) j =
    (if a \<le> j \<and> j < a + unat n then if j = a + unat n - 1 then 0xFFF else of_nat (j + 1) else fat12 t j)"
proof -
  have "of_nat (a + i + 1) < (0x1000 :: u16)" if "i < unat n" for i
    using that assms(3) by (simp only: word_less_nat_alt unat_of_nat) (simp add: take_bit_nat_eq_self)
  then have "\<forall>i<unat n. fat_entry (a + i) \<and> (if i = unat n - 1 then 0xFFF else of_nat (a + i + 1)) < (0x1000 :: u16)"
    using assms(3) by (auto simp: fat_entry_def)
  from fat.get_run [OF assms(1,2) this] show ?thesis
    unfolding chain_run by (auto split: if_splits)
qed

lemma length_chain: "length t = SECTOR_SIZE_BYTES \<Longrightarrow> length (UpdateFAT12ClusterChain (of_nat a) n t) = SECTOR_SIZE_BYTES"
  unfolding chain_run by (rule fat.shape_run)

section \<open>The blocks of the disk\<close>

definition le16 :: "u16 \<Rightarrow> u8 list" where "le16 w = [ucast w, ucast (drop_bit 8 w)]"
definition le32 :: "u32 \<Rightarrow> u8 list" where "le32 w = [ucast w, ucast (drop_bit 8 w), ucast (drop_bit 16 w), ucast (drop_bit 24 w)]"
definition text_bytes :: "string \<Rightarrow> u8 list" where "text_bytes cs = map of_char cs"

definition BootBlock :: "u8 list" where
  "BootBlock = [0xEB, 0x3C, 0x90] @ text_bytes ''mkdosfs'' @ [0] @ le16 512 @ [4] @ le16 1 @ [2] @ le16 16 @
     le16 (of_nat LUN_MEDIA_BLOCKS) @ [0xF8] @ le16 1 @ le16 (of_nat (LUN_MEDIA_BLOCKS mod 64)) @
     le16 (of_nat (LUN_MEDIA_BLOCKS div 64)) @ le32 0 @ le32 0 @ le16 0 @ [0x29] @ le32 0x12345678 @
     text_bytes ''LUFA BOOT  '' @ text_bytes ''FAT12   ''"

definition FAT_TIME :: "u16 \<Rightarrow> u16 \<Rightarrow> u16 \<Rightarrow> u16" where
  "FAT_TIME hh mm ss = push_bit 11 hh OR push_bit 5 mm OR drop_bit 1 ss"

definition FAT_DATE :: "u16 \<Rightarrow> u16 \<Rightarrow> u16 \<Rightarrow> u16" where
  "FAT_DATE dd mm yyyy = push_bit 9 (yyyy - 1980) OR push_bit 5 mm OR push_bit 0 dd"

definition ROT8 :: "u8 \<Rightarrow> u8" where
  "ROT8 x = drop_bit 1 (x AND 0xFE) OR (if x AND 1 \<noteq> 0 then 0x80 else 0)"

text \<open>Only the low eight bits of the nested sums matter.\<close>

definition FAT_CHECKSUM :: "u8 list \<Rightarrow> u8" where
  "FAT_CHECKSUM name = fold (\<lambda>c x. ROT8 x + c) (tl name) (hd name)"

definition lfn_entry :: "string \<Rightarrow> u8 list \<Rightarrow> u8 list" where
  "lfn_entry shortname unicode = [1 OR 0x40] @ concat (map (le16 \<circ> ucast) (take 5 unicode)) @ [0x0F, 0, FAT_CHECKSUM (text_bytes shortname)] @
     concat (map (le16 \<circ> ucast) (take 6 (drop 5 unicode))) @ le16 0 @ concat (map (le16 \<circ> ucast) (drop 11 unicode))"

definition file_entry :: "string \<Rightarrow> u16 \<Rightarrow> u32 \<Rightarrow> u8 list" where
  "file_entry name cluster bytes = text_bytes name @ [0] @ replicate 10 0 @ le16 (FAT_TIME 1 1 0) @ le16 (FAT_DATE 14 2 1989) @
     le16 cluster @ le32 bytes"

definition initial_entries :: "u8 list" where
  "initial_entries =
     (text_bytes ''LUFA BOOT  '' @ [8] @ replicate 10 0 @ le16 0 @ le16 0 @ le16 0 @ le32 0) @
     lfn_entry ''FLASH   BIN'' (text_bytes ''FLASH.BIN'' @ replicate 4 0) @
     file_entry ''FLASH   BIN'' 2 (of_nat FLASH_FILE_SIZE_BYTES) @
     lfn_entry ''EEPROM  BIN'' (text_bytes ''EEPROM.BIN'' @ replicate 3 0) @
     file_entry ''EEPROM  BIN'' (2 + of_nat (FILE_CLUSTERS FLASH_FILE_SIZE_BYTES)) (of_nat EEPROM_FILE_SIZE_BYTES)"

text \<open>The self-programming hardware, on a state of its own: the operations of \<^verbatim>\<open>avr/boot.h\<close> and the read of a flash byte.\<close>

record 'f spm =
  boot_page_erase :: "u32 \<Rightarrow> 'f \<Rightarrow> 'f"
  boot_page_fill :: "u32 \<Rightarrow> u16 \<Rightarrow> 'f \<Rightarrow> 'f"
  boot_page_write :: "u32 \<Rightarrow> 'f \<Rightarrow> 'f"
  boot_rww_enable :: "'f \<Rightarrow> 'f"
  pgm_read_byte_far :: "u32 \<Rightarrow> 'f \<Rightarrow> u8"

record 'f vdisk =
  FirmwareFileEntries :: "u8 list"
  flash_mem :: 'f
  eeprom_mem :: "u16 \<Rightarrow> u8"

definition IsPageAddressValid :: "u32 \<Rightarrow> bool" where
  "IsPageAddressValid Address \<longleftrightarrow> Address < of_nat BOOT_START_ADDR \<and> Address AND (SPM_PAGESIZE - 1) = 0"

definition BootloaderAPI_ErasePage :: "'f spm \<Rightarrow> u32 \<Rightarrow> 'f \<Rightarrow> 'f" where
  "BootloaderAPI_ErasePage S Address f =
     (if \<not> IsPageAddressValid Address then f else boot_rww_enable S (boot_page_erase S Address f))"

definition BootloaderAPI_WritePage :: "'f spm \<Rightarrow> u32 \<Rightarrow> 'f \<Rightarrow> 'f" where
  "BootloaderAPI_WritePage S Address f =
     (if \<not> IsPageAddressValid Address then f else boot_rww_enable S (boot_page_write S Address f))"

definition BootloaderAPI_FillWord :: "'f spm \<Rightarrow> u32 \<Rightarrow> u16 \<Rightarrow> 'f \<Rightarrow> 'f" where
  "BootloaderAPI_FillWord S Address Word f = boot_page_fill S Address Word f"

text \<open>\<open>*FLASHFileStartCluster\<close> and \<open>*EEPROMFileStartCluster\<close>: the field \<open>StartingCluster\<close>, at byte 26, of entries 2 and 4.\<close>

definition StartingCluster :: "nat \<Rightarrow> 'f vdisk \<Rightarrow> u16" where
  "StartingCluster e d = ucast (FirmwareFileEntries d ! (32 * e + 26)) OR push_bit 8 (ucast (FirmwareFileEntries d ! (32 * e + 27)))"

definition FileStartBlock :: "u16 \<Rightarrow> u16" where
  "FileStartBlock cluster = DISK_BLOCK_DataStartBlock + (cluster - 2) * of_nat SECTOR_PER_CLUSTER"

definition flash_read_block :: "'f spm \<Rightarrow> u32 \<Rightarrow> 'f \<Rightarrow> u8 list" where
  "flash_read_block S FlashAddress f = map (\<lambda>i. pgm_read_byte_far S (FlashAddress + of_nat i) f) [0..<SECTOR_SIZE_BYTES]"

definition flash_write_word :: "'f spm \<Rightarrow> u8 list \<Rightarrow> nat \<Rightarrow> u32 \<times> 'f \<Rightarrow> u32 \<times> 'f" where
  "flash_write_word S BlockBuffer i = (\<lambda>(FlashAddress, f).
     let f = (if FlashAddress mod SPM_PAGESIZE = 0 then BootloaderAPI_ErasePage S FlashAddress f else f);
         f = BootloaderAPI_FillWord S FlashAddress (push_bit 8 (ucast (BlockBuffer ! (i + 1))) OR ucast (BlockBuffer ! i)) f;
         FlashAddress = FlashAddress + 2;
         f = (if FlashAddress mod SPM_PAGESIZE = 0 then BootloaderAPI_WritePage S (FlashAddress - SPM_PAGESIZE) f else f)
     in (FlashAddress, f))"

definition flash_write_block :: "'f spm \<Rightarrow> u8 list \<Rightarrow> u32 \<Rightarrow> 'f \<Rightarrow> 'f" where
  "flash_write_block S BlockBuffer FlashAddress f =
     snd (fold (flash_write_word S BlockBuffer) (map (\<lambda>k. 2 * k) [0..<SECTOR_SIZE_BYTES div 2]) (FlashAddress, f))"

definition ReadWriteFLASHFileBlock :: "'f spm \<Rightarrow> u16 \<Rightarrow> u8 list \<Rightarrow> bool \<Rightarrow> 'f vdisk \<Rightarrow> u8 list \<times> 'f vdisk" where
  "ReadWriteFLASHFileBlock S BlockNumber BlockBuffer Rd d =
     (let Start = FileStartBlock (StartingCluster 2 d);
          End = Start + (of_nat (FILE_SECTORS FLASH_FILE_SIZE_BYTES) - 1)
      in if \<not> (BlockNumber \<ge> Start \<and> BlockNumber \<le> End) then (BlockBuffer, d)
         else let FlashAddress = ucast (BlockNumber - Start) * of_nat SECTOR_SIZE_BYTES
              in if Rd then (flash_read_block S FlashAddress (flash_mem d), d)
                 else (BlockBuffer, d\<lparr>flash_mem := flash_write_block S BlockBuffer FlashAddress (flash_mem d)\<rparr>))"

definition ReadWriteEEPROMFileBlock :: "u16 \<Rightarrow> u8 list \<Rightarrow> bool \<Rightarrow> 'f vdisk \<Rightarrow> u8 list \<times> 'f vdisk" where
  "ReadWriteEEPROMFileBlock BlockNumber BlockBuffer Rd d =
     (let Start = FileStartBlock (StartingCluster 4 d);
          End = Start + (of_nat (FILE_SECTORS EEPROM_FILE_SIZE_BYTES) - 1)
      in if \<not> (BlockNumber \<ge> Start \<and> BlockNumber \<le> End) then (BlockBuffer, d)
         else let EEPROMAddress = (BlockNumber - Start) * of_nat SECTOR_SIZE_BYTES
              in if Rd then (map (\<lambda>i. eeprom_mem d (EEPROMAddress + of_nat i)) [0..<SECTOR_SIZE_BYTES], d)
                 else (BlockBuffer, d\<lparr>eeprom_mem := fold (\<lambda>i m. m(EEPROMAddress + of_nat i := BlockBuffer ! i))
                   [0..<SECTOR_SIZE_BYTES] (eeprom_mem d)\<rparr>))"

text \<open>The two \<open>switch\<close> statements, on a block already received, and up to the block that is then sent.\<close>

definition store_block :: "'f spm \<Rightarrow> u16 \<Rightarrow> u8 list \<Rightarrow> 'f vdisk \<Rightarrow> 'f vdisk" where
  "store_block S BlockNumber BlockBuffer d =
     (if BlockNumber = DISK_BLOCK_BootBlock \<or> BlockNumber = DISK_BLOCK_FATBlock1 \<or> BlockNumber = DISK_BLOCK_FATBlock2 then d
      else if BlockNumber = DISK_BLOCK_RootFilesBlock then d\<lparr>FirmwareFileEntries := take 160 BlockBuffer\<rparr>
      else let (BlockBuffer, d) = ReadWriteFLASHFileBlock S BlockNumber BlockBuffer False d;
               (BlockBuffer, d) = ReadWriteEEPROMFileBlock BlockNumber BlockBuffer False d
           in d)"

definition load_block :: "'f spm \<Rightarrow> u16 \<Rightarrow> 'f vdisk \<Rightarrow> u8 list" where
  "load_block S BlockNumber d =
     (let BlockBuffer = replicate SECTOR_SIZE_BYTES 0
      in if BlockNumber = DISK_BLOCK_BootBlock
         then (BootBlock @ drop (length BootBlock) BlockBuffer)[SECTOR_SIZE_BYTES - 2 := 0x55, SECTOR_SIZE_BYTES - 1 := 0xAA]
         else if BlockNumber = DISK_BLOCK_FATBlock1 \<or> BlockNumber = DISK_BLOCK_FATBlock2
         then let BlockBuffer = UpdateFAT12ClusterEntry 0 (0xF00 OR 0xF8) BlockBuffer;
                  BlockBuffer = UpdateFAT12ClusterEntry 1 0xFFF BlockBuffer;
                  BlockBuffer = UpdateFAT12ClusterChain (StartingCluster 2 d) (of_nat (FILE_CLUSTERS FLASH_FILE_SIZE_BYTES)) BlockBuffer
              in UpdateFAT12ClusterChain (StartingCluster 4 d) (of_nat (FILE_CLUSTERS EEPROM_FILE_SIZE_BYTES)) BlockBuffer
         else if BlockNumber = DISK_BLOCK_RootFilesBlock
         then FirmwareFileEntries d @ drop (length (FirmwareFileEntries d)) BlockBuffer
         else let (BlockBuffer, d) = ReadWriteFLASHFileBlock S BlockNumber BlockBuffer True d
              in fst (ReadWriteEEPROMFileBlock BlockNumber BlockBuffer True d))"

section \<open>Programming a page\<close>

text \<open>
  What the hardware does: filling changes one word of the temporary buffer \<open>buf\<close>, erasing sets the bytes of one page, writing copies
  the buffer to a page that was erased and never changes another page.
\<close>

definition spm_laws :: "'f spm \<Rightarrow> ('f \<Rightarrow> u32 \<Rightarrow> u8) \<Rightarrow> bool" where
  "spm_laws S buf \<longleftrightarrow>
     (\<forall>a w f x. pgm_read_byte_far S x (boot_page_fill S a w f) = pgm_read_byte_far S x f) \<and>
     (\<forall>a w f x. buf (boot_page_fill S a w f) x =
        (if x = a mod SPM_PAGESIZE then ucast w else if x = a mod SPM_PAGESIZE + 1 then ucast (drop_bit 8 w) else buf f x)) \<and>
     (\<forall>a f x. pgm_read_byte_far S x (boot_page_erase S a f) =
        (if x div SPM_PAGESIZE = a div SPM_PAGESIZE then 0xFF else pgm_read_byte_far S x f)) \<and>
     (\<forall>a f x. (\<forall>y. y div SPM_PAGESIZE = a div SPM_PAGESIZE \<longrightarrow> pgm_read_byte_far S y f = 0xFF) \<longrightarrow>
        pgm_read_byte_far S x (boot_page_write S a f) =
        (if x div SPM_PAGESIZE = a div SPM_PAGESIZE then buf f (x mod SPM_PAGESIZE) else pgm_read_byte_far S x f)) \<and>
     (\<forall>a f x. x div SPM_PAGESIZE \<noteq> a div SPM_PAGESIZE \<longrightarrow> pgm_read_byte_far S x (boot_page_write S a f) = pgm_read_byte_far S x f) \<and>
     (\<forall>f x. pgm_read_byte_far S x (boot_rww_enable S f) = pgm_read_byte_far S x f)"

lemma page_arith:
  fixes A :: u32
  assumes "A mod 256 = 0" "k < 256"
  shows "(A + of_nat k) mod 256 = of_nat k" "(A + of_nat k) div 256 = A div 256" "unat (A + of_nat k) = unat A + k"
proof -
  have "unat A mod 256 = 0" using arg_cong [OF assms(1), of unat] by (simp add: unat_mod)
  then obtain p where p: "unat A = 256 * p" by auto
  have "unat A < 2 ^ 32" using unsigned_less [of A] by simp
  then have "256 * p + k < 2 ^ 32" using p assms(2) by simp
  then show u: "unat (A + of_nat k) = unat A + k"
    using p assms(2) by (simp add: unat_word_ariths unat_of_nat take_bit_nat_eq_self)
  show "(A + of_nat k) mod 256 = of_nat k" "(A + of_nat k) div 256 = A div 256"
    using p assms(2) by (simp_all add: word_unat_eq_iff unat_mod unat_div u unat_of_nat take_bit_nat_eq_self)
qed

lemma page_offset:
  fixes A x :: u32
  assumes "A mod 256 = 0"
  shows "x div 256 = A div 256 \<longleftrightarrow> unat A \<le> unat x \<and> unat x < unat A + 256"
    "x div 256 = A div 256 \<Longrightarrow> unat (x mod 256) = unat x - unat A"
proof -
  have "unat A mod 256 = 0" using arg_cong [OF assms, of unat] by (simp add: unat_mod)
  then obtain p where p: "unat A = 256 * p" by auto
  show "x div 256 = A div 256 \<longleftrightarrow> unat A \<le> unat x \<and> unat x < unat A + 256"
    unfolding word_unat_eq_iff unat_div p by auto
  moreover have "unat x mod 256 = unat x - 256 * p" if "256 * p \<le> unat x" "unat x < 256 * p + 256"
    using that mod_mult_self2 [of "unat x - 256 * p" 256 p] by simp
  ultimately show "x div 256 = A div 256 \<Longrightarrow> unat (x mod 256) = unat x - unat A"
    by (simp add: unat_mod p)
qed

lemma valid_page: "IsPageAddressValid A \<longleftrightarrow> unat A < BOOT_START_ADDR \<and> A mod 256 = 0"
proof -
  have "(255 :: u32) = mask 8" by (simp add: mask_eq_exp_minus_1)
  then have "A AND 255 = A mod 256" using take_bit_eq_mask [of 8 A] take_bit_eq_mod [of 8 A] by simp
  then show ?thesis by (simp add: IsPageAddressValid_def word_less_nat_alt)
qed

lemma of_nat_0_u32: "m < 2 ^ 32 \<Longrightarrow> (of_nat m :: u32) = 0 \<longleftrightarrow> m = 0"
  using of_nat_neq_0_word [of m, where 'a = 32] by auto

lemma flash_write_step:
  fixes A :: u32
  assumes "A mod 256 = 0" "unat A < BOOT_START_ADDR" "k < 128"
  shows "flash_write_word S b i (A + of_nat (2 * k), f) =
    (let f = (if k = 0 then boot_rww_enable S (boot_page_erase S A f) else f);
         f = boot_page_fill S (A + of_nat (2 * k)) (push_bit 8 (ucast (b ! (i + 1))) OR ucast (b ! i)) f
     in (A + of_nat (2 * Suc k), if k = 127 then boot_rww_enable S (boot_page_write S A f) else f))"
proof -
  have m0: "(A + of_nat (2 * k)) mod 256 = 0 \<longleftrightarrow> k = 0"
    using assms(3) page_arith(1) [OF assms(1), of "2 * k"] of_nat_0_u32 [of "2 * k"] by (simp del: of_nat_mult)
  have u: "unat (A + 256) = unat A + 256" using assms(2) by (simp add: unat_word_ariths)
  have "unat ((A + 256) mod 256) = unat (A mod 256)" unfolding unat_mod u by simp
  then have A256: "(A + 256) mod 256 = 0" using assms(1) by (simp add: word_unat_eq_iff)
  have m1: "(A + of_nat (2 * Suc k)) mod 256 = 0 \<longleftrightarrow> k = 127"
  proof (cases "k = 127")
    case False
    then show ?thesis
      using assms(3) page_arith(1) [OF assms(1), of "2 * Suc k"] of_nat_0_u32 [of "2 * Suc k"] by (simp del: of_nat_mult mult_Suc_right of_nat_add)
  qed (use A256 in simp)
  have next_addr: "A + of_nat (2 * k) + 2 = A + of_nat (2 * Suc k)" by (simp add: algebra_simps)
  have valid: "IsPageAddressValid A" using assms by (simp add: valid_page)
  show ?thesis
    unfolding flash_write_word_def prod.case next_addr Let_def m0 m1 BootloaderAPI_ErasePage_def BootloaderAPI_FillWord_def BootloaderAPI_WritePage_def
    using valid by auto
qed

lemma of_nat_eq_u32: "m < 2 ^ 32 \<Longrightarrow> n < 2 ^ 32 \<Longrightarrow> (of_nat m :: u32) = of_nat n \<longleftrightarrow> m = n"
  by (simp add: word_unat_eq_iff unat_of_nat take_bit_nat_eq_self)

lemma word_bytes:
  "ucast (push_bit 8 (ucast h) OR ucast l :: u16) = (l :: u8)" "ucast (drop_bit 8 (push_bit 8 (ucast h) OR ucast l :: u16)) = (h :: u8)"
  by (auto simp: bit_simps intro!: bit_word_eqI) (auto dest!: u8_bit)

lemma flash_write_page:
  fixes A :: u32
  assumes laws: "spm_laws S buf" and A: "A mod 256 = 0" "unat A < BOOT_START_ADDR"
  shows "\<exists>f'. fold (flash_write_word S b) (map (\<lambda>k. c + 2 * k) [0..<128]) (A, f) = (A + 256, f') \<and>
    (\<forall>x. pgm_read_byte_far S x f' = (if x div 256 = A div 256 then b ! (c + unat (x mod 256)) else pgm_read_byte_far S x f))"
proof -
  let ?rd = "pgm_read_byte_far S" and ?run = "\<lambda>n. fold (flash_write_word S b) (map (\<lambda>k. c + 2 * k) [0..<n]) (A, f)"
  have fill: "\<And>a w f x. ?rd x (boot_page_fill S a w f) = ?rd x f"
      "\<And>a w f x. buf (boot_page_fill S a w f) x = (if x = a mod 256 then ucast w else if x = a mod 256 + 1 then ucast (drop_bit 8 w) else buf f x)"
    and erase: "\<And>a f x. ?rd x (boot_page_erase S a f) = (if x div 256 = a div 256 then 0xFF else ?rd x f)"
    and wr: "\<And>a f x. (\<forall>y. y div 256 = a div 256 \<longrightarrow> ?rd y f = 0xFF) \<Longrightarrow>
      ?rd x (boot_page_write S a f) = (if x div 256 = a div 256 then buf f (x mod 256) else ?rd x f)"
    and rww: "\<And>f x. ?rd x (boot_rww_enable S f) = ?rd x f"
    using laws unfolding spm_laws_def by blast+
  define loaded where "loaded n f' \<longleftrightarrow> (\<forall>x. ?rd x f' = (if x div 256 = A div 256 then 0xFF else ?rd x f)) \<and>
      (\<forall>i<2 * n. buf f' (of_nat i) = b ! (c + i))" for n f'
  have loadedD: "buf g y = b ! (c + unat y)" if "loaded 128 g" "unat y < 256" for g y
    using that by (auto simp: loaded_def dest!: spec [of _ "unat y"])
  have load: "loaded (Suc k) (boot_page_fill S (A + of_nat (2 * k)) (push_bit 8 (ucast (b ! (c + 2 * k + 1))) OR ucast (b ! (c + 2 * k))) f')"
    if k: "k < 128" and l: "loaded k f'" for k f'
  proof -
    let ?g = "boot_page_fill S (A + of_nat (2 * k)) (push_bit 8 (ucast (b ! (c + 2 * k + 1))) OR ucast (b ! (c + 2 * k))) f'"
    have low: "(A + of_nat (2 * k)) mod 256 = of_nat (2 * k)" using k by (intro page_arith(1) [OF A(1)]) simp
    have byte: "buf ?g (of_nat i) = (if i = 2 * k then b ! (c + 2 * k) else if i = 2 * k + 1 then b ! (c + 2 * k + 1) else buf f' (of_nat i))" if "i < 256" for i
    proof -
      have "(of_nat i :: u32) = of_nat (2 * k) \<longleftrightarrow> i = 2 * k" "(of_nat i :: u32) = of_nat (2 * k) + 1 \<longleftrightarrow> i = 2 * k + 1"
        using that k of_nat_eq_u32 [of i "2 * k"] of_nat_eq_u32 [of i "2 * k + 1"] by (simp_all only: of_nat_add of_nat_1) simp_all
      then show ?thesis unfolding fill(2) low word_bytes by simp
    qed
    have "buf ?g (of_nat i) = b ! (c + i)" if "i < 2 * Suc k" for i
    proof -
      have "i < 2 * k \<or> i = 2 * k \<or> i = 2 * k + 1" "i < 256" using that k by auto
      with l byte [of i] show ?thesis by (elim disjE) (simp_all add: loaded_def add.assoc)
    qed
    then show ?thesis using l by (simp add: loaded_def fill(1))
  qed
  have "\<exists>f'. ?run (Suc n) = (A + of_nat (2 * Suc n), f') \<and> loaded (Suc n) f'" if "n < 127" for n
    using that
  proof (induction n)
    case 0
    have "loaded 0 (boot_rww_enable S (boot_page_erase S A f))" by (simp add: loaded_def rww erase)
    from load [OF _ this] show ?case using flash_write_step [OF A, of 0 S b c f] by simp
  next
    case (Suc n)
    then obtain f' where f': "?run (Suc n) = (A + of_nat (2 * Suc n), f')" "loaded (Suc n) f'" by auto
    have "[0..<Suc (Suc n)] = [0..<Suc n] @ [Suc n]" by simp
    then have "?run (Suc (Suc n)) = flash_write_word S b (c + 2 * Suc n) (A + of_nat (2 * Suc n), f')"
      using f'(1) by (simp only: map_append fold_append list.map fold.simps comp_def id_apply)
    then show ?case using Suc.prems flash_write_step [OF A, of "Suc n" S b] load [OF _ f'(2)] by (simp add: Let_def)
  qed
  from this [of 126] obtain f' where f': "?run 127 = (A + of_nat (2 * 127), f')" "loaded 127 f'" by auto
  let ?f = "boot_page_fill S (A + of_nat (2 * 127)) (push_bit 8 (ucast (b ! (c + 2 * 127 + 1))) OR ucast (b ! (c + 2 * 127))) f'"
  have full: "loaded 128 ?f" using load [of 127 f'] f'(2) by simp
  have "[0..<128] = [0..<127] @ [127]" using upt_Suc_append [of 0 127] by simp
  then have "?run 128 = flash_write_word S b (c + 2 * 127) (A + of_nat (2 * 127), f')"
    using f'(1) by (simp only: map_append fold_append list.map fold.simps comp_def id_apply)
  also have "\<dots> = (A + 256, boot_rww_enable S (boot_page_write S A ?f))"
    using flash_write_step [OF A, of 127 S b] by (simp add: Let_def)
  finally have run: "?run 128 = (A + 256, boot_rww_enable S (boot_page_write S A ?f))" .
  have "?rd x (boot_rww_enable S (boot_page_write S A ?f)) = (if x div 256 = A div 256 then b ! (c + unat (x mod 256)) else ?rd x f)" for x
  proof -
    have "unat (x mod 256) < 256" by (simp add: unat_mod)
    then have "buf ?f (x mod 256) = b ! (c + unat (x mod 256))" by (rule loadedD [OF full])
    then show ?thesis using full by (simp add: rww wr loaded_def)
  qed
  with run show ?thesis by blast
qed

lemma map_upt_add: "map f [0..<m + n] = map f [0..<m] @ map (\<lambda>k. f (m + k)) [0..<n]"
  by (induction n) simp_all

text \<open>A sector is two pages.\<close>

lemma flash_write_block_reads:
  fixes A :: u32
  assumes laws: "spm_laws S buf" and A: "unat A mod 512 = 0" "unat A < BOOT_START_ADDR"
  shows "pgm_read_byte_far S x (flash_write_block S b A f) =
    (if unat A \<le> unat x \<and> unat x < unat A + 512 then b ! (unat x - unat A) else pgm_read_byte_far S x f)"
proof -
  obtain q where q: "unat A = 512 * q" using A(1) by auto
  then have A0: "A mod 256 = 0" by (simp add: word_unat_eq_iff unat_mod)
  have bound: "unat A + 512 \<le> BOOT_START_ADDR" using q A(2) by simp
  have u: "unat (A + 256) = unat A + 256" using A(2) by (simp add: unat_word_ariths)
  then have A1: "(A + 256) mod 256 = 0" using q by (simp add: word_unat_eq_iff unat_mod)
  obtain f1 where f1: "fold (flash_write_word S b) (map (\<lambda>k. 0 + 2 * k) [0..<128]) (A, f) = (A + 256, f1)"
      "\<And>x. pgm_read_byte_far S x f1 = (if x div 256 = A div 256 then b ! (0 + unat (x mod 256)) else pgm_read_byte_far S x f)"
    using flash_write_page [OF laws A0 A(2), of b 0 f] by blast
  obtain f2 where f2: "fold (flash_write_word S b) (map (\<lambda>k. 256 + 2 * k) [0..<128]) (A + 256, f1) = (A + 256 + 256, f2)"
      "\<And>x. pgm_read_byte_far S x f2 = (if x div 256 = (A + 256) div 256 then b ! (256 + unat (x mod 256)) else pgm_read_byte_far S x f1)"
    using flash_write_page [OF laws A1, of b 256 f1] bound u by auto
  have "map (\<lambda>k. 2 * k) [0..<512 div 2] = map (\<lambda>k. 0 + 2 * k) [0..<128] @ map (\<lambda>k. 256 + 2 * k) [0..<128 :: nat]"
  proof -
    have "512 div 2 = 128 + (128 :: nat)" "\<And>k. 2 * (128 + k) = 256 + 2 * (k :: nat)" by simp_all
    then show ?thesis by (simp only: map_upt_add add_0)
  qed
  then have "flash_write_block S b A f = f2"
    by (simp only: flash_write_block_def fold_append comp_def f1(1) f2(1) snd_conv)
  moreover have "pgm_read_byte_far S x f2 = (if unat A \<le> unat x \<and> unat x < unat A + 512 then b ! (unat x - unat A) else pgm_read_byte_far S x f)"
    unfolding f2(2) f1(2) using page_offset [OF A0, of x] page_offset [OF A1, of x] u by auto
  ultimately show ?thesis by simp
qed

text \<open>Whatever the address, no byte of the bootloader is changed: erasing and writing check the address of the page.\<close>

lemma boot_page_apart:
  fixes A x :: u32
  assumes "BOOT_START_ADDR \<le> unat x" "unat A < BOOT_START_ADDR"
  shows "x div SPM_PAGESIZE \<noteq> A div SPM_PAGESIZE"
proof
  assume "x div SPM_PAGESIZE = A div SPM_PAGESIZE"
  then have "unat x div 256 = unat A div 256" by (simp add: word_unat_eq_iff unat_div)
  moreover have "480 \<le> unat x div 256" "unat A div 256 < 480" using assms by auto
  ultimately show False by simp
qed

lemma flash_write_word_boot:
  assumes "spm_laws S buf" "BOOT_START_ADDR \<le> unat x"
  shows "pgm_read_byte_far S x (snd (flash_write_word S b i (A, f))) = pgm_read_byte_far S x f"
  using assms(1) boot_page_apart [OF assms(2)]
  by (simp add: flash_write_word_def Let_def BootloaderAPI_ErasePage_def BootloaderAPI_FillWord_def BootloaderAPI_WritePage_def valid_page spm_laws_def)

lemma flash_write_block_boot:
  assumes "spm_laws S buf" "BOOT_START_ADDR \<le> unat x"
  shows "pgm_read_byte_far S x (flash_write_block S b A f) = pgm_read_byte_far S x f"
proof -
  have "pgm_read_byte_far S x (snd (fold (flash_write_word S b) is Af)) = pgm_read_byte_far S x (snd Af)" for "is" Af
    by (induction "is" arbitrary: Af) (simp, simp add: flash_write_word_boot [OF assms, of b _ "fst af" "snd af" for af, simplified])
  then show ?thesis by (simp only: flash_write_block_def snd_conv)
qed

lemma store_block_boot:
  assumes "spm_laws S buf" "BOOT_START_ADDR \<le> unat x"
  shows "pgm_read_byte_far S x (flash_mem (store_block S n b d)) = pgm_read_byte_far S x (flash_mem d)"
  using flash_write_block_boot [OF assms]
  by (simp add: store_block_def ReadWriteFLASHFileBlock_def ReadWriteEEPROMFileBlock_def Let_def split: prod.splits)

section \<open>Files\<close>

lemma file_sizes: "FILE_SECTORS FLASH_FILE_SIZE_BYTES = 240" "FILE_SECTORS EEPROM_FILE_SIZE_BYTES = 8"
  "FILE_CLUSTERS FLASH_FILE_SIZE_BYTES = 60" "FILE_CLUSTERS EEPROM_FILE_SIZE_BYTES = 2"
  by (simp_all add: FILE_SECTORS_def FILE_CLUSTERS_def FLASH_FILE_SIZE_BYTES_def EEPROM_FILE_SIZE_BYTES_def)

text \<open>\<open>file_block e len d n i\<close>: block \<open>n\<close> of the disk is block \<open>i\<close> of the file of directory entry \<open>e\<close>, which has \<open>len\<close> sectors.\<close>

definition file_block :: "nat \<Rightarrow> nat \<Rightarrow> 'f vdisk \<Rightarrow> u16 \<Rightarrow> nat \<Rightarrow> bool" where
  "file_block e len d n i \<longleftrightarrow> i < len \<and> unat n = unat (FileStartBlock (StartingCluster e d)) + i \<and>
     4 \<le> unat (FileStartBlock (StartingCluster e d)) \<and> unat (FileStartBlock (StartingCluster e d)) + len \<le> 2 ^ 16"

definition in_file :: "nat \<Rightarrow> u16 \<Rightarrow> 'f vdisk \<Rightarrow> u16 \<Rightarrow> bool" where
  "in_file e len d n \<longleftrightarrow> FileStartBlock (StartingCluster e d) \<le> n \<and> n \<le> FileStartBlock (StartingCluster e d) + (len - 1)"

lemma file_block_in:
  assumes "file_block e len d n i" "0 < len" "len < 2 ^ 16"
  shows "in_file e (of_nat len) d n" "unat (n - FileStartBlock (StartingCluster e d)) = i" "n \<notin> {0, 1, 2, 3}"
proof -
  let ?s = "FileStartBlock (StartingCluster e d)"
  have b: "i < len" "unat n = unat ?s + i" "4 \<le> unat ?s" "unat ?s + len \<le> 2 ^ 16" using assms(1) by (auto simp: file_block_def)
  have "unat (?s + (of_nat len - 1)) = unat ?s + (len - 1)"
    using b assms(2,3) by (cases len) (simp_all add: unat_word_ariths unat_of_nat take_bit_nat_eq_self)
  then show "in_file e (of_nat len) d n" using b by (simp add: in_file_def word_le_nat_alt)
  show "unat (n - ?s) = i" using b by (simp add: unat_sub_if')
  show "n \<notin> {0, 1, 2, 3}" using b by auto
qed

lemma flash_address:
  assumes "i < 240" "unat k = i"
  shows "unat (ucast (k :: u16) * 512 :: u32) = 512 * i"
  using assms by (simp add: unat_word_ariths unsigned_ucast_eq take_bit_nat_eq_self)

text \<open>C37. Firmware written to the file \<open>FLASH.BIN\<close> is what is read back. If the self-programming hardware does what its laws say,
  storing a sector at block \<open>i\<close> of the file programs the bytes of that sector at the addresses from \<open>512 * i\<close> on and changes no other
  byte of the flash memory, in particular none of the bootloader, nor the directory or the EEPROM; loading the block then gives the
  sector.\<close>

theorem flash_file_roundtrip:
  assumes "spm_laws S buf" and "file_block 2 (FILE_SECTORS FLASH_FILE_SIZE_BYTES) d n i" and "\<not> in_file 4 8 d n"
    and "length sector = SECTOR_SIZE_BYTES"
  shows "load_block S n (store_block S n sector d) = sector \<and>
    (\<forall>x. pgm_read_byte_far S x (flash_mem (store_block S n sector d)) =
       (if 512 * i \<le> unat x \<and> unat x < 512 * i + 512 then sector ! (unat x - 512 * i) else pgm_read_byte_far S x (flash_mem d))) \<and>
    512 * i + 512 \<le> BOOT_START_ADDR \<and> FirmwareFileEntries (store_block S n sector d) = FirmwareFileEntries d \<and>
    eeprom_mem (store_block S n sector d) = eeprom_mem d"
proof -
  let ?A = "ucast (n - FileStartBlock (StartingCluster 2 d)) * 512 :: u32"
  note fb = file_block_in [OF assms(2), unfolded file_sizes]
  have i: "i < 240" using assms(2) by (simp add: file_block_def file_sizes)
  have A: "unat ?A = 512 * i" by (rule flash_address [OF i]) (simp add: fb)
  have not_ee: "ReadWriteEEPROMFileBlock n b r d' = (b, d')" if "FirmwareFileEntries d' = FirmwareFileEntries d" for b r d'
    using assms(3) that by (auto simp: ReadWriteEEPROMFileBlock_def in_file_def StartingCluster_def file_sizes Let_def)
  have in_fl: "FileStartBlock (StartingCluster 2 d) \<le> n" "n \<le> FileStartBlock (StartingCluster 2 d) + (of_nat 240 - 1)"
    using fb(1) by (simp_all add: in_file_def)
  have st: "store_block S n sector d = d\<lparr>flash_mem := flash_write_block S sector ?A (flash_mem d)\<rparr>"
    using in_fl fb(3) by (simp add: store_block_def ReadWriteFLASHFileBlock_def Let_def file_sizes not_ee)
  have rd: "pgm_read_byte_far S x (flash_write_block S sector ?A (flash_mem d)) =
      (if 512 * i \<le> unat x \<and> unat x < 512 * i + 512 then sector ! (unat x - 512 * i) else pgm_read_byte_far S x (flash_mem d))" for x
    using flash_write_block_reads [OF assms(1), of ?A] i by (simp add: A)
  have "StartingCluster 2 (store_block S n sector d) = StartingCluster 2 d" by (simp add: st StartingCluster_def)
  then have "load_block S n (store_block S n sector d) = flash_read_block S ?A (flash_write_block S sector ?A (flash_mem d))"
    using in_fl fb(3) by (simp add: load_block_def ReadWriteFLASHFileBlock_def Let_def file_sizes not_ee st StartingCluster_def)
  also have "\<dots> = sector"
  proof (rule nth_equalityI)
    fix k assume "k < length (flash_read_block S ?A (flash_write_block S sector ?A (flash_mem d)))"
    then have k: "k < 512" by (simp add: flash_read_block_def)
    then have "unat (?A + of_nat k) = 512 * i + k"
      using A i by (simp add: unat_word_ariths unat_of_nat take_bit_nat_eq_self)
    then show "flash_read_block S ?A (flash_write_block S sector ?A (flash_mem d)) ! k = sector ! k"
      using k by (simp add: flash_read_block_def rd del: upt.simps)
  qed (simp add: flash_read_block_def assms(4))
  finally show ?thesis using i by (simp add: st rd)
qed

text \<open>Hardware that obeys the laws, and the disk as it is at the start.\<close>

definition sample_spm :: "((u32 \<Rightarrow> u8) \<times> (u32 \<Rightarrow> u8)) spm" where
  "sample_spm = \<lparr>boot_page_erase = \<lambda>a (m, b). (\<lambda>x. if x div 256 = a div 256 then 0xFF else m x, b),
     boot_page_fill = \<lambda>a w (m, b). (m, \<lambda>x. if x = a mod 256 then ucast w else if x = a mod 256 + 1 then ucast (drop_bit 8 w) else b x),
     boot_page_write = \<lambda>a (m, b). (\<lambda>x. if x div 256 = a div 256 then m x AND b (x mod 256) else m x, \<lambda>_. 0xFF),
     boot_rww_enable = (\<lambda>f. f), pgm_read_byte_far = \<lambda>x (m, b). m x\<rparr>"

definition initial_disk :: "'f \<Rightarrow> 'f vdisk" where
  "initial_disk f = \<lparr>FirmwareFileEntries = initial_entries, flash_mem = f, eeprom_mem = \<lambda>_. 0xFF\<rparr>"

lemma sample_spm_laws: "spm_laws sample_spm snd"
proof -
  have ones: "(0xFF :: u8) AND x = x" for x 
  proof -
    have "(0xFF :: u8) = mask 8" by (simp add: mask_eq_exp_minus_1)
    then show ?thesis by (intro bit_word_eqI) (simp add: bit_simps del: mask_eq_exp_minus_1)
  qed
  show ?thesis unfolding spm_laws_def by (auto simp: sample_spm_def ones)
qed

lemma entry_lengths:
  "length (le16 w) = 2" "length (le32 v) = 4" "length (text_bytes cs) = length cs"
  "length (lfn_entry ''FLASH   BIN'' (text_bytes ''FLASH.BIN'' @ replicate 4 0)) = 32"
  "length (lfn_entry ''EEPROM  BIN'' (text_bytes ''EEPROM.BIN'' @ replicate 3 0)) = 32"
proof -
  show len: "length (le16 w) = 2" "length (le32 v) = 4" "length (text_bytes cs) = length cs" for w v cs
    by (simp_all add: le16_def le32_def text_bytes_def)
  show "length (lfn_entry ''FLASH   BIN'' (text_bytes ''FLASH.BIN'' @ replicate 4 0)) = 32"
    "length (lfn_entry ''EEPROM  BIN'' (text_bytes ''EEPROM.BIN'' @ replicate 3 0)) = 32"
    by (simp_all add: lfn_entry_def len) (simp_all add: text_bytes_def le16_def numeral_eq_Suc)
qed

lemma length_initial_entries: "length initial_entries = 160"
  by (simp add: initial_entries_def file_entry_def entry_lengths)

lemma initial_clusters: "StartingCluster 2 (initial_disk f) = 2" "StartingCluster 4 (initial_disk f) = 62"
proof -
  have "initial_entries ! 90 = 2" "initial_entries ! 91 = 0" "initial_entries ! 154 = 62" "initial_entries ! 155 = 0"
    by (simp_all add: initial_entries_def file_entry_def nth_append entry_lengths file_sizes) (simp_all add: le16_def)
  then show "StartingCluster 2 (initial_disk f) = 2" "StartingCluster 4 (initial_disk f) = 62"
    by (simp_all add: StartingCluster_def initial_disk_def)
qed

theorem flash_file_roundtrip_witness:
  "load_block sample_spm 5 (store_block sample_spm 5 (replicate 512 7) (initial_disk (\<lambda>_. 0xFF, \<lambda>_. 0))) = replicate 512 7"
proof -
  let ?d = "initial_disk (\<lambda>_. 0xFF, \<lambda>_. 0)"
  have b: "file_block 2 (FILE_SECTORS FLASH_FILE_SIZE_BYTES) ?d 5 1" "\<not> in_file 4 8 ?d 5"
    by (simp_all add: file_block_def in_file_def initial_clusters FileStartBlock_def file_sizes)
  show ?thesis using flash_file_roundtrip [OF sample_spm_laws b, of "replicate 512 7"] by (simp only: length_replicate simp_thms)
qed

section \<open>The allocation table of the disk\<close>

text \<open>Following a chain of clusters from cluster \<open>i\<close>, for at most \<open>fuel\<close> clusters; an entry of 0xFF8 or more ends a chain.\<close>

fun chain :: "nat \<Rightarrow> u8 list \<Rightarrow> nat \<Rightarrow> nat list" where
  "chain 0 t i = []"
| "chain (Suc fuel) t i = i # (if fat12 t i \<ge> 0xFF8 then [] else chain fuel t (unat (fat12 t i)))"

lemma chain_run_linear:
  assumes "\<forall>j. a \<le> j \<longrightarrow> j < a + n \<longrightarrow> fat12 t j = (if j = a + n - 1 then 0xFFF else of_nat (j + 1))" "a + n \<le> 171" "0 < n"
  shows "chain (n + m) t a = [a..<a + n]"
  using assms
proof (induction n arbitrary: a)
  case (Suc n)
  show ?case
  proof (cases n)
    case 0
    then show ?thesis using Suc.prems(1) by simp
  next
    case (Suc k)
    have e: "fat12 t a = of_nat (a + 1)" using Suc.prems(1) \<open>n = Suc k\<close> by auto
    have "unat (of_nat (a + 1) :: u16) = a + 1" using Suc.prems(2) by (simp only: unat_of_nat) (simp add: take_bit_nat_eq_self)
    moreover from this have "\<not> (0xFF8 :: u16) \<le> of_nat (a + 1)" using Suc.prems(2) by (simp only: word_le_nat_alt) simp
    moreover have "chain (n + m) t (a + 1) = [a + 1..<a + 1 + n]"
      using Suc.prems \<open>n = Suc k\<close> by (intro Suc.IH) auto
    ultimately show ?thesis by (simp only: add_Suc chain.simps e if_False) (simp add: upt_conv_Cons del: upt_Suc)
  qed
qed simp

text \<open>C38. The allocation table the disk shows. If the clusters of the two files do not overlap and lie within the first 171 entries,
  which is where they are at the start, a reader that follows the chain from the first cluster of \<open>FLASH.BIN\<close> or of \<open>EEPROM.BIN\<close>
  finds exactly the consecutive clusters of that file and then an end mark; the two reserved entries hold the media type and an end
  mark, and all other of these entries are free.\<close>

theorem load_block_FAT:
  assumes "n = DISK_BLOCK_FATBlock1 \<or> n = DISK_BLOCK_FATBlock2" and "a = unat (StartingCluster 2 d)" and "b = unat (StartingCluster 4 d)"
    and "2 \<le> a" "a + FILE_CLUSTERS FLASH_FILE_SIZE_BYTES \<le> 171" and "2 \<le> b" "b + FILE_CLUSTERS EEPROM_FILE_SIZE_BYTES \<le> 171"
    and "a + FILE_CLUSTERS FLASH_FILE_SIZE_BYTES \<le> b \<or> b + FILE_CLUSTERS EEPROM_FILE_SIZE_BYTES \<le> a"
  shows "chain 171 (load_block S n d) a = [a..<a + FILE_CLUSTERS FLASH_FILE_SIZE_BYTES] \<and>
    chain 171 (load_block S n d) b = [b..<b + FILE_CLUSTERS EEPROM_FILE_SIZE_BYTES] \<and>
    fat12 (load_block S n d) 0 = 0xFF8 \<and> fat12 (load_block S n d) 1 = 0xFFF \<and>
    (\<forall>j\<in>{2..170}. j \<notin> {a..<a + FILE_CLUSTERS FLASH_FILE_SIZE_BYTES} \<longrightarrow> j \<notin> {b..<b + FILE_CLUSTERS EEPROM_FILE_SIZE_BYTES} \<longrightarrow>
       fat12 (load_block S n d) j = 0)"
proof -
  let ?z = "replicate SECTOR_SIZE_BYTES 0 :: u8 list"
  let ?t1 = "UpdateFAT12ClusterEntry (of_nat 1) 0xFFF (UpdateFAT12ClusterEntry (of_nat 0) 0xFF8 ?z)"
  let ?t2 = "UpdateFAT12ClusterChain (of_nat a) 60 ?t1" and ?t3 = "UpdateFAT12ClusterChain (of_nat b) 2 (UpdateFAT12ClusterChain (of_nat a) 60 ?t1)"
  have w: "StartingCluster 2 d = of_nat a" "StartingCluster 4 d = of_nat b" using assms(2,3) by simp_all
  have "(0xF00 OR 0xF8 :: u16) = 0xFF8" by simp
  then have t: "load_block S n d = ?t3" using assms(1) by (auto simp: load_block_def Let_def file_sizes w)
  have len: "length ?z = 512" "length (UpdateFAT12ClusterEntry (of_nat 0) 0xFF8 ?z) = 512" "length ?t1 = 512" "length ?t2 = 512"
    by (simp_all only: fat.shape_upd length_chain length_replicate)
  have z: "fat12 ?z j = 0" if "fat_entry j" for j
    using that by (simp add: fat12_def fat_entry_def Let_def)
  have fat: "fat12 ?t3 j = (if b \<le> j \<and> j < b + 2 then if j = b + 1 then 0xFFF else of_nat (j + 1)
      else if a \<le> j \<and> j < a + 60 then if j = a + 59 then 0xFFF else of_nat (j + 1)
      else if j = 1 then 0xFFF else if j = 0 then 0xFF8 else 0)" if j: "fat_entry j" for j
  proof -
    have e: "fat_entry 0" "fat_entry 1" by (simp_all add: fat_entry_def)
    have v: "(0xFFF :: u16) < 0x1000" "(0xFF8 :: u16) < 0x1000" by simp_all
    have t1: "fat12 ?t1 j = (if j = 1 then 0xFFF else if j = 0 then 0xFF8 else 0)"
      by (simp only: fat12_update [OF e(2) j len(2) v(1)] fat12_update [OF e(1) j len(1) v(2)] z [OF j])
    have n: "unat (60 :: u8) = 60" "unat (2 :: u8) = 2" by simp_all
    have ends: "a + 60 - 1 = a + 59" "b + 2 - 1 = b + 1" by simp_all
    have t2: "fat12 ?t2 j = (if a \<le> j \<and> j < a + 60 then if j = a + 59 then 0xFFF else of_nat (j + 1) else fat12 ?t1 j)"
      using fat12_chain [OF len(3) j, of a 60, unfolded n ends] assms(5) unfolding file_sizes by blast
    have "fat12 ?t3 j = (if b \<le> j \<and> j < b + 2 then if j = b + 1 then 0xFFF else of_nat (j + 1) else fat12 ?t2 j)"
      using fat12_chain [OF len(4) j, of b 2, unfolded n ends] assms(7) unfolding file_sizes by blast
    then show ?thesis unfolding t2 t1 .
  qed
  have "chain (60 + 111) ?t3 a = [a..<a + 60]" "chain (2 + 169) ?t3 b = [b..<b + 2]"
    by (rule chain_run_linear; use assms(5,7,8) fat in \<open>auto simp: fat_entry_def file_sizes\<close>)+
  then show ?thesis
    unfolding t file_sizes using fat assms(4,6) by (auto simp: fat_entry_def)
qed

theorem load_block_FAT_witness:
  "chain 171 (load_block sample_spm 1 (initial_disk (\<lambda>_. 0, \<lambda>_. 0))) 62 = [62, 63]"
proof -
  let ?d = "initial_disk (\<lambda>_. 0, \<lambda>_. 0)"
  have c: "2 = unat (StartingCluster 2 ?d)" "62 = unat (StartingCluster 4 ?d)" by (simp_all add: initial_clusters)
  then have "chain 171 (load_block sample_spm 1 ?d) 62 = [62..<62 + FILE_CLUSTERS EEPROM_FILE_SIZE_BYTES]"
    using load_block_FAT [OF _ c, of 1 sample_spm] by (simp only: file_sizes) simp
  then show ?thesis by (simp add: file_sizes)
qed

lemma stored_run:
  fixes A :: u16
  assumes "j < k" "k \<le> 2 ^ 16"
  shows "fold (\<lambda>i m. m(A + of_nat i := f i)) [0..<k] m (A + of_nat j) = f j"
  using assms
proof (induction k)
  case (Suc k)
  have "(of_nat j :: u16) = of_nat k \<longleftrightarrow> j = k" using Suc.prems by (simp add: word_unat_eq_iff unat_of_nat take_bit_nat_eq_self)
  with Suc show ?case by (cases "j = k") simp_all
qed simp

text \<open>The EEPROM file: the sector is stored at its place and read back.\<close>

lemma eeprom_file_roundtrip:
  assumes "file_block 4 (FILE_SECTORS EEPROM_FILE_SIZE_BYTES) d n i" and "\<not> in_file 2 240 d n" and "length sector = SECTOR_SIZE_BYTES"
  shows "load_block S n (store_block S n sector d) = sector" "flash_mem (store_block S n sector d) = flash_mem d"
proof -
  let ?A = "(n - FileStartBlock (StartingCluster 4 d)) * 512"
  let ?w = "\<lambda>k. fold (\<lambda>i m. m(?A + of_nat i := sector ! i)) [0..<k]"
  note fb = file_block_in [OF assms(1), unfolded file_sizes]
  have not_fl: "ReadWriteFLASHFileBlock S n b r d' = (b, d')" if "FirmwareFileEntries d' = FirmwareFileEntries d" for b r d'
    using assms(2) that by (auto simp: ReadWriteFLASHFileBlock_def in_file_def StartingCluster_def file_sizes Let_def)
  have in_ee: "FileStartBlock (StartingCluster 4 d) \<le> n" "n \<le> FileStartBlock (StartingCluster 4 d) + (of_nat 8 - 1)"
    using fb(1) by (simp_all add: in_file_def)
  have st: "store_block S n sector d = d\<lparr>eeprom_mem := ?w 512 (eeprom_mem d)\<rparr>"
    using in_ee fb(3) by (simp add: store_block_def ReadWriteEEPROMFileBlock_def Let_def file_sizes not_fl del: upt.simps upt_rec_numeral)
  then show "flash_mem (store_block S n sector d) = flash_mem d" by simp
  have "load_block S n (store_block S n sector d) = map (\<lambda>j. ?w 512 (eeprom_mem d) (?A + of_nat j)) [0..<512]"
    using in_ee fb(3) by (simp add: load_block_def ReadWriteEEPROMFileBlock_def Let_def file_sizes not_fl st StartingCluster_def del: upt.simps upt_rec_numeral)
  also have "\<dots> = map (\<lambda>j. sector ! j) [0..<512]" by (intro map_cong refl stored_run) auto
  finally show "load_block S n (store_block S n sector d) = sector" using assms(3) map_nth [of sector] by simp
qed

end
