(* ===== verification/Disk_Bootloader.thy ===== *)
theory Disk_Bootloader
  imports Bulk_Transactions Virtual_FAT
begin

text \<open>
  The mass storage bootloader (\<^verbatim>\<open>Bootloaders/MassStorage/BootloaderMassStorage.c\<close>, \<^verbatim>\<open>Lib/SCSI.c\<close> and the transfers of
  \<^verbatim>\<open>Lib/VirtualFAT.c\<close>): SCSI commands, received by the mass storage class driver, read and write the virtual disk. The static
  structures of the source and the block buffer on the stack are addresses of the RAM; the lamps of the board are left out.
\<close>

abbreviation (input) SCSI_CMD_INQUIRY :: u8 where "SCSI_CMD_INQUIRY \<equiv> 0x12"
abbreviation (input) SCSI_CMD_REQUEST_SENSE :: u8 where "SCSI_CMD_REQUEST_SENSE \<equiv> 0x03"
abbreviation (input) SCSI_CMD_READ_CAPACITY_10 :: u8 where "SCSI_CMD_READ_CAPACITY_10 \<equiv> 0x25"
abbreviation (input) SCSI_CMD_WRITE_10 :: u8 where "SCSI_CMD_WRITE_10 \<equiv> 0x2A"
abbreviation (input) SCSI_CMD_READ_10 :: u8 where "SCSI_CMD_READ_10 \<equiv> 0x28"
abbreviation (input) SCSI_CMD_MODE_SENSE_6 :: u8 where "SCSI_CMD_MODE_SENSE_6 \<equiv> 0x1A"
abbreviation (input) SCSI_CMD_START_STOP_UNIT :: u8 where "SCSI_CMD_START_STOP_UNIT \<equiv> 0x1B"
abbreviation (input) SCSI_CMD_SEND_DIAGNOSTIC :: u8 where "SCSI_CMD_SEND_DIAGNOSTIC \<equiv> 0x1D"
abbreviation (input) SCSI_CMD_TEST_UNIT_READY :: u8 where "SCSI_CMD_TEST_UNIT_READY \<equiv> 0x00"
abbreviation (input) SCSI_CMD_PREVENT_ALLOW_MEDIUM_REMOVAL :: u8 where "SCSI_CMD_PREVENT_ALLOW_MEDIUM_REMOVAL \<equiv> 0x1E"
abbreviation (input) SCSI_CMD_VERIFY_10 :: u8 where "SCSI_CMD_VERIFY_10 \<equiv> 0x2F"
abbreviation (input) SCSI_SENSE_KEY_GOOD :: u8 where "SCSI_SENSE_KEY_GOOD \<equiv> 0x00"
abbreviation (input) SCSI_SENSE_KEY_ILLEGAL_REQUEST :: u8 where "SCSI_SENSE_KEY_ILLEGAL_REQUEST \<equiv> 0x05"
abbreviation (input) SCSI_ASENSE_NO_ADDITIONAL_INFORMATION :: u8 where "SCSI_ASENSE_NO_ADDITIONAL_INFORMATION \<equiv> 0x00"
abbreviation (input) SCSI_ASENSE_INVALID_FIELD_IN_CDB :: u8 where "SCSI_ASENSE_INVALID_FIELD_IN_CDB \<equiv> 0x24"
abbreviation (input) SCSI_ASENSE_INVALID_COMMAND :: u8 where "SCSI_ASENSE_INVALID_COMMAND \<equiv> 0x20"
abbreviation (input) SCSI_ASENSE_LOGICAL_BLOCK_ADDRESS_OUT_OF_RANGE :: u8 where "SCSI_ASENSE_LOGICAL_BLOCK_ADDRESS_OUT_OF_RANGE \<equiv> 0x21"
abbreviation (input) SCSI_ASENSEQ_NO_QUALIFIER :: u8 where "SCSI_ASENSEQ_NO_QUALIFIER \<equiv> 0x00"

definition SwapEndian_16 :: "u16 \<Rightarrow> u16" where
  "SwapEndian_16 Word = u16_of_bytes (ucast (drop_bit 8 Word)) (ucast Word)"

definition SwapEndian_32 :: "u32 \<Rightarrow> u32" where
  "SwapEndian_32 DWord = u32_of_bytes (ucast (drop_bit 24 DWord)) (ucast (drop_bit 16 DWord)) (ucast (drop_bit 8 DWord)) (ucast DWord)"

section \<open>The program\<close>

text \<open>What the program is built with and where its data lie; then its variables.\<close>

record 'f boot_env =
  env_app :: usb_app
  env_spm :: "'f spm"
  Disk_MS_Interface :: USB_ClassInfo_MS_Device_t
  BlockBuffer :: u16
  SenseData :: u16
  InquiryData :: u16

record 'f bootloader =
  disk :: "'f vdisk"
  RunBootloader :: bool
  TicksSinceLastCommand :: u8

definition InquiryData_init :: "u8 list" where
  "InquiryData_init = [0x00, 0x80, 0, 0x02, 0x1F, 0, 0, 0] @ text_bytes ''LUFA'' @ replicate 4 0 @
     text_bytes ''Bootloader'' @ replicate 6 0 @ text_bytes ''0.00''"

definition SenseData_init :: "u8 list" where
  "SenseData_init = [0x70, 0, 0, 0, 0, 0, 0, 0x0A] @ replicate 10 0"

definition SCSI_SET_SENSE :: "'f boot_env \<Rightarrow> u8 \<Rightarrow> u8 \<Rightarrow> u8 \<Rightarrow> usb_st \<Rightarrow> usb_st" where
  "SCSI_SET_SENSE E Key Acode Aqual s =
     (let s = write_ram8 (SenseData E + 2) ((ram s (SenseData E + 2) AND 0xF0) OR (Key AND 0x0F)) s;
          s = write_ram8 (SenseData E + 12) Acode s
      in write_ram8 (SenseData E + 13) Aqual s)"

text \<open>\<open>CommandBlock.DataTransferLength -= n\<close>.\<close>

definition transferred :: "'f boot_env \<Rightarrow> u32 \<Rightarrow> usb_st \<Rightarrow> usb_st" where
  "transferred E n s = (let a = CB_DataTransferLength (Disk_MS_Interface E) in write_ram32 a (ram_u32 a s - n) s)"

definition VirtualFAT_WriteBlock :: "'f boot_env \<Rightarrow> u16 \<Rightarrow> 'f bootloader \<times> usb_st \<Rightarrow> ('f bootloader \<times> usb_st) option" where
  "VirtualFAT_WriteBlock E BlockNumber = (\<lambda>(d, s). do {
     (_, _, s) \<leftarrow> Endpoint_Read_Stream_LE (env_app E) (BlockBuffer E) 512 None s;
     let s = Endpoint_ClearOUT s;
     Some (d\<lparr>disk := store_block (env_spm E) BlockNumber (mem_bytes (ram s) (BlockBuffer E) 512) (disk d)\<rparr>, s) })"

definition VirtualFAT_ReadBlock :: "'f boot_env \<Rightarrow> u16 \<Rightarrow> 'f bootloader \<times> usb_st \<Rightarrow> ('f bootloader \<times> usb_st) option" where
  "VirtualFAT_ReadBlock E BlockNumber = (\<lambda>(d, s). do {
     let s = copy_ram (BlockBuffer E) (load_block (env_spm E) BlockNumber (disk d)) s;
     (_, _, s) \<leftarrow> Endpoint_Write_Stream_LE (env_app E) (BlockBuffer E) 512 None s;
     Some (d, Endpoint_ClearIN s) })"

text \<open>Each command returns whether it succeeded.\<close>

type_synonym 'f command = "'f bootloader \<times> usb_st \<Rightarrow> (bool \<times> 'f bootloader \<times> usb_st) option"

abbreviation (input) SCSICommandData :: "'f boot_env \<Rightarrow> u16" where "SCSICommandData E \<equiv> CB_SCSICommandData (Disk_MS_Interface E)"

definition SCSI_Command_Inquiry :: "'f boot_env \<Rightarrow> 'f command" where
  "SCSI_Command_Inquiry E = (\<lambda>(d, s).
     let AllocationLength = SwapEndian_16 (ram_u16 (SCSICommandData E + 3) s);
         BytesTransferred = C_MIN AllocationLength 36
     in if ram s (SCSICommandData E + 1) AND (bmask 0 OR bmask 1) \<noteq> 0 \<or> ram s (SCSICommandData E + 2) \<noteq> 0
        then Some (False, d, SCSI_SET_SENSE E SCSI_SENSE_KEY_ILLEGAL_REQUEST SCSI_ASENSE_INVALID_FIELD_IN_CDB SCSI_ASENSEQ_NO_QUALIFIER s)
        else do {
          (_, _, s) \<leftarrow> Endpoint_Write_Stream_LE (env_app E) (InquiryData E) BytesTransferred None s;
          (_, _, s) \<leftarrow> Endpoint_Null_Stream (AllocationLength - BytesTransferred) None s;
          let s = Endpoint_ClearIN s;
          Some (True, d, transferred E (ucast BytesTransferred) s) })"

definition SCSI_Command_Request_Sense :: "'f boot_env \<Rightarrow> 'f command" where
  "SCSI_Command_Request_Sense E = (\<lambda>(d, s). do {
     let AllocationLength = ram s (SCSICommandData E + 4);
     let BytesTransferred = C_MIN AllocationLength 18;
     (_, _, s) \<leftarrow> Endpoint_Write_Stream_LE (env_app E) (SenseData E) (ucast BytesTransferred) None s;
     (_, _, s) \<leftarrow> Endpoint_Null_Stream (ucast AllocationLength - ucast BytesTransferred) None s;
     let s = Endpoint_ClearIN s;
     Some (True, d, transferred E (ucast BytesTransferred) s) })"

definition SCSI_Command_Read_Capacity_10 :: "'f boot_env \<Rightarrow> 'f command" where
  "SCSI_Command_Read_Capacity_10 E = (\<lambda>(d, s).
     let s = Endpoint_Write_32_BE (of_nat LUN_MEDIA_BLOCKS - 1) s;
         s = Endpoint_Write_32_BE (of_nat SECTOR_SIZE_BYTES) s;
         s = Endpoint_ClearIN s
     in Some (True, d, transferred E 8 s))"

fun for_blocks :: "(u16 \<Rightarrow> 'a \<Rightarrow> 'a option) \<Rightarrow> u16 \<Rightarrow> nat \<Rightarrow> nat \<Rightarrow> 'a \<Rightarrow> 'a option" where
  "for_blocks f BlockAddress i 0 x = Some x"
| "for_blocks f BlockAddress i (Suc n) x = do { x \<leftarrow> f (BlockAddress + of_nat i) x; for_blocks f BlockAddress (Suc i) n x }"

definition SCSI_Command_ReadWrite_10 :: "'f boot_env \<Rightarrow> bool \<Rightarrow> 'f command" where
  "SCSI_Command_ReadWrite_10 E IsDataRead = (\<lambda>(d, s).
     let BlockAddress = ucast (SwapEndian_32 (ram_u32 (SCSICommandData E + 2) s));
         TotalBlocks = SwapEndian_16 (ram_u16 (SCSICommandData E + 7) s)
     in if BlockAddress \<ge> of_nat LUN_MEDIA_BLOCKS
        then Some (False, d, SCSI_SET_SENSE E SCSI_SENSE_KEY_ILLEGAL_REQUEST SCSI_ASENSE_LOGICAL_BLOCK_ADDRESS_OUT_OF_RANGE SCSI_ASENSEQ_NO_QUALIFIER s)
        else do {
          (d, s) \<leftarrow> for_blocks (if IsDataRead then VirtualFAT_ReadBlock E else VirtualFAT_WriteBlock E) BlockAddress 0 (unat TotalBlocks) (d, s);
          Some (True, d, transferred E (ucast TotalBlocks * of_nat SECTOR_SIZE_BYTES) s) })"

definition SCSI_Command_ModeSense_6 :: "'f boot_env \<Rightarrow> 'f command" where
  "SCSI_Command_ModeSense_6 E = (\<lambda>(d, s).
     let s = Endpoint_Write_32_LE 0 s;
         s = Endpoint_ClearIN s
     in Some (True, d, transferred E 4 s))"

text \<open>The \<open>switch\<close>; the case of \<open>SCSI_CMD_START_STOP_UNIT\<close> falls through to the commands that just succeed.\<close>

definition scsi_switch :: "'f boot_env \<Rightarrow> 'f command" where
  "scsi_switch E = (\<lambda>(d, s).
     let command = ram s (SCSICommandData E)
     in if command = SCSI_CMD_INQUIRY then SCSI_Command_Inquiry E (d, s)
        else if command = SCSI_CMD_REQUEST_SENSE then SCSI_Command_Request_Sense E (d, s)
        else if command = SCSI_CMD_READ_CAPACITY_10 then SCSI_Command_Read_Capacity_10 E (d, s)
        else if command = SCSI_CMD_WRITE_10 then SCSI_Command_ReadWrite_10 E False (d, s)
        else if command = SCSI_CMD_READ_10 then SCSI_Command_ReadWrite_10 E True (d, s)
        else if command = SCSI_CMD_MODE_SENSE_6 then SCSI_Command_ModeSense_6 E (d, s)
        else if command \<in> {SCSI_CMD_START_STOP_UNIT, SCSI_CMD_SEND_DIAGNOSTIC, SCSI_CMD_TEST_UNIT_READY,
            SCSI_CMD_PREVENT_ALLOW_MEDIUM_REMOVAL, SCSI_CMD_VERIFY_10}
        then let d = (if command = SCSI_CMD_START_STOP_UNIT
                      then d\<lparr>RunBootloader := (ram s (SCSICommandData E + 4) AND 0x03 \<noteq> 0x02)\<rparr> else d)
             in Some (True, d, write_ram32 (CB_DataTransferLength (Disk_MS_Interface E)) 0 s)
        else Some (False, d, SCSI_SET_SENSE E SCSI_SENSE_KEY_ILLEGAL_REQUEST SCSI_ASENSE_INVALID_COMMAND SCSI_ASENSEQ_NO_QUALIFIER s))"

definition SCSI_DecodeSCSICommand :: "'f boot_env \<Rightarrow> 'f command" where
  "SCSI_DecodeSCSICommand E x = do {
     (CommandSuccess, d, s) \<leftarrow> scsi_switch E x;
     if CommandSuccess
     then Some (True, d, SCSI_SET_SENSE E SCSI_SENSE_KEY_GOOD SCSI_ASENSE_NO_ADDITIONAL_INFORMATION SCSI_ASENSEQ_NO_QUALIFIER s)
     else Some (False, d, s) }"

definition CALLBACK_MS_Device_SCSICommandReceived :: "'f boot_env \<Rightarrow> 'f command" where
  "CALLBACK_MS_Device_SCSICommandReceived E x = do {
     (CommandSuccess, d, s) \<leftarrow> SCSI_DecodeSCSICommand E x;
     Some (CommandSuccess, d\<lparr>TicksSinceLastCommand := 0\<rparr>, s) }"

text \<open>The two events the program handles; the lamps are all the others do.\<close>

definition boot_ConfigurationChanged :: "'f boot_env \<Rightarrow> event" where
  "boot_ConfigurationChanged E s = map_option (\<lambda>(ConfigSuccess, I, s). s) (MS_Device_ConfigureEndpoints (Disk_MS_Interface E) s)"

definition boot_ControlRequest :: "'f boot_env \<Rightarrow> event" where
  "boot_ControlRequest E = MS_Device_ProcessControlRequest (Disk_MS_Interface E)"

text \<open>The condition of the main loop, with the new value of its counter, and one round of the loop.\<close>

definition keep_running :: "'f bootloader \<Rightarrow> bool \<times> 'f bootloader" where
  "keep_running d =
     (if RunBootloader d then (True, d)
      else (TicksSinceLastCommand d < 0xFF, d\<lparr>TicksSinceLastCommand := TicksSinceLastCommand d + 1\<rparr>))"

definition main_round :: "'f boot_env \<Rightarrow> 'f bootloader \<times> usb_st \<Rightarrow> ('f bootloader \<times> usb_st) option" where
  "main_round E x = do {
     (d, s) \<leftarrow> MS_Device_USBTask (env_app E) (CALLBACK_MS_Device_SCSICommandReceived E) (Disk_MS_Interface E) x;
     s \<leftarrow> USB_USBTask (env_app E) s;
     Some (d, s) }"

text \<open>The program up to the disconnection from the bus, after which the watchdog resets the controller.\<close>

partial_function (option) main_loop :: "'f boot_env \<Rightarrow> 'f bootloader \<times> usb_st \<Rightarrow> ('f bootloader \<times> usb_st) option" where
  "main_loop E x =
     (let (d, s) = x; (go, d) = keep_running d
      in if go then do { x \<leftarrow> main_round E (d, s); main_loop E x } else Some (d, USB_Detach s))"

section \<open>The bootloader is never overwritten\<close>

definition boot_kept :: "'f boot_env \<Rightarrow> 'f bootloader \<Rightarrow> 'f bootloader \<Rightarrow> bool" where
  "boot_kept E d d' \<longleftrightarrow> (\<forall>buf x. spm_laws (env_spm E) buf \<longrightarrow> BOOT_START_ADDR \<le> unat x \<longrightarrow>
     pgm_read_byte_far (env_spm E) x (flash_mem (disk d')) = pgm_read_byte_far (env_spm E) x (flash_mem (disk d)))"

lemma boot_kept_trans: "boot_kept E d d1 \<Longrightarrow> boot_kept E d1 d2 \<Longrightarrow> boot_kept E d d2"
  by (simp add: boot_kept_def)

lemma boot_kept_disk: "disk d' = disk d \<Longrightarrow> boot_kept E d d'"
  by (simp add: boot_kept_def)

lemma for_blocks_keeps:
  assumes "\<And>n d s. always (\<lambda>(d', _). boot_kept E d d') (f n (d, s))"
  shows "always (\<lambda>(d', _). boot_kept E d d') (for_blocks f a i n (d, s))"
proof (induction n arbitrary: i d s)
  case (Suc n)
  show ?case unfolding for_blocks.simps
  proof (rule always_bind [OF assms], clarify)
    fix d1 s1 assume "boot_kept E d d1"
    then show "always (\<lambda>(d', _). boot_kept E d d') (for_blocks f a (Suc i) n (d1, s1))"
      using boot_kept_trans by (intro always_mono [OF Suc.IH]) auto
  qed
qed (simp add: boot_kept_disk)

lemma WriteBlock_keeps: "always (\<lambda>(d', _). boot_kept E d d') (VirtualFAT_WriteBlock E n (d, s))"
  by (auto simp: VirtualFAT_WriteBlock_def always_def Let_def boot_kept_def store_block_boot bind_eq_Some_conv)

lemma ReadBlock_keeps: "always (\<lambda>(d', _). boot_kept E d d') (VirtualFAT_ReadBlock E n (d, s))"
  by (auto simp: VirtualFAT_ReadBlock_def always_def Let_def boot_kept_def bind_eq_Some_conv)

lemma ReadWrite_10_keeps: "always (\<lambda>(_, d', _). boot_kept E d d') (SCSI_Command_ReadWrite_10 E r (d, s))"
proof -
  have "always (\<lambda>(d', _). boot_kept E d d') (for_blocks (if r then VirtualFAT_ReadBlock E else VirtualFAT_WriteBlock E) a i n (d, s))" for a i n
    by (rule for_blocks_keeps) (simp add: ReadBlock_keeps WriteBlock_keeps)
  then show ?thesis
    by (fastforce simp: SCSI_Command_ReadWrite_10_def always_def Let_def bind_eq_Some_conv boot_kept_disk)
qed

lemma scsi_switch_keeps: "always (\<lambda>(_, d', _). boot_kept E d d') (scsi_switch E (d, s))"
  unfolding scsi_switch_def Let_def prod.case
  by (intro always_if ReadWrite_10_keeps)
     (auto simp: SCSI_Command_Inquiry_def SCSI_Command_Request_Sense_def SCSI_Command_Read_Capacity_10_def SCSI_Command_ModeSense_6_def
        always_def Let_def bind_eq_Some_conv boot_kept_disk)

interpretation scsi: scsi_application "CALLBACK_MS_Device_SCSICommandReceived E" "boot_kept E" for E
proof unfold_locales
  show "boot_kept E d d" for d by (simp add: boot_kept_disk)
  fix d s ok d' s' assume "CALLBACK_MS_Device_SCSICommandReceived E (d, s) = Some (ok, d', s')"
  then obtain c d1 s1 where "scsi_switch E (d, s) = Some (c, d1, s1)" "disk d' = disk d1"
    by (auto simp: CALLBACK_MS_Device_SCSICommandReceived_def SCSI_DecodeSCSICommand_def bind_eq_Some_conv split: if_splits)
  with alwaysD [OF scsi_switch_keeps this(1)] show "boot_kept E d d'" by (simp add: boot_kept_def)
qed

text \<open>The states of the program between two rounds of its loop, whatever hardware, host and interrupts do to the machine.\<close>

inductive runs_from :: "'f boot_env \<Rightarrow> 'f bootloader \<Rightarrow> 'f bootloader \<Rightarrow> bool" for E d where
  start: "runs_from E d d"
| step: "runs_from E d d1 \<Longrightarrow> keep_running d1 = (True, d2) \<Longrightarrow> main_round E (d2, s) = Some (d3, s') \<Longrightarrow> runs_from E d d3"

text \<open>
  C4. The bootloader survives every host. If the self-programming hardware does what its laws say, no sequence of rounds of the main
  loop changes a byte of the flash memory from \<open>BOOT_START_ADDR\<close> on, where the bootloader lies: whatever commands and data the host sends, wherever
  it moves the files in the directory, and whatever the machine looks like at the start of each round.
\<close>

theorem bootloader_never_overwritten:
  assumes "spm_laws (env_spm E) buf" and "runs_from E d d'" and "BOOT_START_ADDR \<le> unat x"
  shows "pgm_read_byte_far (env_spm E) x (flash_mem (disk d')) = pgm_read_byte_far (env_spm E) x (flash_mem (disk d))"
proof -
  have "boot_kept E d d'"
    using assms(2)
  proof induction
    case (step d1 d2 s d3 s')
    have "disk d2 = disk d1" using step.hyps(2) by (auto simp: keep_running_def split: if_splits)
    moreover obtain s1 where "MS_Device_USBTask (env_app E) (CALLBACK_MS_Device_SCSICommandReceived E) (Disk_MS_Interface E) (d2, s) = Some (d3, s1)"
      using step.hyps(3) by (auto simp: main_round_def bind_eq_Some_conv)
    then have "boot_kept E d2 d3" by (rule scsi.USBTask_relates)
    ultimately show ?case using step.IH by (simp add: boot_kept_def)
  qed (simp add: boot_kept_disk)
  with assms(1,3) show ?thesis by (auto simp: boot_kept_def)
qed

section \<open>Blocks on the bus\<close>

lemma copy_ram_filled: "copy_ram a bs s = s\<lparr>ram := filled a bs (ram s)\<rparr>"
  by (simp add: copy_ram_def filled_def)

lemma length_load_block:
  assumes "length (FirmwareFileEntries (disk d)) = 160"
  shows "length (load_block S n (disk d)) = SECTOR_SIZE_BYTES"
proof -
  have "length BootBlock = 62" by (simp add: BootBlock_def le16_def le32_def text_bytes_def)
  moreover have "length (UpdateFAT12ClusterChain w k t) = SECTOR_SIZE_BYTES" if "length t = SECTOR_SIZE_BYTES" for w k t
    using length_chain [OF that, of "unat w" k] by simp
  moreover have "length (UpdateFAT12ClusterEntry i v t) = length t" for i v t by (simp add: UpdateFAT12ClusterEntry_def Let_def)
  ultimately show ?thesis using assms
    by (simp add: load_block_def ReadWriteFLASHFileBlock_def ReadWriteEEPROMFileBlock_def flash_read_block_def Let_def)
qed

lemma ReadBlock_good:
  assumes "good_host N s" "INTERRUPT_CONTROL_ENDPOINT (env_app E)" "length (FirmwareFileEntries (disk d)) = 160"
  shows "\<exists>t. VirtualFAT_ReadBlock E n (d, s) = Some (d, ev (s\<lparr>ram := filled (BlockBuffer E) (load_block (env_spm E) n (disk d)) (ram s)\<rparr>) t) \<and>
    fifo_out t = load_block (env_spm E) n (disk d) \<and> fifo_in t = []"
proof -
  let ?b = "load_block (env_spm E) n (disk d)"
  let ?s = "s\<lparr>ram := filled (BlockBuffer E) ?b (ram s)\<rparr>"
  have u: "unat (512 :: u16) = length ?b" using length_load_block [OF assms(3)] by simp
  have r: "ready_ep N ?s" using assms(1) by (simp add: good_host_def)
  obtain bp t where t: "Endpoint_Write_Stream_LE (env_app E) (BlockBuffer E) 512 None ?s = Some (0, bp, ev ?s t)"
      "fifo_out t = mem_bytes (ram ?s) (BlockBuffer E) (unat (512 :: u16))" "fifo_in t = []"
    using Endpoint_Write_Stream_LE_ready [OF r assms(2)] by blast
  have "mem_bytes (ram ?s) (BlockBuffer E) (length ?b) = ?b" using mem_bytes_filled [of ?b "BlockBuffer E" "ram s"] u by simp
  with t(2) have "fifo_out t = ?b" unfolding u by simp
  with t show ?thesis
    by (simp add: VirtualFAT_ReadBlock_def Let_def copy_ram_filled Endpoint_ClearIN_def io_simps)
qed

lemma WriteBlock_good:
  assumes "good_host N s" "INTERRUPT_CONTROL_ENDPOINT (env_app E)" "host_sends (b @ rest) s" "length b = SECTOR_SIZE_BYTES"
  shows "\<exists>t. VirtualFAT_WriteBlock E n (d, s) = Some (d\<lparr>disk := store_block (env_spm E) n b (disk d)\<rparr>, ev (s\<lparr>ram := filled (BlockBuffer E) b (ram s)\<rparr>) t) \<and>
    fifo_in t = b \<and> fifo_out t = []"
proof -
  let ?s = "s\<lparr>ram := filled (BlockBuffer E) b (ram s)\<rparr>"
  have u: "unat (512 :: u16) = length b" using assms(4) by simp
  have r: "ready_ep N s" using assms(1) by (simp add: good_host_def)
  obtain bp t where t: "Endpoint_Read_Stream_LE (env_app E) (BlockBuffer E) 512 None s = Some (0, bp, ev ?s t)" "fifo_in t = b" "fifo_out t = []"
    using Endpoint_Read_Stream_LE_sent [OF r assms(2,3), of 512 "BlockBuffer E", unfolded u] by auto
  have "mem_bytes (ram ?s) (BlockBuffer E) 512 = b" using mem_bytes_filled [of b "BlockBuffer E" "ram s"] assms(4) by simp
  with t show ?thesis
    by (simp add: VirtualFAT_WriteBlock_def Let_def Endpoint_ClearOUT_def io_simps)
qed

lemma blocks_read:
  assumes "good_host N s" "INTERRUPT_CONTROL_ENDPOINT (env_app E)" "length (FirmwareFileEntries (disk d)) = 160"
  shows "\<exists>t m. for_blocks (VirtualFAT_ReadBlock E) a i n (d, s) = Some (d, ev (s\<lparr>ram := m\<rparr>) t) \<and>
    fifo_out t = concat (map (\<lambda>k. load_block (env_spm E) (a + of_nat k) (disk d)) [i..<i + n]) \<and> fifo_in t = [] \<and>
    (\<forall>x. 512 \<le> unat (x - BlockBuffer E) \<longrightarrow> m x = ram s x)"
  using assms(1)
proof (induction n arbitrary: i s)
  case 0
  then show ?case by (intro exI [of _ "[]"] exI [of _ "ram s"]) simp
next
  case (Suc n)
  let ?b = "load_block (env_spm E) (a + of_nat i) (disk d)"
  let ?s = "s\<lparr>ram := filled (BlockBuffer E) ?b (ram s)\<rparr>"
  obtain t1 where t1: "VirtualFAT_ReadBlock E (a + of_nat i) (d, s) = Some (d, ev ?s t1)" "fifo_out t1 = ?b" "fifo_in t1 = []"
    using ReadBlock_good [OF Suc.prems assms(2,3)] by blast
  have "good_host N (ev ?s t1)" using Suc.prems by simp
  from Suc.IH [OF this] obtain t2 m where t2: "for_blocks (VirtualFAT_ReadBlock E) a (Suc i) n (d, ev ?s t1) = Some (d, ev (ev ?s t1\<lparr>ram := m\<rparr>) t2)"
      "fifo_out t2 = concat (map (\<lambda>k. load_block (env_spm E) (a + of_nat k) (disk d)) [Suc i..<Suc i + n])" "fifo_in t2 = []"
      "\<forall>x. 512 \<le> unat (x - BlockBuffer E) \<longrightarrow> m x = ram (ev ?s t1) x" by blast
  have "ev (ev ?s t1\<lparr>ram := m\<rparr>) t2 = ev (s\<lparr>ram := m\<rparr>) (t1 @ t2)" by (simp add: ev_def)
  moreover have "[i..<i + Suc n] = i # [Suc i..<Suc i + n]" by (simp add: upt_conv_Cons)
  moreover have "m x = ram s x" if "512 \<le> unat (x - BlockBuffer E)" for x
    using t2(4) that filled_outside [of ?b x "BlockBuffer E"] length_load_block [OF assms(3)] by simp
  ultimately show ?case using t1 t2 by (intro exI [of _ "t1 @ t2"] exI [of _ m]) (simp del: upt_Suc)
qed

lemma blocks_written:
  assumes "good_host N s" "INTERRUPT_CONTROL_ENDPOINT (env_app E)" "host_sends (concat bs) s" "\<forall>b\<in>set bs. length b = SECTOR_SIZE_BYTES"
  shows "\<exists>t m. for_blocks (VirtualFAT_WriteBlock E) a i (length bs) (d, s) =
      Some (d\<lparr>disk := fold (\<lambda>(k, b). store_block (env_spm E) (a + of_nat k) b) (zip [i..<i + length bs] bs) (disk d)\<rparr>, ev (s\<lparr>ram := m\<rparr>) t) \<and>
    fifo_in t = concat bs \<and> fifo_out t = [] \<and> (\<forall>x. 512 \<le> unat (x - BlockBuffer E) \<longrightarrow> m x = ram s x)"
  using assms(1,3,4)
proof (induction bs arbitrary: i d s)
  case Nil
  then show ?case by (intro exI [of _ "[]"] exI [of _ "ram s"]) simp
next
  case (Cons b bs)
  let ?s = "s\<lparr>ram := filled (BlockBuffer E) b (ram s)\<rparr>" and ?d = "d\<lparr>disk := store_block (env_spm E) (a + of_nat i) b (disk d)\<rparr>"
  have b: "length b = SECTOR_SIZE_BYTES" "host_sends (b @ concat bs) s" using Cons.prems by simp_all
  obtain t1 where t1: "VirtualFAT_WriteBlock E (a + of_nat i) (d, s) = Some (?d, ev ?s t1)" "fifo_in t1 = b" "fifo_out t1 = []"
    using WriteBlock_good [OF Cons.prems(1) assms(2) b(2,1)] by blast
  have "good_host N (ev ?s t1)" "host_sends (concat bs) (ev ?s t1)"
    using Cons.prems(1) host_sends_later [OF b(2), of "ev ?s t1" t1] t1(2) by simp_all
  from Cons.IH [OF this, of "Suc i" ?d] Cons.prems(3) obtain t2 m where t2: "for_blocks (VirtualFAT_WriteBlock E) a (Suc i) (length bs) (?d, ev ?s t1) =
      Some (?d\<lparr>disk := fold (\<lambda>(k, b). store_block (env_spm E) (a + of_nat k) b) (zip [Suc i..<Suc i + length bs] bs) (disk ?d)\<rparr>,
        ev (ev ?s t1\<lparr>ram := m\<rparr>) t2)" "fifo_in t2 = concat bs" "fifo_out t2 = []"
      "\<forall>x. 512 \<le> unat (x - BlockBuffer E) \<longrightarrow> m x = ram (ev ?s t1) x" by auto
  have "ev (ev ?s t1\<lparr>ram := m\<rparr>) t2 = ev (s\<lparr>ram := m\<rparr>) (t1 @ t2)" by (simp add: ev_def)
  moreover have "[i..<i + length (b # bs)] = i # [Suc i..<Suc i + length bs]" by (simp add: upt_conv_Cons del: upt_Suc)
  moreover have "m x = ram s x" if "512 \<le> unat (x - BlockBuffer E)" for x
    using t2(4) that filled_outside [of b x "BlockBuffer E"] b(1) by simp
  ultimately show ?case using t1 t2 by (intro exI [of _ "t1 @ t2"] exI [of _ m]) (simp del: upt_Suc)
qed

section \<open>READ and WRITE commands\<close>

text \<open>The command READ (10) or WRITE (10) for \<open>n\<close> blocks from block \<open>b\<close> on, and the status that answers a command.\<close>

definition rw_10 :: "u8 \<Rightarrow> u32 \<Rightarrow> u16 \<Rightarrow> u8 list" where
  "rw_10 opcode b n = [opcode, 0] @ rev (u32_bytes b) @ [0, ucast (drop_bit 8 n), ucast n, 0]"

definition passed :: "u32 \<Rightarrow> u8 list" where
  "passed tag = u32_bytes MS_CSW_SIGNATURE @ u32_bytes tag @ u32_bytes 0 @ [MS_SCSI_COMMAND_Pass]"

text \<open>The block buffer and the sense data do not overlap the state of the interface.\<close>

definition layout_ok :: "'f boot_env \<Rightarrow> bool" where
  "layout_ok E \<longleftrightarrow> (\<forall>x. unat (x - MS_State (Disk_MS_Interface E)) < 44 \<longrightarrow> 512 \<le> unat (x - BlockBuffer E) \<and> 18 \<le> unat (x - SenseData E))"

lemma u8_high: "\<not> bit (x :: u8) (8 + n)" "\<not> bit (x :: u8) (16 + n)" "\<not> bit (x :: u8) (24 + n)"
  using u8_bit by fastforce+

lemma SwapEndian_bytes:
  "SwapEndian_16 (u16_of_bytes a b) = u16_of_bytes b a" "SwapEndian_32 (u32_of_bytes a b c d) = u32_of_bytes d c b a"
proof -
  have "ucast (drop_bit 8 (u16_of_bytes a b)) = b" "ucast (u16_of_bytes a b) = a"
    by (auto intro!: bit_word_eqI simp: u16_of_bytes_def bit_simps u8_high)
  then show "SwapEndian_16 (u16_of_bytes a b) = u16_of_bytes b a" by (simp add: SwapEndian_16_def)
  have "ucast (drop_bit 24 (u32_of_bytes a b c d)) = d" "ucast (drop_bit 16 (u32_of_bytes a b c d)) = c"
    "ucast (drop_bit 8 (u32_of_bytes a b c d)) = b" "ucast (u32_of_bytes a b c d) = a"
    by (auto intro!: bit_word_eqI simp: u32_of_bytes_def bit_simps u8_high)
  then show "SwapEndian_32 (u32_of_bytes a b c d) = u32_of_bytes d c b a" by (simp add: SwapEndian_32_def)
qed

lemma u16_of_u16_bytes: "u16_of_bytes (ucast n) (ucast (drop_bit 8 n)) = n"
  by (rule bit_word_eqI) (auto simp: u16_of_bytes_def bit_simps)

lemma rw_10_received:
  assumes "ram s = ram (received (Disk_MS_Interface E) (cbw tag len flags 0 (rw_10 opcode b n)) s0)"
  shows "ram s (SCSICommandData E) = opcode" "SwapEndian_32 (ram_u32 (SCSICommandData E + 2) s) = b"
    "SwapEndian_16 (ram_u16 (SCSICommandData E + 7) s) = n"
proof -
  have at: "ram s (SCSICommandData E + of_nat i) = rw_10 opcode b n ! i" if "i < 10" for i
    unfolding assms by (rule received_cbw(7)) (use that in \<open>simp_all add: rw_10_def u32_bytes_def\<close>)
  show "ram s (SCSICommandData E) = opcode" using at [of 0] by (simp add: rw_10_def)
  show "SwapEndian_32 (ram_u32 (SCSICommandData E + 2) s) = b"
    using at [of 2] at [of 3] at [of 4] at [of 5] u32_of_u32_bytes [of b]
    by (simp add: ram_u32_def rw_10_def u32_bytes_def SwapEndian_bytes add.assoc)
  show "SwapEndian_16 (ram_u16 (SCSICommandData E + 7) s) = n"
    using at [of 7] at [of 8] u16_of_u16_bytes [of n] by (simp add: ram_u16_def rw_10_def u32_bytes_def SwapEndian_bytes add.assoc)
qed

text \<open>The end of a successful command: the length and the sense data are written, and nothing else of the state changes.\<close>

lemma command_end:
  assumes "layout_ok E" "ram_u32 (CB_DataTransferLength (Disk_MS_Interface E)) s = len"
  shows "\<exists>m. SCSI_SET_SENSE E k a q (transferred E len s) = s\<lparr>ram := m\<rparr> \<and>
    ram_u32 (CB_Tag (Disk_MS_Interface E)) (s\<lparr>ram := m\<rparr>) = ram_u32 (CB_Tag (Disk_MS_Interface E)) s \<and>
    ram_u32 (CB_DataTransferLength (Disk_MS_Interface E)) (s\<lparr>ram := m\<rparr>) = 0"
proof -
  let ?I = "Disk_MS_Interface E"
  define m where "m = ram (SCSI_SET_SENSE E k a q (transferred E len s))"
  have e: "SCSI_SET_SENSE E k a q (transferred E len s) = s\<lparr>ram := m\<rparr>"
    by (simp add: m_def SCSI_SET_SENSE_def transferred_def write_ram8_def write_ram32_def Let_def)
  have apart: "MS_State ?I + of_nat i \<noteq> SenseData E + of_nat j" if "i < 44" "j < 18" for i j
  proof
    assume eq: "MS_State ?I + of_nat i = SenseData E + of_nat j"
    have "unat (MS_State ?I + of_nat i - MS_State ?I) = i" "unat (SenseData E + of_nat j - SenseData E) = j"
      by (rule unat_offset, use that in simp)+
    with assms(1) that eq show False unfolding layout_ok_def by (metis not_less)
  qed
  have kept: "m (MS_State ?I + of_nat i) = ram (transferred E len s) (MS_State ?I + of_nat i)" if "i < 44" for i
    using apart [of i 2] apart [of i 12] apart [of i 13] that by (simp add: m_def SCSI_SET_SENSE_def write_ram8_def Let_def)
  have "ram_u32 (CB_Tag ?I) (s\<lparr>ram := m\<rparr>) = ram_u32 (CB_Tag ?I) (transferred E len s)"
    using kept [of 4] kept [of 5] kept [of 6] kept [of 7] by (simp add: ram_u32_def add.assoc)
  moreover have "ram_u32 (CB_DataTransferLength ?I) (s\<lparr>ram := m\<rparr>) = ram_u32 (CB_DataTransferLength ?I) (transferred E len s)"
    using kept [of 8] kept [of 9] kept [of 10] kept [of 11] by (simp add: ram_u32_def add.assoc)
  moreover have "ram_u32 (CB_Tag ?I) (transferred E len s) = ram_u32 (CB_Tag ?I) s"
    by (simp add: transferred_def write_ram32_def ram_u32_def Let_def add.assoc)
  moreover have "ram_u32 (CB_DataTransferLength ?I) (transferred E len s) = 0"
    using u32_of_u32_bytes [of 0] assms(2) by (simp add: transferred_def write_ram32_def ram_u32_def [of _ "s\<lparr>ram := _\<rparr>"] Let_def add.assoc)
  ultimately show ?thesis using e by metis
qed

definition moves_blocks :: "'f boot_env \<Rightarrow> bool \<Rightarrow> u16 \<Rightarrow> u16 \<Rightarrow> 'f bootloader \<Rightarrow> usb_st \<Rightarrow> 'f bootloader \<Rightarrow> u8 list \<Rightarrow> u8 list \<Rightarrow> bool" where
  "moves_blocks E r b n d s d1 ins outs \<longleftrightarrow> (\<exists>t m.
     for_blocks (if r then VirtualFAT_ReadBlock E else VirtualFAT_WriteBlock E) b 0 (unat n) (d, s) = Some (d1, ev (s\<lparr>ram := m\<rparr>) t) \<and>
     fifo_in t = ins \<and> fifo_out t = outs \<and> (\<forall>x. 512 \<le> unat (x - BlockBuffer E) \<longrightarrow> m x = ram s x))"

lemma callback_rw_10:
  assumes "layout_ok E" "unat b < LUN_MEDIA_BLOCKS" "moves_blocks E r (ucast b) n d s d1 ins outs"
    and ram: "ram s = ram (received (Disk_MS_Interface E) (cbw tag (ucast n * 512) flags 0 (rw_10 (if r then SCSI_CMD_READ_10 else SCSI_CMD_WRITE_10) b n)) s0)"
  shows "\<exists>t m. CALLBACK_MS_Device_SCSICommandReceived E (d, s) = Some (True, d1\<lparr>TicksSinceLastCommand := 0\<rparr>, ev (s\<lparr>ram := m\<rparr>) t) \<and>
    fifo_in t = ins \<and> fifo_out t = outs \<and> csw (Disk_MS_Interface E) True (ev (s\<lparr>ram := m\<rparr>) t) = passed tag"
proof -
  let ?I = "Disk_MS_Interface E" and ?op = "if r then SCSI_CMD_READ_10 else SCSI_CMD_WRITE_10"
  note cmd = rw_10_received [OF ram]
  have len: "length (rw_10 ?op b n) \<le> 16" by (simp add: rw_10_def u32_bytes_def)
  have b: "\<not> of_nat LUN_MEDIA_BLOCKS \<le> (ucast b :: u16)"
    using assms(2) by (simp add: word_le_nat_alt unsigned_ucast_eq take_bit_nat_eq_self LUN_MEDIA_BLOCKS_def file_sizes unat_of_nat)
  obtain t m where t: "for_blocks (if r then VirtualFAT_ReadBlock E else VirtualFAT_WriteBlock E) (ucast b) 0 (unat n) (d, s) = Some (d1, ev (s\<lparr>ram := m\<rparr>) t)"
      "fifo_in t = ins" "fifo_out t = outs" "\<forall>x. 512 \<le> unat (x - BlockBuffer E) \<longrightarrow> m x = ram s x"
    using assms(3) unfolding moves_blocks_def by blast
  let ?s = "ev (s\<lparr>ram := m\<rparr>) t"
  have "m (MS_State ?I + of_nat i) = ram s (MS_State ?I + of_nat i)" if "i < 44" for i
  proof -
    have "unat (MS_State ?I + of_nat i - MS_State ?I) < 44" using unat_offset [of i "MS_State ?I"] that by simp
    with assms(1) t(4) show ?thesis unfolding layout_ok_def by blast
  qed
  from this [of 4] this [of 5] this [of 6] this [of 7] this [of 8] this [of 9] this [of 10] this [of 11]
  have "ram_u32 (CB_Tag ?I) ?s = ram_u32 (CB_Tag ?I) s" "ram_u32 (CB_DataTransferLength ?I) ?s = ram_u32 (CB_DataTransferLength ?I) s"
    by (simp_all add: ram_u32_def add.assoc)
  then have st: "ram_u32 (CB_Tag ?I) ?s = tag" "ram_u32 (CB_DataTransferLength ?I) ?s = ucast n * 512"
    using received_cbw(2,3) [OF len, of ?I tag "ucast n * 512" flags 0 s0] ram by (simp_all add: ram_u32_def)
  obtain m' where m': "SCSI_SET_SENSE E SCSI_SENSE_KEY_GOOD SCSI_ASENSE_NO_ADDITIONAL_INFORMATION SCSI_ASENSEQ_NO_QUALIFIER
        (transferred E (ucast n * 512) ?s) = ?s\<lparr>ram := m'\<rparr>"
      "ram_u32 (CB_Tag ?I) (?s\<lparr>ram := m'\<rparr>) = ram_u32 (CB_Tag ?I) ?s" "ram_u32 (CB_DataTransferLength ?I) (?s\<lparr>ram := m'\<rparr>) = 0"
    using command_end [OF assms(1) st(2)] by blast
  have e: "?s\<lparr>ram := m'\<rparr> = ev (s\<lparr>ram := m'\<rparr>) t" by (simp add: ev_def)
  have "scsi_switch E (d, s) = SCSI_Command_ReadWrite_10 E r (d, s)" by (simp add: scsi_switch_def cmd(1))
  also have "\<dots> = Some (True, d1, transferred E (ucast n * 512) ?s)" 
    unfolding SCSI_Command_ReadWrite_10_def prod.case Let_def cmd(2,3) using b t(1) by (simp split del: if_split)
  finally have "CALLBACK_MS_Device_SCSICommandReceived E (d, s) = Some (True, d1\<lparr>TicksSinceLastCommand := 0\<rparr>, ?s\<lparr>ram := m'\<rparr>)"
    by (simp add: CALLBACK_MS_Device_SCSICommandReceived_def SCSI_DecodeSCSICommand_def m'(1))
  moreover have "csw ?I True (?s\<lparr>ram := m'\<rparr>) = passed tag" by (simp add: csw_def passed_def m'(2,3) st(1))
  ultimately show ?thesis using t(2,3) unfolding e by blast
qed

lemma rw_10_answered:
  assumes g: "good_host N s" and i: "INTERRUPT_CONTROL_ENDPOINT (env_app E)" and c: "ucast (hw s (trace s) USB_DeviceState) = DEVICE_STATE_Configured"
    and h: "host_sends (cbw tag (ucast n * 512) flags 0 (rw_10 (if r then SCSI_CMD_READ_10 else SCSI_CMD_WRITE_10) b n) @ rest) s"
    and ok: "0 < TotalLUNs (Disk_MS_Interface E)" "flags AND 0x1F = 0" and l: "layout_ok E" "unat b < LUN_MEDIA_BLOCKS"
    and blocks: "\<And>s. good_host N s \<Longrightarrow> host_sends rest s \<Longrightarrow> moves_blocks E r (ucast b) n d s d1 ins outs"
  shows "\<exists>s' t. MS_Device_USBTask (env_app E) (CALLBACK_MS_Device_SCSICommandReceived E) (Disk_MS_Interface E) (d, s) =
      Some (d1\<lparr>TicksSinceLastCommand := 0\<rparr>, s') \<and> hw s' = hw s \<and> trace s' = trace s @ t \<and>
    fifo_in t = cbw tag (ucast n * 512) flags 0 (rw_10 (if r then SCSI_CMD_READ_10 else SCSI_CMD_WRITE_10) b n) @ ins \<and>
    fifo_out t = outs @ passed tag"
proof -
  let ?I = "Disk_MS_Interface E" and ?op = "if r then SCSI_CMD_READ_10 else SCSI_CMD_WRITE_10"
  let ?c = "cbw tag (ucast n * 512) flags 0 (rw_10 ?op b n)"
  have len: "rw_10 ?op b n \<noteq> []" "length (rw_10 ?op b n) \<le> 16" by (simp_all add: rw_10_def u32_bytes_def)
  obtain t0 where t0: "fifo_in t0 = ?c" "fifo_out t0 = []" "MS_Device_USBTask (env_app E) (CALLBACK_MS_Device_SCSICommandReceived E) ?I (d, s) =
    (CALLBACK_MS_Device_SCSICommandReceived E (d, ev (received ?I ?c s) t0) \<bind> (\<lambda>(ok, d, s). ms_command_done (env_app E) ?I ok s \<bind>
      (\<lambda>s. let (reset, s) = rd8 IsMassStoreReset s in Some (d, if reset \<noteq> 0 then ms_reset ?I s else s))))"
    using MS_Device_USBTask_good [OF g i c h ok len, of "CALLBACK_MS_Device_SCSICommandReceived E" d] by (elim exE conjE)
  let ?s0 = "ev (received ?I ?c s) t0"
  have g0: "good_host N ?s0" using g by (simp add: received_def)
  have h0: "host_sends rest ?s0" using host_sends_later [OF h, of ?s0 t0] t0(1) by (simp add: received_def)
  have r0: "ram ?s0 = ram (received ?I ?c s)" by simp
  obtain t1 m where
    t1: "CALLBACK_MS_Device_SCSICommandReceived E (d, ?s0) = Some (True, d1\<lparr>TicksSinceLastCommand := 0\<rparr>, ev (?s0\<lparr>ram := m\<rparr>) t1)"
      "fifo_in t1 = ins" "fifo_out t1 = outs" "csw ?I True (ev (?s0\<lparr>ram := m\<rparr>) t1) = passed tag"
    using callback_rw_10 [OF l blocks [OF g0 h0] r0] by (elim exE conjE)
  let ?s1 = "ev (?s0\<lparr>ram := m\<rparr>) t1"
  have "good_host N ?s1" using g0 by simp
  from ms_command_done_good [OF this i disjI1 [OF TrueI], of ?I] obtain t2 where
    t2: "ms_command_done (env_app E) ?I True ?s1 = Some (ev (status_stored ?I True ?s1) t2)" "fifo_out t2 = passed tag" "fifo_in t2 = []"
    unfolding t1(4) by (elim exE conjE)
  let ?s2 = "ev (status_stored ?I True ?s1) t2"
  have "good_host N ?s2" using \<open>good_host N ?s1\<close> by (simp add: status_stored_def)
  then have "ucast (hw ?s2 (trace ?s2) IsMassStoreReset) = (0 :: u8)" unfolding good_host_def no_reset_def by (metis append_Nil2)
  moreover define w where "w = hw ?s2 (trace ?s2) IsMassStoreReset"
  ultimately have run: "MS_Device_USBTask (env_app E) (CALLBACK_MS_Device_SCSICommandReceived E) ?I (d, s) =
      Some (d1\<lparr>TicksSinceLastCommand := 0\<rparr>, ev ?s2 [Rd IsMassStoreReset w])"
    using t0(3) t1(1) t2(1) by (simp add: io_simps)
  have "hw (ev ?s2 [Rd IsMassStoreReset w]) = hw s \<and> trace (ev ?s2 [Rd IsMassStoreReset w]) = trace s @ t0 @ t1 @ t2 @ [Rd IsMassStoreReset w]"
    by (simp add: status_stored_def received_def)
  moreover have "fifo_in (t0 @ t1 @ t2 @ [Rd IsMassStoreReset w]) = ?c @ ins" "fifo_out (t0 @ t1 @ t2 @ [Rd IsMassStoreReset w]) = outs @ passed tag"
    using t0(1,2) t1(2,3) t2(2,3) by simp_all
  ultimately show ?thesis using run by blast
qed



section \<open>A board on a bus\<close>

text \<open>A configured device whose host keeps up and sends the bytes \<open>bs\<close>.\<close>

definition sending :: "u8 list \<Rightarrow> usb_st" where
  "sending bs = boot_st (\<lambda>t l. if l = UEINTX then 0xFF else if l = USB_DeviceState then 4
     else if l = UEDATX \<and> length (fifo_in t) < length bs then ucast (bs ! length (fifo_in t)) else 0)"

definition sample_boot :: "((u32 \<Rightarrow> u8) \<times> (u32 \<Rightarrow> u8)) boot_env" where
  "sample_boot = \<lparr>env_app = interrupt_app, env_spm = sample_spm, Disk_MS_Interface = sample_ms, BlockBuffer = 0x400, SenseData = 0x200, InquiryData = 0x300\<rparr>"

definition sample_program :: "((u32 \<Rightarrow> u8) \<times> (u32 \<Rightarrow> u8)) bootloader" where
  "sample_program = \<lparr>disk = initial_disk (\<lambda>_. 0xFF, \<lambda>_. 0), RunBootloader = True, TicksSinceLastCommand = 0\<rparr>"

lemma sending_good: "good_host 1 (sending bs)" "host_sends bs (sending bs)" "ucast (hw (sending bs) (trace (sending bs)) USB_DeviceState) = DEVICE_STATE_Configured"
  by (simp_all add: sending_def good_host_def ready_ep_def no_reset_def host_sends_def boot_st_def)

lemma sample_boot_ok:
  "INTERRUPT_CONTROL_ENDPOINT (env_app sample_boot)" "0 < TotalLUNs (Disk_MS_Interface sample_boot)" "layout_ok sample_boot" "spm_laws (env_spm sample_boot) snd"
proof -
  have "512 \<le> unat (x - 0x400) \<and> 18 \<le> unat (x - 0x200)" if "unat (x - 0x100) < 44" for x :: u16
  proof -
    define y where "y = x - 0x100"
    have "x - 0x400 = y - 0x300" "x - 0x200 = y - 0x100" by (simp_all add: y_def)
    moreover have "unat y < 44" using that by (simp add: y_def)
    ultimately show ?thesis by (simp add: unat_sub_if')
  qed
  then show "layout_ok sample_boot" by (simp add: layout_ok_def sample_boot_def sample_ms_def)
qed (simp_all add: sample_boot_def interrupt_app_def sample_ms_def sample_spm_laws)



text \<open>One round, in which the host writes a sector of the firmware.\<close>

theorem bootloader_never_overwritten_witness:
  "\<exists>d. runs_from sample_boot sample_program d \<and> disk d = store_block sample_spm 5 (replicate 512 9) (disk sample_program) \<and>
    pgm_read_byte_far sample_spm 0x1E000 (flash_mem (disk d)) = 0xFF"
proof -
  let ?s = "sending (cbw 7 (ucast (1 :: u16) * 512) 0 0 (rw_10 SCSI_CMD_WRITE_10 5 1) @ concat [replicate 512 9])"
  let ?d = "sample_program\<lparr>disk := store_block sample_spm 5 (replicate 512 9) (disk sample_program)\<rparr>"
  have b: "unat (5 :: u32) < LUN_MEDIA_BLOCKS" by (simp add: LUN_MEDIA_BLOCKS_def)
  have e: "env_spm sample_boot = sample_spm" by (simp add: sample_boot_def)
  have blocks: "moves_blocks sample_boot False (ucast (5 :: u32)) 1 sample_program s ?d (concat [replicate 512 9]) []"
    if "good_host 1 s" "host_sends (concat [replicate 512 9]) s" for s
    using blocks_written [OF that(1) sample_boot_ok(1) that(2), where a = 5 and i = 0 and d = sample_program] by (auto simp: moves_blocks_def e)
  have h: "host_sends (cbw 7 (ucast (1 :: u16) * 512) 0 0 (rw_10 (if False then SCSI_CMD_READ_10 else SCSI_CMD_WRITE_10) 5 1) @ concat [replicate 512 9]) ?s"
    using sending_good(2) by simp
  obtain s' t where t: "MS_Device_USBTask (env_app sample_boot) (CALLBACK_MS_Device_SCSICommandReceived sample_boot) (Disk_MS_Interface sample_boot)
      (sample_program, ?s) = Some (?d\<lparr>TicksSinceLastCommand := 0\<rparr>, s')" "hw s' = hw ?s"
    using rw_10_answered [where r = False, OF sending_good(1) sample_boot_ok(1) sending_good(3) h sample_boot_ok(2) _ sample_boot_ok(3) b blocks] by auto
  have "ucast (hw s' u USB_CurrentMode) = (0 :: u8)" for u by (simp add: t(2) sending_def)
  then obtain s2 where "main_round sample_boot (sample_program, ?s) = Some (?d\<lparr>TicksSinceLastCommand := 0\<rparr>, s2)"
    using t(1) by (simp add: main_round_def USB_USBTask_def io_simps)
  note step = this
  have go: "keep_running sample_program = (True, sample_program)" by (simp add: keep_running_def sample_program_def)
  have r: "runs_from sample_boot sample_program (?d\<lparr>TicksSinceLastCommand := 0\<rparr>)"
    by (rule runs_from.step [OF runs_from.start go step])
  have "pgm_read_byte_far sample_spm 0x1E000 (flash_mem (disk (?d\<lparr>TicksSinceLastCommand := 0\<rparr>))) =
      pgm_read_byte_far sample_spm 0x1E000 (flash_mem (disk sample_program))"
    using bootloader_never_overwritten [where x = "0x1E000", OF sample_boot_ok(4) r] unfolding e by simp
  with r show ?thesis by (intro exI [of _ "?d\<lparr>TicksSinceLastCommand := 0\<rparr>"]) (simp add: sample_program_def initial_disk_def sample_spm_def)
qed

end
