(* ===== verification/Spec2Isabelle.thy ===== *)
theory Spec2Isabelle
  imports Ring_Buffer_Concurrent HID_Report_Items Config_Descriptors Magstripe Disk_Bootloader
begin

text \<open>
  A model of the LUFA USB stack for 8-bit AVR microcontrollers, with proofs of the properties its parts promise.

  \<^bold>\<open>The program.\<close> LUFA is a C library for USB devices and hosts, with bootloaders, demos and projects built on it. An interrupt
  handler and a polled task (\<^verbatim>\<open>USBInterrupt_AVR8.c\<close>, \<^verbatim>\<open>USBTask.c\<close>) drive the stack. As a device it answers control requests
  (\<^verbatim>\<open>DeviceStandardReq.c\<close>) through streams over the control endpoint; as a host it enumerates a device
  (\<^verbatim>\<open>Host_AVR8.c\<close>) with control requests of its own (\<^verbatim>\<open>HostStandardReq.c\<close>) and searches the configuration descriptor
  (\<^verbatim>\<open>ConfigDescriptors.c\<close>). Data moves in streams over endpoints and pipes (\<^verbatim>\<open>EndpointStream_AVR8.c\<close>,
  \<^verbatim>\<open>PipeStream_AVR8.c\<close>), which use the register accessors of \<^verbatim>\<open>Endpoint_AVR8.h\<close> and \<^verbatim>\<open>Pipe_AVR8.h\<close>. Beside the stack
  there are a ring buffer (\<^verbatim>\<open>RingBuffer.h\<close>) and a parser for HID report descriptors (\<^verbatim>\<open>HIDParser.c\<close>).

  \<^bold>\<open>The machine.\<close> \<^verbatim>\<open>Volatile_IO\<close> is the state on which all hardware code runs. A register or \<open>volatile\<close> global is a location; a read
  returns what the field \<open>hw\<close>, an arbitrary function of the past, chooses, and every access is an event of the trace. A theorem
  without a hypothesis on \<open>hw\<close> holds for every behaviour of the controller, the other side of the bus and the interrupt handlers.
  Memories are functions of 16-bit addresses; pointers wrap around as words do. Library globals that are not volatile are fields.
  The configuration is an AT90USB1287 that can be device and host.

  \<^bold>\<open>The theories.\<close> One per component, each definition named as in the source:
  \<^item> \<^verbatim>\<open>Lufa_Prelude\<close>: word types, single-bit masks, checked arrays, the predicates \<open>returns\<close> (total correctness) and \<open>always\<close>.
  \<^item> \<^verbatim>\<open>Ring_Buffer\<close>, \<^verbatim>\<open>Ring_Buffer_Concurrent\<close>: the operations of \<^verbatim>\<open>RingBuffer.h\<close> on a memory; they refine a FIFO queue. The
    second theory splits insertion and removal into their memory accesses, as a step relation, for one producer and one consumer.
  \<^item> \<^verbatim>\<open>HID_Parser\<close>, \<^verbatim>\<open>HID_Parser_Safety\<close>, \<^verbatim>\<open>HID_Report_Items\<close>: the parser item by item on checked arrays, where \<open>None\<close> is an access
    outside an array; its memory safety, the invariants of the structure it fills, the layout of fields, and item access.
  \<^item> \<^verbatim>\<open>Config_Descriptors\<close>: the walk over a configuration descriptor and the searches; they find the first match, and diverge
    exactly on a descriptor of size zero.
  \<^item> \<^verbatim>\<open>Endpoint_AVR8\<close>, \<^verbatim>\<open>Pipe_AVR8\<close>: every register accessor, FIFO access, configuration and the bounded wait for readiness.
  \<^item> \<^verbatim>\<open>Endpoint_Control_Streams\<close>: the two templates of control transfers with their instances. \<open>packets\<close> reads off a trace what is
    sent to the host; successful writes send the message in packets of the endpoint size, with a short packet at the end.
  \<^item> \<^verbatim>\<open>Device_Standard_Requests\<close>: the standard requests and the dispatcher; the application's events are the record \<open>usb_app\<close>.
  \<^item> \<^verbatim>\<open>USB_Interrupts\<close>, \<^verbatim>\<open>USB_Controller\<close>, \<^verbatim>\<open>USB_Interrupt_Handlers\<close>: interrupt sources, controller, PLL, host bus and OTG control, the
    interrupt handlers and the task of the main loop.
  \<^item> \<^verbatim>\<open>Byte_Transfers\<close>, \<^verbatim>\<open>Data_Streams\<close>: transfers between memory and a FIFO, and the stream templates with all instances. The locale
    \<open>stream_port\<close> states what the loop relies on; endpoints and pipes interpret it.
  \<^item> \<^verbatim>\<open>Host_Standard_Requests\<close>, \<^verbatim>\<open>Host_State_Machine\<close>: the control transfers of the host, every request built on them, and the
    enumeration, which refines the abstract machine \<open>enum_step\<close>.
  \<^item> \<^verbatim>\<open>Circular_Bit_Buffer\<close>, \<^verbatim>\<open>Magstripe\<close>: the card reader project. The bit buffer interprets the contract \<open>bounded_fifo\<close> of the ring
    buffer; the reader types on the keyboard what was swiped.
  \<^item> \<^verbatim>\<open>Virtual_FAT\<close>: the disk of the mass storage bootloader, from the allocation table to the programming of flash pages.

  \<^bold>\<open>What is shown.\<close> Data structures: the ring buffer and the bit buffer are queues, also under concurrent access for the former.
  Parsers: on complete descriptors the HID parser returns and stays within its arrays, its results are well-formed, and the descriptor
  searches are correct. Transfers: control writes and reads move exactly the buffer, in packets; streams are resumable, return when the
  frame counter runs, and lose or repeat no byte; requests of the host put exactly the request and the data on the bus. Protocol:
  addresses take effect after the status stage, unsupported requests are stalled, configuration numbers are checked, enumeration
  advances phase by phase. Devices: a sector written to the virtual disk is programmed at its place and read back.

  \<^bold>\<open>Termination.\<close> Recursion over data is by \<open>fun\<close> or \<open>function\<close> with a measure. A loop that polls the hardware is a
  \<open>partial_function\<close> in the option monad, so that waiting forever is \<open>None\<close>; the liveness properties show a result under a named
  hypothesis on the hardware, e.g. \<open>frame_clock\<close>: the frame number changes within a bounded number of reads. There is no fuel in
  the model of the code; the reader \<open>chain\<close> of an allocation table takes one entry per step and is given as many steps as entries.

  \<^bold>\<open>Not modelled.\<close> The class drivers, which are clients of the streams and requests above; the UC3 and XMEGA ports, which repeat
  the same drivers for other registers; the drivers for boards and on-chip peripherals, which set up hardware the model has no
  part in; the other bootloaders, demos and projects, which are applications; event stubs, which are parameters here; makefiles,
  compile-time tests, code templates and documentation.
\<close>

end
